(* ===== verification/Prelude.thy ===== *)
theory Prelude
  imports Main "HOL-Library.Word" "HOL-Library.Char_ord" "HOL-Library.List_Lexorder"
    "HOL-Library.Monad_Syntax"
begin

text \<open>
  Shared vocabulary of the development: Rust's machine integers as words, its arithmetic
  operators on them (plain operators panic on overflow, because the release profile sets
  \<^verbatim>\<open>overflow-checks = true\<close>), big-endian byte encodings, the \<^verbatim>\<open>Result\<close>/panic
  conventions, the UTF-8 string operations of the standard library the sources call, ordered
  maps (\<^verbatim>\<open>BTreeMap\<close>) and the generic lemmas the components share.

  Conventions:
  \<^item> \<^verbatim>\<open>Result<T, E>\<close> is \<open>'e + 't\<close>, \<open>Inl\<close> the error;
  \<^item> a computation that may panic returns an \<open>option\<close>, \<open>None\<close> being the panic;
  \<^item> \<^verbatim>\<open>[u8; N]\<close> and \<^verbatim>\<open>Vec<u8>\<close> are \<open>u8 list\<close>; the length of an array is part of the
    well-formedness predicates;
  \<^item> \<^verbatim>\<open>String\<close> is \<open>string\<close>, one \<open>char\<close> per UTF-8 byte, so that \<open>length\<close> counts bytes as
    \<^verbatim>\<open>str::len\<close> does;
  \<^item> \<^verbatim>\<open>u64\<close> and \<^verbatim>\<open>i64\<close> are both \<open>64 word\<close>: \<^verbatim>\<open>as\<close>-casts between them are the identity, and
    signed operations read the word with \<open>sint\<close>.
\<close>

unbundle bit_operations_syntax

named_theorems wire_simps \<open>evaluation of the byte encodings\<close>
named_theorems arith_ops \<open>definitions of Rust's integer operators\<close>

type_synonym u8 = "8 word"
type_synonym u16 = "16 word"
type_synonym u32 = "32 word"
type_synonym u64 = "64 word"
type_synonym i64 = "64 word"
type_synonym bytes = "u8 list"

section \<open>Integer operators\<close>

definition u64_saturating_sub :: "u64 \<Rightarrow> u64 \<Rightarrow> u64" where
  [arith_ops]: "u64_saturating_sub a b = (if a < b then 0 else a - b)"

definition u64_saturating_add :: "u64 \<Rightarrow> u64 \<Rightarrow> u64" where
  [arith_ops]: "u64_saturating_add a b = (if unat a + unat b < 2 ^ 64 then a + b else - 1)"

definition u32_saturating_sub :: "u32 \<Rightarrow> u32 \<Rightarrow> u32" where
  [arith_ops]: "u32_saturating_sub a b = (if a < b then 0 else a - b)"

definition u64_checked_add :: "u64 \<Rightarrow> u64 \<Rightarrow> u64 option" where
  [arith_ops]: "u64_checked_add a b = (if uint a + uint b < 2 ^ 64 then Some (a + b) else None)"

definition u64_checked_mul :: "u64 \<Rightarrow> u64 \<Rightarrow> u64 option" where
  [arith_ops]: "u64_checked_mul a b = (if uint a * uint b < 2 ^ 64 then Some (a * b) else None)"

definition i64_in_range :: "int \<Rightarrow> bool" where
  [arith_ops]: "i64_in_range z \<longleftrightarrow> - (2 ^ 63) \<le> z \<and> z < 2 ^ 63"

definition i64_checked_add :: "i64 \<Rightarrow> i64 \<Rightarrow> i64 option" where
  [arith_ops]: "i64_checked_add a b =
     (if i64_in_range (sint a + sint b) then Some (a + b) else None)"

definition i64_checked_sub :: "i64 \<Rightarrow> i64 \<Rightarrow> i64 option" where
  [arith_ops]: "i64_checked_sub a b =
     (if i64_in_range (sint a - sint b) then Some (a - b) else None)"

definition i64_clamp :: "int \<Rightarrow> i64" where
  [arith_ops]: "i64_clamp z =
     (if z < - (2 ^ 63) then word_of_int (- (2 ^ 63))
      else if 2 ^ 63 \<le> z then word_of_int (2 ^ 63 - 1) else word_of_int z)"

definition i64_saturating_add :: "i64 \<Rightarrow> i64 \<Rightarrow> i64" where
  [arith_ops]: "i64_saturating_add a b = i64_clamp (sint a + sint b)"

definition i64_saturating_sub :: "i64 \<Rightarrow> i64 \<Rightarrow> i64" where
  [arith_ops]: "i64_saturating_sub a b = i64_clamp (sint a - sint b)"

definition i64_div :: "i64 \<Rightarrow> i64 \<Rightarrow> i64" where
  [arith_ops]: "i64_div a b = word_of_int (sgn (sint a) * sgn (sint b) * (\<bar>sint a\<bar> div \<bar>sint b\<bar>))"

definition i64_unsigned_abs :: "i64 \<Rightarrow> u64" where
  [arith_ops]: "i64_unsigned_abs a = word_of_int \<bar>sint a\<bar>"

definition i64_le :: "i64 \<Rightarrow> i64 \<Rightarrow> bool" where
  [arith_ops]: "i64_le a b \<longleftrightarrow> sint a \<le> sint b"

text \<open>\<^verbatim>\<open>usize\<close> values are naturals; an addition panics when it leaves the target's word.\<close>

definition usize_add :: "nat \<Rightarrow> nat \<Rightarrow> nat \<Rightarrow> nat option" where
  "usize_add bits a b = (if a + b < 2 ^ bits then Some (a + b) else None)"

lemma usize_add_code [code]:
  "usize_add bits a b = (if int a + int b < 2 ^ bits then Some (a + b) else None)"
proof -
  have "a + b < 2 ^ bits \<longleftrightarrow> int a + int b < 2 ^ bits"
    by (metis of_nat_add of_nat_less_numeral_power_cancel_iff of_nat_numeral)
  then show ?thesis by (simp add: usize_add_def)
qed

lemma u64_checked_add_uint: "u64_checked_add a b = Some c \<Longrightarrow> uint c = uint a + uint b"
  by (auto simp: u64_checked_add_def uint_word_ariths take_bit_int_eq_self split: if_splits)

lemma u64_checked_mul_uint: "u64_checked_mul a b = Some c \<Longrightarrow> uint c = uint a * uint b"
  by (auto simp: u64_checked_mul_def uint_word_ariths take_bit_int_eq_self split: if_splits)

lemma uint_word_of_int64: "0 \<le> z \<Longrightarrow> z < 2 ^ 64 \<Longrightarrow> uint (word_of_int z :: u64) = z"
  by (simp add: unsigned_of_int take_bit_int_eq_self)

lemma unat_of_nat_u32: "n < 2 ^ 32 \<Longrightarrow> unat (of_nat n :: u32) = n"
  by (simp add: unat_of_nat take_bit_nat_eq_self)

lemma word_plus_1_nonzero: "(w :: 'a::len word) \<noteq> - 1 \<Longrightarrow> w + 1 \<noteq> 0"
  by (metis add_eq_0_iff2)

lemma word_less_plus_1: "(w :: 'a::len word) \<noteq> - 1 \<Longrightarrow> w < w + 1"
  by (metis add.commute lessI unatSuc word_less_nat_alt word_plus_1_nonzero)

lemma unat_ucast_u8_u32: "unat (ucast (w :: u8) :: u32) = unat w"
  using unsigned_less [of w, where ?'a = nat] by (simp add: unsigned_ucast_eq take_bit_nat_eq_self)

lemma sint_range64: "- (2 ^ 63) \<le> sint (w :: i64)" "sint (w :: i64) < 2 ^ 63"
  using sint_ge [of w] sint_lt [of w] by simp_all

lemma sint_word_of_int64: "i64_in_range z \<Longrightarrow> sint (word_of_int z :: i64) = z"
  unfolding i64_in_range_def
  by (simp add: signed_of_int signed_take_bit_int_eq_self)

lemma sint_i64_checked_add:
  assumes "i64_checked_add a b = Some c"
  shows "sint c = sint a + sint b"
proof -
  have "c = word_of_int (sint a + sint b)" and "i64_in_range (sint a + sint b)"
    using assms by (simp_all add: i64_checked_add_def split: if_splits)
  then show ?thesis by (metis sint_word_of_int64)
qed

lemma sint_i64_checked_sub:
  assumes "i64_checked_sub a b = Some c"
  shows "sint c = sint a - sint b"
proof -
  have "c = word_of_int (sint a - sint b)" and "i64_in_range (sint a - sint b)"
    using assms by (simp_all add: i64_checked_sub_def split: if_splits)
  then show ?thesis by (metis sint_word_of_int64)
qed

lemma sint_i64_clamp: "i64_in_range z \<Longrightarrow> sint (i64_clamp z) = z"
  by (simp add: i64_clamp_def i64_in_range_def sint_word_of_int64)

section \<open>Big-endian encodings\<close>

text \<open>\<^verbatim>\<open>to_be_bytes\<close>/\<^verbatim>\<open>from_be_bytes\<close> of an \<open>n\<close>-byte integer.\<close>

primrec to_be_bytes :: "nat \<Rightarrow> 'a::len word \<Rightarrow> bytes" where
  "to_be_bytes 0 w = []"
| "to_be_bytes (Suc n) w = ucast (drop_bit (8 * n) w) # to_be_bytes n w"

definition from_be_bytes :: "bytes \<Rightarrow> 'a::len word" where
  "from_be_bytes bs = foldl (\<lambda>acc b. push_bit 8 acc OR ucast b) 0 bs"

lemma length_to_be_bytes [simp]: "length (to_be_bytes n w) = n"
  by (induction n) simp_all

lemma foldl_to_be_bytes:
  fixes w acc :: "'a::len word"
  shows "8 * n \<le> LENGTH('a) \<Longrightarrow>
    foldl (\<lambda>acc b. push_bit 8 acc OR ucast b) acc (to_be_bytes n w)
      = push_bit (8 * n) acc OR take_bit (8 * n) w"
proof (induction n arbitrary: acc)
  case 0
  then show ?case by simp
next
  case (Suc n)
  have "push_bit (8 * n) (push_bit 8 acc OR ucast (ucast (drop_bit (8 * n) w) :: u8))
      OR take_bit (8 * n) w = push_bit (8 * Suc n) acc OR take_bit (8 * Suc n) w"
  proof (rule bit_word_eqI)
    fix k assume "k < LENGTH('a)"
    then show "bit (push_bit (8 * n) (push_bit 8 acc OR ucast (ucast (drop_bit (8 * n) w) :: u8))
        OR take_bit (8 * n) w) k = bit (push_bit (8 * Suc n) acc OR take_bit (8 * Suc n) w) k"
      by (cases "8 * n \<le> k"; cases "8 * Suc n \<le> k") (auto simp: bit_simps diff_diff_add add.commute)
  qed
  with Suc show ?case by simp
qed

lemma from_to_be_bytes:
  "8 * n = LENGTH('a) \<Longrightarrow> from_be_bytes (to_be_bytes n w) = (w :: 'a::len word)"
  using foldl_to_be_bytes [of n 0 w]
  by (simp add: from_be_bytes_def take_bit_word_eq_self)

lemma from_be_bytes_u16 [simp]: "from_be_bytes (to_be_bytes 2 w) = (w :: u16)"
  by (rule from_to_be_bytes) simp

lemma from_be_bytes_u32 [simp]: "from_be_bytes (to_be_bytes 4 w) = (w :: u32)"
  by (rule from_to_be_bytes) simp

lemma from_be_bytes_u64 [simp]: "from_be_bytes (to_be_bytes 8 w) = (w :: u64)"
  by (rule from_to_be_bytes) simp

section \<open>Results and panics\<close>

text \<open>Rust's \<^verbatim>\<open>?\<close> operator in a function that may also panic.\<close>

definition try_then :: "('e + 'a) option \<Rightarrow> ('a \<Rightarrow> ('e + 'b) option) \<Rightarrow> ('e + 'b) option" where
  "try_then m k = (case m of None \<Rightarrow> None | Some (Inl e) \<Rightarrow> Some (Inl e) | Some (Inr x) \<Rightarrow> k x)"

lemma try_then_simps [simp]:
  "try_then None k = None"
  "try_then (Some (Inl e)) k = Some (Inl e)"
  "try_then (Some (Inr x)) k = k x"
  by (simp_all add: try_then_def)

lemma try_then_Inr [elim]:
  assumes "try_then m k = Some (Inr y)"
  obtains x where "m = Some (Inr x)" and "k x = Some (Inr y)"
  using assms by (auto simp: try_then_def split: option.splits sum.splits)

lemma try_then_None [elim]:
  assumes "try_then m k = None"
  obtains "m = None" | x where "m = Some (Inr x)" and "k x = None"
  using assms by (auto simp: try_then_def split: option.splits sum.splits)

fun is_ok :: "'e + 'a \<Rightarrow> bool" where
  "is_ok (Inl e) = False"
| "is_ok (Inr x) = True"

fun ok :: "'e + 'a \<Rightarrow> 'a option" where
  "ok (Inl e) = None"
| "ok (Inr x) = Some x"

lemma is_ok_iff: "is_ok r \<longleftrightarrow> (\<exists>x. r = Inr x)"
  by (cases r) auto

section \<open>Strings\<close>

definition as_bytes :: "string \<Rightarrow> bytes" where
  "as_bytes s = map of_char s"

lemma length_as_bytes [simp]: "length (as_bytes s) = length s"
  by (simp add: as_bytes_def)

lemma as_bytes_Nil [simp]: "as_bytes [] = []"
  by (simp add: as_bytes_def)

lemma of_char_u8_inject: "(of_char c :: u8) = of_char d \<longleftrightarrow> c = d"
proof
  assume eq: "(of_char c :: u8) = of_char d"
  have "unat (of_char x :: u8) = of_char x" for x
  proof -
    have "(of_char x :: u8) = of_nat (of_char x)" by (simp add: of_nat_of_char)
    moreover have "(of_char x :: nat) < 256" by (cases x) (simp add: of_char_def)
    ultimately show ?thesis by (simp add: unat_of_nat)
  qed
  with eq have "(of_char c :: nat) = of_char d" by metis
  then show "c = d" by simp
qed simp

lemma as_bytes_inject [simp]: "as_bytes s = as_bytes t \<longleftrightarrow> s = t"
  unfolding as_bytes_def by (rule inj_map_eq_map) (rule injI, simp add: of_char_u8_inject)

text \<open>
  Unicode white space (the \<^verbatim>\<open>White_Space\<close> property, as \<^verbatim>\<open>str::trim\<close> and
  \<^verbatim>\<open>str::split_whitespace\<close> use it) on the UTF-8 bytes: \<open>ws_len\<close> is the number of bytes of
  the white-space character a string starts with, 0 if it starts with none, and
  \<open>ws_len_rev\<close> the same for the character a string ends with, on the reversed string.
\<close>

definition ws1 :: "nat \<Rightarrow> bool" where
  "ws1 a \<longleftrightarrow> (9 \<le> a \<and> a \<le> 13) \<or> a = 32"

definition ws2 :: "nat \<Rightarrow> nat \<Rightarrow> bool" where
  "ws2 a b \<longleftrightarrow> a = 0xC2 \<and> (b = 0x85 \<or> b = 0xA0)"

definition ws3 :: "nat \<Rightarrow> nat \<Rightarrow> nat \<Rightarrow> bool" where
  "ws3 a b c \<longleftrightarrow> (a = 0xE1 \<and> b = 0x9A \<and> c = 0x80)
     \<or> (a = 0xE2 \<and> b = 0x80 \<and> ((0x80 \<le> c \<and> c \<le> 0x8A) \<or> c = 0xA8 \<or> c = 0xA9 \<or> c = 0xAF))
     \<or> (a = 0xE2 \<and> b = 0x81 \<and> c = 0x9F) \<or> (a = 0xE3 \<and> b = 0x80 \<and> c = 0x80)"

definition ws_len :: "string \<Rightarrow> nat" where
  "ws_len s = (case s of [] \<Rightarrow> 0
    | a # s1 \<Rightarrow> if ws1 (of_char a) then 1 else (case s1 of [] \<Rightarrow> 0
    | b # s2 \<Rightarrow> if ws2 (of_char a) (of_char b) then 2 else (case s2 of [] \<Rightarrow> 0
    | c # s3 \<Rightarrow> if ws3 (of_char a) (of_char b) (of_char c) then 3 else 0)))"

definition ws_len_rev :: "string \<Rightarrow> nat" where
  "ws_len_rev s = (case s of [] \<Rightarrow> 0
    | a # s1 \<Rightarrow> if ws1 (of_char a) then 1 else (case s1 of [] \<Rightarrow> 0
    | b # s2 \<Rightarrow> if ws2 (of_char b) (of_char a) then 2 else (case s2 of [] \<Rightarrow> 0
    | c # s3 \<Rightarrow> if ws3 (of_char c) (of_char b) (of_char a) then 3 else 0)))"

lemma ws_len_le: "ws_len s \<le> length s"
  by (simp add: ws_len_def split: list.splits)

lemma ws_len_rev_le: "ws_len_rev s \<le> length s"
  by (simp add: ws_len_rev_def split: list.splits)

lemma ws_len_drop: "0 < ws_len s \<Longrightarrow> length s - ws_len s < length s"
  using ws_len_le [of s] by arith

lemma ws_len_rev_drop: "0 < ws_len_rev s \<Longrightarrow> length s - ws_len_rev s < length s"
  using ws_len_rev_le [of s] by arith

function trim_start :: "string \<Rightarrow> string" where
  "trim_start s = (if ws_len s = 0 then s else trim_start (drop (ws_len s) s))"
  by pat_completeness auto
termination
  by (relation "measure length") (simp_all add: ws_len_drop)

function trim_rev :: "string \<Rightarrow> string" where
  "trim_rev s = (if ws_len_rev s = 0 then s else trim_rev (drop (ws_len_rev s) s))"
  by pat_completeness auto
termination
  by (relation "measure length") (simp_all add: ws_len_rev_drop)

declare trim_start.simps [simp del] trim_rev.simps [simp del]

definition trim :: "string \<Rightarrow> string" where
  "trim s = rev (trim_rev (rev (trim_start s)))"

text \<open>\<^verbatim>\<open>str::split_whitespace\<close>: maximal runs of non-white-space, in order.\<close>

function split_ws :: "string \<Rightarrow> string \<Rightarrow> string list" where
  "split_ws acc s = (if s = [] then (if acc = [] then [] else [acc])
     else if ws_len s = 0 then split_ws (acc @ [hd s]) (tl s)
     else (if acc = [] then [] else [acc]) @ split_ws [] (drop (ws_len s) s))"
  by pat_completeness auto
termination
  by (relation "measure (\<lambda>(acc, s). length s)") (auto simp: ws_len_le)

declare split_ws.simps [simp del]

definition split_whitespace :: "string \<Rightarrow> string list" where
  "split_whitespace s = split_ws [] s"

lemma length_trim_start: "length (trim_start s) \<le> length s"
  by (induction s rule: trim_start.induct) (subst trim_start.simps, auto)

lemma length_trim_rev: "length (trim_rev s) \<le> length s"
  by (induction s rule: trim_rev.induct) (subst trim_rev.simps, auto)

lemma length_trim: "length (trim s) \<le> length s"
  using length_trim_start [of s] length_trim_rev [of "rev (trim_start s)"] by (simp add: trim_def)

lemma length_split_ws: "t \<in> set (split_ws acc s) \<Longrightarrow> length t \<le> length acc + length s"
proof (induction acc s rule: split_ws.induct)
  case (1 acc s)
  show ?case
    using 1(3) 1(1,2) by (subst (asm) split_ws.simps) (cases s; fastforce split: if_splits)
qed

lemma length_split_whitespace: "t \<in> set (split_whitespace s) \<Longrightarrow> length t \<le> length s"
  using length_split_ws [of t "[]" s] by (simp add: split_whitespace_def)

text \<open>\<^verbatim>\<open>str::lines\<close>: split at line feeds, a trailing carriage return of each line dropped, no
  empty last line.\<close>

definition strip_cr :: "string \<Rightarrow> string" where
  "strip_cr l = (if l \<noteq> [] \<and> last l = CHR 0x0D then butlast l else l)"

fun lines_acc :: "string \<Rightarrow> string \<Rightarrow> string list" where
  "lines_acc acc [] = (if acc = [] then [] else [acc])"
| "lines_acc acc (c # s) =
     (if c = CHR 0x0A then strip_cr acc # lines_acc [] s else lines_acc (acc @ [c]) s)"

definition str_lines :: "string \<Rightarrow> string list" where
  "str_lines s = lines_acc [] s"

text \<open>Decimal rendering of an unsigned integer (\<^verbatim>\<open>{}\<close> in a format string).\<close>

definition digit_char :: "nat \<Rightarrow> char" where
  "digit_char d = char_of (48 + d)"

fun show_nat :: "nat \<Rightarrow> string" where
  "show_nat n = (if n < 10 then [digit_char n] else show_nat (n div 10) @ [digit_char (n mod 10)])"

declare show_nat.simps [simp del]

section \<open>Ordered maps\<close>

text \<open>
  A \<^verbatim>\<open>BTreeMap<String, String>\<close> is the list of its entries in increasing key order (the
  byte-wise order of \<^verbatim>\<open>str\<close>), which is the order its iterators yield.
\<close>

type_synonym btree = "(string \<times> string) list"

definition btree_ok :: "btree \<Rightarrow> bool" where
  "btree_ok m \<longleftrightarrow> sorted_wrt (<) (map fst m)"

fun btree_insert :: "string \<Rightarrow> string \<Rightarrow> btree \<Rightarrow> btree" where
  "btree_insert k v [] = [(k, v)]"
| "btree_insert k v ((k', v') # m) =
     (if k < k' then (k, v) # (k', v') # m
      else if k = k' then (k, v) # m else (k', v') # btree_insert k v m)"

definition btree_keys :: "btree \<Rightarrow> string list" where
  "btree_keys m = map fst m"

definition btree_contains_key :: "btree \<Rightarrow> string \<Rightarrow> bool" where
  "btree_contains_key m k \<longleftrightarrow> k \<in> set (btree_keys m)"

lemma btree_insert_keys: "fst ` set (btree_insert k v m) = insert k (fst ` set m)"
  by (induction k v m rule: btree_insert.induct) auto

lemma btree_ok_insert [simp]: "btree_ok m \<Longrightarrow> btree_ok (btree_insert k v m)"
proof (induction k v m rule: btree_insert.induct)
  case (2 k v k' v' m)
  then show ?case
    using btree_insert_keys [of k v m] by (auto simp: btree_ok_def)
qed (simp add: btree_ok_def)

lemma map_of_btree_insert:
  "btree_ok m \<Longrightarrow> map_of (btree_insert k v m) = (map_of m)(k \<mapsto> v)"
proof (induction k v m rule: btree_insert.induct)
  case (2 k v k' v' m)
  then show ?case by (auto simp: btree_ok_def fun_eq_iff)
qed (simp add: fun_eq_iff)

end
