(* ===== verification/Hal.thy ===== *)
theory Hal
  imports Prelude
begin

text \<open>
  The hardware abstraction layer (\<^verbatim>\<open>hsm-core/src/hal.rs\<close>). A trait is a record of its methods
  over an abstract implementation state; a \<^verbatim>\<open>&mut self\<close> method returns the new state with its
  result. The locales state what the callers rely on: \<open>flash_store\<close> is the contract of a
  sector-erasable NOR flash in which any single operation may fail, \<open>reliable_flash\<close> adds that
  a healthy device does not fail. Both are interpreted on the flash of \<^verbatim>\<open>testhal.rs\<close> in theory
  TestHal.
\<close>

datatype hal_error = Flash | Entropy | OutOfRange | Secret

fun hal_error_display :: "hal_error \<Rightarrow> string" where
  "hal_error_display Flash = ''flash operation failed''"
| "hal_error_display Entropy = ''entropy source unavailable''"
| "hal_error_display OutOfRange = ''flash region/offset out of range''"
| "hal_error_display Secret = ''device secret unavailable''"

datatype region = TimeA | TimeB | ConfigA | ConfigB | KeyA | KeyB | PinCounter

definition SECTOR_LEN :: nat where
  "SECTOR_LEN = 4096"

definition PAGE_LEN :: nat where
  "PAGE_LEN = 256"

text \<open>\<^verbatim>\<open>EntropySource::fill_raw\<close> fills a buffer of the given length.\<close>

record 'e entropy_ops =
  fill_raw :: "'e \<Rightarrow> nat \<Rightarrow> (hal_error + bytes) \<times> 'e"

text \<open>\<^verbatim>\<open>Monotonic\<close>: \<^verbatim>\<open>now_micros(&self)\<close> is a function of the clock's state, \<^verbatim>\<open>delay_ms\<close> moves it (or
  panics).\<close>

record 'm mono_ops =
  now_micros :: "'m \<Rightarrow> u64"
  delay_ms :: "'m \<Rightarrow> u32 \<Rightarrow> 'm option"

text \<open>\<^verbatim>\<open>FlashStore\<close>: \<^verbatim>\<open>read\<close> overwrites the buffer it is given.\<close>

record 'f flash_ops =
  fs_read :: "'f \<Rightarrow> region \<Rightarrow> bytes \<Rightarrow> (hal_error + bytes) \<times> 'f"
  fs_erase :: "'f \<Rightarrow> region \<Rightarrow> (hal_error + unit) \<times> 'f"
  fs_program :: "'f \<Rightarrow> region \<Rightarrow> nat \<Rightarrow> bytes \<Rightarrow> (hal_error + unit) \<times> 'f"
  fs_unique_id :: "'f \<Rightarrow> bytes"
  fs_device_secret :: "'f \<Rightarrow> hal_error + bytes"

section \<open>Sector contents\<close>

definition erased_sector :: bytes where
  "erased_sector = replicate SECTOR_LEN 0xFF"

text \<open>Programming a NOR page clears bits: the old bytes are combined with the new by AND.\<close>

definition program_bytes :: "bytes \<Rightarrow> nat \<Rightarrow> bytes \<Rightarrow> bytes" where
  "program_bytes sector offset page =
     take offset sector @ map2 (AND) (take (length page) (drop offset sector)) page
       @ drop (offset + length page) sector"

lemma length_erased_sector [simp]: "length erased_sector = SECTOR_LEN"
  by (simp add: erased_sector_def)

lemma length_program_bytes [simp]:
  "offset + length page \<le> length sector \<Longrightarrow> length (program_bytes sector offset page) = length sector"
  by (simp add: program_bytes_def)

lemma program_bytes_nth:
  assumes "offset + length page \<le> length sector" and "i < length sector"
  shows "program_bytes sector offset page ! i =
    (if offset \<le> i \<and> i < offset + length page then sector ! i AND page ! (i - offset) else sector ! i)"
  using assms by (auto simp: program_bytes_def nth_append min_def)

lemma and_0xFF_u8 [simp]: "(x :: u8) AND 0xFF = x" "0xFF AND (x :: u8) = x"
proof -
  have "(0xFF :: u8) = - 1" by simp
  then show "x AND 0xFF = x" "0xFF AND x = x" by (metis and.right_neutral and.left_neutral)+
qed

section \<open>The contract of a monotonic clock\<close>

text \<open>A clock never runs backwards: a delay moves the reading forward by at least the delay.\<close>

locale monotonic_clock =
  fixes mo :: "'m mono_ops"
  assumes delay_advances: "delay_ms mo m ms = Some m' \<Longrightarrow>
      unat (now_micros mo m) + unat ms * 1000 \<le> unat (now_micros mo m')"
begin

lemma delay_mono: "delay_ms mo m ms = Some m' \<Longrightarrow> now_micros mo m \<le> now_micros mo m'"
  using delay_advances [of m ms m'] by (simp add: word_le_nat_alt)

end

section \<open>The contract of a flash store\<close>

text \<open>
  \<open>content\<close> is what the sectors hold. A failed operation may leave anything in the sector it
  addressed, but touches no other sector and not the device's identity.
\<close>

locale flash_store =
  fixes fo :: "'f flash_ops"
    and content :: "'f \<Rightarrow> region \<Rightarrow> bytes"
  assumes content_length: "length (content f r) = SECTOR_LEN"
    and read_frame: "fs_read fo f r buf = (res, f') \<Longrightarrow> content f' = content f"
    and read_ok: "fs_read fo f r buf = (Inr b, f') \<Longrightarrow> length buf = SECTOR_LEN \<Longrightarrow> b = content f r"
    and erase_ok: "fs_erase fo f r = (Inr u, f') \<Longrightarrow> content f' = (content f)(r := erased_sector)"
    and erase_frame: "fs_erase fo f r = (res', f') \<Longrightarrow> r' \<noteq> r \<Longrightarrow> content f' r' = content f r'"
    and program_range: "fs_program fo f r off page = (Inr u, f') \<Longrightarrow> off + length page \<le> SECTOR_LEN"
    and program_ok: "fs_program fo f r off page = (Inr u, f') \<Longrightarrow>
          content f' = (content f)(r := program_bytes (content f r) off page)"
    and program_frame: "fs_program fo f r off page = (res', f') \<Longrightarrow> r' \<noteq> r \<Longrightarrow>
          content f' r' = content f r'"
    and secret_read: "fs_read fo f r buf = (res, f') \<Longrightarrow> fs_device_secret fo f' = fs_device_secret fo f"
    and secret_erase: "fs_erase fo f r = (res', f') \<Longrightarrow> fs_device_secret fo f' = fs_device_secret fo f"
    and secret_program: "fs_program fo f r off page = (res', f') \<Longrightarrow>
          fs_device_secret fo f' = fs_device_secret fo f"

locale reliable_flash = flash_store +
  fixes healthy :: "'a \<Rightarrow> bool"
  assumes read_healthy: "healthy f \<Longrightarrow> length buf = SECTOR_LEN \<Longrightarrow>
          \<exists>b f'. fs_read fo f r buf = (Inr b, f') \<and> healthy f'"
    and erase_healthy: "healthy f \<Longrightarrow> \<exists>f'. fs_erase fo f r = (Inr (), f') \<and> healthy f'"
    and program_healthy: "healthy f \<Longrightarrow> off + length page \<le> SECTOR_LEN \<Longrightarrow>
          \<exists>f'. fs_program fo f r off page = (Inr (), f') \<and> healthy f'"

end
