(* ===== verification/TestHal.thy ===== *)
theory TestHal
  imports Hal
begin

text \<open>
  The in-memory HAL of \<^verbatim>\<open>hsm-core/src/testhal.rs\<close>: a RAM-backed flash with fault injection, a
  xorshift entropy source and a settable clock. The flash is the implementation on which the
  flash contracts are interpreted.
\<close>

text \<open>\<^verbatim>\<open>[u8; SECTOR_LEN]\<close>: arrays of a fixed length are a type of their own.\<close>

typedef sector = "{xs :: bytes. length xs = SECTOR_LEN}"
  by (rule exI [of _ erased_sector]) simp

definition sector_bytes :: "sector \<Rightarrow> bytes" where
  "sector_bytes s = Rep_sector s"

definition sector_of :: "bytes \<Rightarrow> sector" where
  "sector_of xs = Abs_sector (if length xs = SECTOR_LEN then xs else erased_sector)"

lemma length_sector_bytes [simp]: "length (sector_bytes s) = SECTOR_LEN"
  using Rep_sector [of s] by (simp add: sector_bytes_def)

lemma sector_bytes_of [simp]: "length xs = SECTOR_LEN \<Longrightarrow> sector_bytes (sector_of xs) = xs"
  by (simp add: sector_bytes_def sector_of_def Abs_sector_inverse)

lemma sector_of_bytes [simp, code abstype]: "sector_of (sector_bytes s) = s"
  by (simp add: sector_of_def sector_bytes_def Rep_sector_inverse Rep_sector [simplified])

text \<open>\<^verbatim>\<open>fill(0xFF)\<close>, the AND loop of \<^verbatim>\<open>program\<close>, \<^verbatim>\<open>copy_from_slice\<close> and a single-byte store.\<close>

definition sector_fill_ff :: sector where
  "sector_fill_ff = sector_of erased_sector"

definition sector_and :: "sector \<Rightarrow> nat \<Rightarrow> bytes \<Rightarrow> sector" where
  "sector_and s off page = sector_of (program_bytes (sector_bytes s) off page)"

definition sector_set :: "sector \<Rightarrow> nat \<Rightarrow> u8 \<Rightarrow> sector" where
  "sector_set s i b = sector_of ((sector_bytes s)[i := b])"

lemma sector_bytes_fill [simp, code abstract]: "sector_bytes sector_fill_ff = erased_sector"
  by (simp add: sector_fill_ff_def)

lemma sector_bytes_and [simp]:
  "off + length page \<le> SECTOR_LEN \<Longrightarrow>
     sector_bytes (sector_and s off page) = program_bytes (sector_bytes s) off page"
  by (simp add: sector_and_def)

lemma sector_bytes_set [simp, code abstract]:
  "sector_bytes (sector_set s i b) = (sector_bytes s)[i := b]"
  by (simp add: sector_set_def)

record mock_flash =
  time_a :: sector
  time_b :: sector
  config_a :: sector
  config_b :: sector
  key_a :: sector
  key_b :: sector
  pin_counter :: sector
  unique_id :: bytes
  device_secret :: "hal_error + bytes"
  erase_fault :: bool
  read_fault :: "region option"

definition MOCK_DEVICE_SECRET :: bytes where
  "MOCK_DEVICE_SECRET = as_bytes ''usbhsm-mock-otp-secret-32bytes!!''"

definition mock_flash_new :: mock_flash where
  "mock_flash_new = \<lparr> time_a = sector_fill_ff, time_b = sector_fill_ff, config_a = sector_fill_ff,
     config_b = sector_fill_ff, key_a = sector_fill_ff, key_b = sector_fill_ff,
     pin_counter = sector_fill_ff, unique_id = replicate 8 0x42,
     device_secret = Inr MOCK_DEVICE_SECRET, erase_fault = False, read_fault = None \<rparr>"

definition set_erase_fault :: "mock_flash \<Rightarrow> bool \<Rightarrow> mock_flash" where
  "set_erase_fault f on = f\<lparr>erase_fault := on\<rparr>"

definition set_read_fault :: "mock_flash \<Rightarrow> region option \<Rightarrow> mock_flash" where
  "set_read_fault f r = f\<lparr>read_fault := r\<rparr>"

definition with_unique_id :: "bytes \<Rightarrow> mock_flash" where
  "with_unique_id i = mock_flash_new\<lparr>unique_id := i\<rparr>"

definition with_device_secret :: "bytes \<Rightarrow> mock_flash" where
  "with_device_secret s = mock_flash_new\<lparr>device_secret := Inr s\<rparr>"

definition without_device_secret :: mock_flash where
  "without_device_secret = mock_flash_new\<lparr>device_secret := Inl Secret\<rparr>"

fun mock_region :: "mock_flash \<Rightarrow> region \<Rightarrow> sector" where
  "mock_region f TimeA = time_a f"
| "mock_region f TimeB = time_b f"
| "mock_region f ConfigA = config_a f"
| "mock_region f ConfigB = config_b f"
| "mock_region f KeyA = key_a f"
| "mock_region f KeyB = key_b f"
| "mock_region f PinCounter = pin_counter f"

text \<open>Writing through \<^verbatim>\<open>region_mut\<close>.\<close>

fun mock_region_mut :: "mock_flash \<Rightarrow> region \<Rightarrow> (sector \<Rightarrow> sector) \<Rightarrow> mock_flash" where
  "mock_region_mut f TimeA g = f\<lparr>time_a := g (time_a f)\<rparr>"
| "mock_region_mut f TimeB g = f\<lparr>time_b := g (time_b f)\<rparr>"
| "mock_region_mut f ConfigA g = f\<lparr>config_a := g (config_a f)\<rparr>"
| "mock_region_mut f ConfigB g = f\<lparr>config_b := g (config_b f)\<rparr>"
| "mock_region_mut f KeyA g = f\<lparr>key_a := g (key_a f)\<rparr>"
| "mock_region_mut f KeyB g = f\<lparr>key_b := g (key_b f)\<rparr>"
| "mock_region_mut f PinCounter g = f\<lparr>pin_counter := g (pin_counter f)\<rparr>"

definition mock_corrupt :: "mock_flash \<Rightarrow> region \<Rightarrow> nat \<Rightarrow> u8 \<Rightarrow> mock_flash" where
  "mock_corrupt f r off v = mock_region_mut f r (\<lambda>s. sector_set s off v)"

section \<open>The \<^verbatim>\<open>FlashStore\<close> implementation\<close>

definition mock_read :: "mock_flash \<Rightarrow> region \<Rightarrow> bytes \<Rightarrow> (hal_error + bytes) \<times> mock_flash" where
  "mock_read f r buf =
     (if read_fault f = Some r then (Inl Flash, f)
      else if length buf < SECTOR_LEN then (Inl OutOfRange, f)
      else (Inr (sector_bytes (mock_region f r) @ drop SECTOR_LEN buf), f))"

definition mock_erase :: "mock_flash \<Rightarrow> region \<Rightarrow> (hal_error + unit) \<times> mock_flash" where
  "mock_erase f r =
     (if erase_fault f then (Inl Flash, f) else (Inr (), mock_region_mut f r (\<lambda>_. sector_fill_ff)))"

definition mock_program :: "mock_flash \<Rightarrow> region \<Rightarrow> nat \<Rightarrow> bytes \<Rightarrow> (hal_error + unit) \<times> mock_flash" where
  "mock_program f r off page =
     (if off + length page > SECTOR_LEN then (Inl OutOfRange, f)
      else (Inr (), mock_region_mut f r (\<lambda>s. sector_and s off page)))"

definition mock_ops :: "mock_flash flash_ops" where
  "mock_ops = \<lparr> fs_read = mock_read, fs_erase = mock_erase, fs_program = mock_program,
     fs_unique_id = unique_id, fs_device_secret = device_secret \<rparr>"

definition mock_content :: "mock_flash \<Rightarrow> region \<Rightarrow> bytes" where
  "mock_content f r = sector_bytes (mock_region f r)"

definition mock_healthy :: "mock_flash \<Rightarrow> bool" where
  "mock_healthy f \<longleftrightarrow> \<not> erase_fault f \<and> read_fault f = None"

lemma mock_ops_simps [simp]:
  "fs_read mock_ops = mock_read" "fs_erase mock_ops = mock_erase"
  "fs_program mock_ops = mock_program" "fs_unique_id mock_ops = unique_id"
  "fs_device_secret mock_ops = device_secret"
  by (simp_all add: mock_ops_def)

lemma mock_region_mut [simp]:
  "mock_region (mock_region_mut f r g) r' = (if r' = r then g (mock_region f r) else mock_region f r')"
  by (cases r; cases r') simp_all

lemma mock_region_mut_frame [simp]:
  "device_secret (mock_region_mut f r g) = device_secret f"
  "unique_id (mock_region_mut f r g) = unique_id f"
  "erase_fault (mock_region_mut f r g) = erase_fault f"
  "read_fault (mock_region_mut f r g) = read_fault f"
  by (cases r; simp)+

interpretation mock: reliable_flash mock_ops mock_content mock_healthy
  by unfold_locales
    (auto simp: mock_read_def mock_erase_def mock_program_def mock_content_def mock_healthy_def
      fun_eq_iff split: if_splits)

definition mock_peek :: "mock_flash \<Rightarrow> region \<Rightarrow> nat \<Rightarrow> u8 option" where
  "mock_peek f r off =
     (if off < SECTOR_LEN then Some (sector_bytes (mock_region f r) ! off) else None)"

section \<open>Flash images\<close>

definition all_regions :: "region list" where
  "all_regions = [TimeA, TimeB, ConfigA, ConfigB, KeyA, KeyB, PinCounter]"

definition legacy_regions :: "region list" where
  "legacy_regions = [ConfigA, ConfigB, KeyA, KeyB, PinCounter]"

definition mock_snapshot :: "mock_flash \<Rightarrow> bytes" where
  "mock_snapshot f = concat (map (\<lambda>r. sector_bytes (mock_region f r)) all_regions) @ unique_id f"

text \<open>The loop over \<^verbatim>\<open>regions.iter().enumerate()\<close>, from region number \<open>i\<close>.\<close>

fun restore_regions :: "bytes \<Rightarrow> nat \<Rightarrow> region list \<Rightarrow> mock_flash \<Rightarrow> mock_flash" where
  "restore_regions data i [] f = f"
| "restore_regions data i (r # rs) f =
     (let off = i * SECTOR_LEN in
      restore_regions data (Suc i) rs
        (mock_region_mut f r (\<lambda>_. sector_of (take SECTOR_LEN (drop off data)))))"

definition mock_restore :: "mock_flash \<Rightarrow> bytes \<Rightarrow> bool \<times> mock_flash" where
  "mock_restore f data =
     (let legacy_len = 5 * SECTOR_LEN + 8; current_len = 7 * SECTOR_LEN + 8 in
      if length data \<noteq> legacy_len \<and> length data \<noteq> current_len then (False, f)
      else
        let f1 = f\<lparr>time_a := sector_fill_ff, time_b := sector_fill_ff\<rparr>;
            regions = (if length data = current_len then all_regions else legacy_regions);
            f2 = restore_regions data 0 regions f1
        in (True, f2\<lparr>unique_id := drop (length data - 8) data\<rparr>))"

section \<open>Entropy and time\<close>

record mock_entropy =
  xs_state :: u64

definition mock_entropy_new :: "u64 \<Rightarrow> mock_entropy" where
  "mock_entropy_new seed = \<lparr> xs_state = seed OR 1 \<rparr>"

definition next_byte :: "mock_entropy \<Rightarrow> u8 \<times> mock_entropy" where
  "next_byte e =
     (let x0 = xs_state e;
          x1 = x0 XOR drop_bit 12 x0;
          x2 = x1 XOR push_bit 25 x1;
          x3 = x2 XOR drop_bit 27 x2
      in (ucast (drop_bit 56 (x3 * 0x2545F4914F6CDD1D)), e\<lparr>xs_state := x3\<rparr>))"

primrec mock_fill :: "mock_entropy \<Rightarrow> nat \<Rightarrow> bytes \<times> mock_entropy" where
  "mock_fill e 0 = ([], e)"
| "mock_fill e (Suc n) =
     (let (b, e1) = next_byte e; (bs, e2) = mock_fill e1 n in (b # bs, e2))"

definition mock_entropy_ops :: "mock_entropy entropy_ops" where
  "mock_entropy_ops = \<lparr> fill_raw = (\<lambda>e n. let (bs, e1) = mock_fill e n in (Inr bs, e1)) \<rparr>"

record mock_clock =
  mc_micros :: u64

definition mock_clock_new :: mock_clock where
  "mock_clock_new = \<lparr> mc_micros = 0 \<rparr>"

text \<open>Plain \<^verbatim>\<open>+=\<close> and \<^verbatim>\<open>*\<close> on \<^verbatim>\<open>u64\<close>: a panic on overflow.\<close>

definition advance_micros :: "mock_clock \<Rightarrow> nat \<Rightarrow> mock_clock option" where
  "advance_micros c us =
     (if us < 2 ^ 64 \<and> unat (mc_micros c) + us < 2 ^ 64 then Some (c\<lparr>mc_micros := mc_micros c + of_nat us\<rparr>)
      else None)"

definition advance_secs :: "mock_clock \<Rightarrow> u64 \<Rightarrow> mock_clock option" where
  "advance_secs c secs = advance_micros c (unat secs * 1000000)"

definition mock_clock_ops :: "mock_clock mono_ops" where
  "mock_clock_ops = \<lparr> now_micros = mc_micros, delay_ms = (\<lambda>c ms. advance_micros c (unat ms * 1000)) \<rparr>"

lemma mock_clock_ops_simps [simp]: "now_micros mock_clock_ops = mc_micros"
  by (simp add: mock_clock_ops_def)

interpretation mock_clock: monotonic_clock mock_clock_ops
proof
  fix m m' and ms :: u32
  define us where "us = unat ms * 1000"
  assume "delay_ms mock_clock_ops m ms = Some m'"
  then have m': "mc_micros m' = mc_micros m + of_nat us" and r: "unat (mc_micros m) + us < 2 ^ 64"
    by (auto simp: mock_clock_ops_def advance_micros_def us_def split: if_splits)
  have "unat (of_nat us :: u64) = us"
    using r by (simp add: unat_of_nat take_bit_nat_eq_self)
  then have "unat (mc_micros m') = unat (mc_micros m) + us"
    using r unfolding m' by (subst unat_add_lem [THEN iffD1]) simp_all
  then show "unat (now_micros mock_clock_ops m) + unat ms * 1000 \<le> unat (now_micros mock_clock_ops m')"
    by (simp add: us_def)
qed

section \<open>Image round trip\<close>

lemma mock_flash_eqI:
  assumes "\<And>r. mock_region f r = mock_region g r"
    and "unique_id f = unique_id g" and "device_secret f = device_secret g"
    and "erase_fault f = erase_fault g" and "read_fault f = read_fault g"
  shows "f = (g :: mock_flash)"
  using assms(1) [of TimeA] assms(1) [of TimeB] assms(1) [of ConfigA] assms(1) [of ConfigB]
    assms(1) [of KeyA] assms(1) [of KeyB] assms(1) [of PinCounter] assms(2-) by simp

lemma restore_regions_frame [simp]:
  "device_secret (restore_regions data i rs f) = device_secret f"
  "erase_fault (restore_regions data i rs f) = erase_fault f"
  "read_fault (restore_regions data i rs f) = read_fault f"
  by (induction rs arbitrary: i f) (simp_all add: Let_def)

lemma restore_regions_region:
  "distinct rs \<Longrightarrow> mock_region (restore_regions data i rs f) r =
     (if r \<in> set rs
      then sector_of (take SECTOR_LEN (drop ((i + length (takeWhile (\<lambda>x. x \<noteq> r) rs)) * SECTOR_LEN) data))
      else mock_region f r)"
  by (induction rs arbitrary: i f) (auto simp: Let_def)

lemma sector_nth_concat:
  "k < length rs \<Longrightarrow> take SECTOR_LEN (drop (k * SECTOR_LEN)
     (concat (map (\<lambda>r. sector_bytes (g r)) rs) @ rest)) = sector_bytes (g (rs ! k))"
proof (induction rs arbitrary: k)
  case (Cons r rs)
  then show ?case by (cases k) simp_all
qed simp

lemma takeWhile_index:
  "r \<in> set rs \<Longrightarrow> length (takeWhile (\<lambda>x. x \<noteq> r) rs) < length rs
     \<and> rs ! length (takeWhile (\<lambda>x. x \<noteq> r) rs) = r"
  by (induction rs) auto

text \<open>A flash image survives a snapshot and a restore: whatever the target held before, it ends up
  with the sectors and the serial of the source, and keeps its own OTP secret and fault settings;
  data of any other length than a current or legacy image is refused without touching the flash.\<close>

lemma snapshot_restore:
  assumes "length (unique_id f) = 8"
  shows "mock_restore g (mock_snapshot f) =
      (True, f\<lparr>device_secret := device_secret g, erase_fault := erase_fault g, read_fault := read_fault g\<rparr>)
    \<and> (length data \<notin> {5 * SECTOR_LEN + 8, 7 * SECTOR_LEN + 8} \<longrightarrow> mock_restore g data = (False, g))"
proof -
  let ?d = "mock_snapshot f"
  have len: "length ?d = 7 * SECTOR_LEN + 8"
    using assms by (simp add: mock_snapshot_def all_regions_def)
  have reg: "mock_region (restore_regions ?d 0 all_regions h) r = mock_region f r" for r h
  proof -
    have "distinct all_regions" by (simp add: all_regions_def)
    moreover have r: "r \<in> set all_regions" by (cases r) (simp_all add: all_regions_def)
    ultimately show ?thesis
      using takeWhile_index [OF r] sector_nth_concat [of "length (takeWhile (\<lambda>x. x \<noteq> r) all_regions)"
          all_regions "mock_region f" "unique_id f", folded mock_snapshot_def]
      by (simp add: restore_regions_region)
  qed
  have uid: "drop (length ?d - 8) ?d = unique_id f"
    using assms by (simp add: mock_snapshot_def all_regions_def)
  have region_upd: "mock_region (h\<lparr>unique_id := u\<rparr>) r = mock_region h r"
    "mock_region (h\<lparr>device_secret := s, erase_fault := e, read_fault := rf\<rparr>) r = mock_region h r" for h u s e rf r
    by (cases r; simp)+
  have "snd (mock_restore g ?d) =
      f\<lparr>device_secret := device_secret g, erase_fault := erase_fault g, read_fault := read_fault g\<rparr>"
    by (rule mock_flash_eqI) (simp_all add: mock_restore_def Let_def len [simplified] uid [simplified len, simplified] reg region_upd)
  moreover have "fst (mock_restore g ?d)" by (simp add: mock_restore_def Let_def len)
  ultimately show ?thesis by (auto simp: prod_eq_iff mock_restore_def Let_def)
qed

end
