(* ===== verification/Storage.thy ===== *)
theory Storage
  imports Hal TestHal
begin

text \<open>
  Power-fail-safe storage (\<^verbatim>\<open>hsm-core/src/storage.rs\<close>): the record format, A/B sector pairs and
  the persisted payloads. The CRC-32 of the \<^verbatim>\<open>crc\<close> crate is the parameter \<open>crc\<close>; nothing below
  needs more of it than that it is a function. \<open>ab_latest\<close> is the abstract value of a pair (what
  its two sectors hold), and inside locale \<open>flash_store\<close> the operations are shown to refine
  reading and replacing that value, whatever flash operation fails.
\<close>

section \<open>Records\<close>

definition MAGIC :: bytes where
  "MAGIC = as_bytes ''UHSM''"

definition VERSION :: u16 where
  "VERSION = 2"

definition HEADER :: nat where
  "HEADER = 12"

record ab_pair =
  ab_a :: region
  ab_b :: region

datatype record_state = Erased | Valid u32 bytes | Invalid

definition parse_record :: "(bytes \<Rightarrow> u32) \<Rightarrow> bytes \<Rightarrow> (u32 \<times> bytes) option" where
  "parse_record crc sector =
     (if length sector < HEADER + 4 then None
      else if take 4 sector \<noteq> MAGIC then None
      else if (from_be_bytes [sector ! 4, sector ! 5] :: u16) \<noteq> VERSION then None
      else
        let seq = from_be_bytes [sector ! 6, sector ! 7, sector ! 8, sector ! 9] :: u32;
            len = unat (from_be_bytes [sector ! 10, sector ! 11] :: u16);
            e = HEADER + len
        in if e + 4 > length sector then None
           else
             let stored = from_be_bytes [sector ! e, sector ! (e + 1), sector ! (e + 2), sector ! (e + 3)]
             in if crc (take e sector) \<noteq> stored then None
                else Some (seq, take len (drop HEADER sector)))"

definition read_record ::
    "'f flash_ops \<Rightarrow> (bytes \<Rightarrow> u32) \<Rightarrow> 'f \<Rightarrow> region \<Rightarrow> (hal_error + (u32 \<times> bytes) option) \<times> 'f" where
  "read_record fo crc f region =
     (case fs_read fo f region (replicate SECTOR_LEN 0) of
        (Inl e, f1) \<Rightarrow> (Inl e, f1)
      | (Inr buf, f1) \<Rightarrow> (Inr (parse_record crc buf), f1))"

definition read_record_state ::
    "'f flash_ops \<Rightarrow> (bytes \<Rightarrow> u32) \<Rightarrow> 'f \<Rightarrow> region \<Rightarrow> (hal_error + record_state) \<times> 'f" where
  "read_record_state fo crc f region =
     (case fs_read fo f region (replicate SECTOR_LEN 0) of
        (Inl e, f1) \<Rightarrow> (Inl e, f1)
      | (Inr buf, f1) \<Rightarrow>
          (if list_all (\<lambda>byte. byte = 0xFF) buf then (Inr Erased, f1)
           else case parse_record crc buf of
               Some (seq, payload) \<Rightarrow> (Inr (Valid seq payload), f1)
             | None \<Rightarrow> (Inr Invalid, f1)))"

text \<open>\<^verbatim>\<open>sector[off..off + n].copy_from_slice(bs)\<close>\<close>

definition copy_slice :: "bytes \<Rightarrow> nat \<Rightarrow> bytes \<Rightarrow> bytes" where
  "copy_slice sector off bs = take off sector @ bs @ drop (off + length bs) sector"

definition record_sector :: "(bytes \<Rightarrow> u32) \<Rightarrow> u32 \<Rightarrow> bytes \<Rightarrow> bytes" where
  "record_sector crc seq payload =
     (let s0 = replicate SECTOR_LEN 0xFF;
          s1 = copy_slice s0 0 MAGIC;
          s2 = copy_slice s1 4 (to_be_bytes 2 VERSION);
          s3 = copy_slice s2 6 (to_be_bytes 4 seq);
          s4 = copy_slice s3 10 (to_be_bytes 2 (of_nat (length payload) :: u16));
          s5 = copy_slice s4 HEADER payload;
          e = HEADER + length payload
      in copy_slice s5 e (to_be_bytes 4 (crc (take e s5))))"

text \<open>The \<^verbatim>\<open>for p in 0..pages\<close> loop, from page \<open>p\<close> with \<open>n\<close> pages to go.\<close>

primrec program_pages ::
    "'f flash_ops \<Rightarrow> region \<Rightarrow> bytes \<Rightarrow> nat \<Rightarrow> nat \<Rightarrow> 'f \<Rightarrow> (hal_error + unit) \<times> 'f" where
  "program_pages fo region sector p 0 f = (Inr (), f)"
| "program_pages fo region sector p (Suc n) f =
     (let off = p * PAGE_LEN in
      case fs_program fo f region off (take PAGE_LEN (drop off sector)) of
        (Inl e, f1) \<Rightarrow> (Inl e, f1)
      | (Inr _, f1) \<Rightarrow> program_pages fo region sector (Suc p) n f1)"

definition div_ceil :: "nat \<Rightarrow> nat \<Rightarrow> nat" where
  "div_ceil a b = (a + b - 1) div b"

definition write_record ::
    "'f flash_ops \<Rightarrow> (bytes \<Rightarrow> u32) \<Rightarrow> 'f \<Rightarrow> region \<Rightarrow> u32 \<Rightarrow> bytes \<Rightarrow> (hal_error + unit) \<times> 'f" where
  "write_record fo crc f region seq payload =
     (let total = HEADER + length payload + 4 in
      if total > SECTOR_LEN then (Inl OutOfRange, f)
      else
        let sector = record_sector crc seq payload in
        case fs_erase fo f region of
          (Inl e, f1) \<Rightarrow> (Inl e, f1)
        | (Inr _, f1) \<Rightarrow> program_pages fo region sector 0 (div_ceil total PAGE_LEN) f1)"

section \<open>A/B pairs\<close>

definition read_latest ::
    "'f flash_ops \<Rightarrow> (bytes \<Rightarrow> u32) \<Rightarrow> ab_pair \<Rightarrow> 'f \<Rightarrow> (hal_error + bytes option) \<times> 'f" where
  "read_latest fo crc ab f =
     (case read_record fo crc f (ab_a ab) of
        (Inl e, f1) \<Rightarrow> (Inl e, f1)
      | (Inr ra, f1) \<Rightarrow>
          (case read_record fo crc f1 (ab_b ab) of
             (Inl e, f2) \<Rightarrow> (Inl e, f2)
           | (Inr rb, f2) \<Rightarrow>
               (Inr (case (ra, rb) of
                  (None, None) \<Rightarrow> None
                | (Some (_, p), None) \<Rightarrow> Some p
                | (None, Some (_, p)) \<Rightarrow> Some p
                | (Some (sa, pa), Some (sb, pb)) \<Rightarrow> if sa \<ge> sb then Some pa else Some pb), f2)))"

definition read_latest_fail_closed ::
    "'f flash_ops \<Rightarrow> (bytes \<Rightarrow> u32) \<Rightarrow> ab_pair \<Rightarrow> 'f \<Rightarrow> (hal_error + bytes option) \<times> 'f" where
  "read_latest_fail_closed fo crc ab f =
     (case read_record_state fo crc f (ab_a ab) of
        (Inl e, f1) \<Rightarrow> (Inl e, f1)
      | (Inr ra, f1) \<Rightarrow>
          (case read_record_state fo crc f1 (ab_b ab) of
             (Inl e, f2) \<Rightarrow> (Inl e, f2)
           | (Inr rb, f2) \<Rightarrow>
               ((case (ra, rb) of
                  (Valid sa pa, Valid sb pb) \<Rightarrow> if sa \<ge> sb then Inr (Some pa) else Inr (Some pb)
                | (Valid _ payload, _) \<Rightarrow> Inr (Some payload)
                | (_, Valid _ payload) \<Rightarrow> Inr (Some payload)
                | (Erased, Erased) \<Rightarrow> Inr None
                | _ \<Rightarrow> Inl Flash), f2)))"

definition unwrap_or :: "'a option \<Rightarrow> 'a \<Rightarrow> 'a" where
  "unwrap_or x d = (case x of None \<Rightarrow> d | Some v \<Rightarrow> v)"

definition ab_write ::
    "'f flash_ops \<Rightarrow> (bytes \<Rightarrow> u32) \<Rightarrow> ab_pair \<Rightarrow> 'f \<Rightarrow> bytes \<Rightarrow> (hal_error + unit) \<times> 'f" where
  "ab_write fo crc ab f payload =
     (case read_record fo crc f (ab_a ab) of
        (Inl e, f1) \<Rightarrow> (Inl e, f1)
      | (Inr ra, f1) \<Rightarrow>
          (case read_record fo crc f1 (ab_b ab) of
             (Inl e, f2) \<Rightarrow> (Inl e, f2)
           | (Inr rb, f2) \<Rightarrow>
               let sa = map_option fst ra; sb = map_option fst rb;
                   max_seq = max (unwrap_or sa 0) (unwrap_or sb 0);
                   new_seq = max_seq + 1;
                   target = (if unwrap_or sa 0 \<le> unwrap_or sb 0 then ab_a ab else ab_b ab)
               in write_record fo crc f2 target new_seq payload))"

definition erase_both :: "'f flash_ops \<Rightarrow> ab_pair \<Rightarrow> 'f \<Rightarrow> (hal_error + unit) \<times> 'f" where
  "erase_both fo ab f =
     (case fs_erase fo f (ab_a ab) of
        (Inl e, f1) \<Rightarrow> (Inl e, f1)
      | (Inr _, f1) \<Rightarrow> fs_erase fo f1 (ab_b ab))"

definition TIME_FLOOR :: ab_pair where
  "TIME_FLOOR = \<lparr> ab_a = TimeA, ab_b = TimeB \<rparr>"

definition CONFIG :: ab_pair where
  "CONFIG = \<lparr> ab_a = ConfigA, ab_b = ConfigB \<rparr>"

definition KEY :: ab_pair where
  "KEY = \<lparr> ab_a = KeyA, ab_b = KeyB \<rparr>"

section \<open>Persisted payloads\<close>

datatype mode = Dev | Prod

record argon2_params =
  m_cost :: u32
  t_cost :: u32
  parallelism :: u8

record device_config =
  mode :: mode
  argon2 :: argon2_params
  max_retries :: u8
  wipe_on_lockout :: bool
  fw_version :: bytes

definition device_config_to_bytes :: "device_config \<Rightarrow> bytes" where
  "device_config_to_bytes c =
     [case mode c of Dev \<Rightarrow> 0 | Prod \<Rightarrow> 1]
     @ to_be_bytes 4 (m_cost (argon2 c)) @ to_be_bytes 4 (t_cost (argon2 c))
     @ [parallelism (argon2 c)] @ [max_retries c] @ [if wipe_on_lockout c then 1 else 0]
     @ fw_version c"

definition device_config_from_bytes :: "bytes \<Rightarrow> device_config option" where
  "device_config_from_bytes b =
     (if length b < 15 then None
      else
        case (if b ! 0 = 0 then Some Dev else if b ! 0 = 1 then Some Prod else None) of
          None \<Rightarrow> None
        | Some md \<Rightarrow>
            Some \<lparr> mode = md,
              argon2 = \<lparr> m_cost = from_be_bytes [b ! 1, b ! 2, b ! 3, b ! 4],
                         t_cost = from_be_bytes [b ! 5, b ! 6, b ! 7, b ! 8],
                         parallelism = b ! 9 \<rparr>,
              max_retries = b ! 10, wipe_on_lockout = (b ! 11 \<noteq> 0),
              fw_version = [b ! 12, b ! 13, b ! 14] \<rparr>)"

datatype wrap_type = DevKek | PinKek

fun wrap_type_u8 :: "wrap_type \<Rightarrow> u8" where
  "wrap_type_u8 DevKek = 3"
| "wrap_type_u8 PinKek = 4"

record key_blob =
  wrap_type :: wrap_type
  aead_nonce :: bytes
  pubkey :: bytes
  ciphertext :: bytes
  tag :: bytes
  salt :: bytes

definition key_blob_to_bytes :: "key_blob \<Rightarrow> bytes" where
  "key_blob_to_bytes k = [wrap_type_u8 (wrap_type k)] @ aead_nonce k @ pubkey k @ ciphertext k @ tag k @ salt k"

definition key_blob_from_bytes :: "bytes \<Rightarrow> key_blob option" where
  "key_blob_from_bytes b =
     (if length b < 109 then None
      else
        case (if b ! 0 = 3 then Some DevKek else if b ! 0 = 4 then Some PinKek else None) of
          None \<Rightarrow> None
        | Some wt \<Rightarrow>
            Some \<lparr> wrap_type = wt, aead_nonce = take 12 (drop 1 b), pubkey = take 32 (drop 13 b),
              ciphertext = take 32 (drop 45 b), tag = take 16 (drop 77 b), salt = take 16 (drop 93 b) \<rparr>)"

text \<open>Array lengths of the payload types.\<close>

definition device_config_ok :: "device_config \<Rightarrow> bool" where
  "device_config_ok c \<longleftrightarrow> length (fw_version c) = 3"

definition key_blob_ok :: "key_blob \<Rightarrow> bool" where
  "key_blob_ok k \<longleftrightarrow> length (aead_nonce k) = 12 \<and> length (pubkey k) = 32 \<and>
     length (ciphertext k) = 32 \<and> length (tag k) = 16 \<and> length (salt k) = 16"

text \<open>The payload of the trusted-time-floor pair: an \<^verbatim>\<open>i64\<close>, decoded by \<^verbatim>\<open><[u8; 8]>::try_from\<close>.\<close>

definition time_floor_to_bytes :: "i64 \<Rightarrow> bytes" where
  "time_floor_to_bytes t = to_be_bytes 8 t"

definition time_floor_from_bytes :: "bytes \<Rightarrow> i64 option" where
  "time_floor_from_bytes b = (if length b = 8 then Some (from_be_bytes b) else None)"

section \<open>The record format round-trips\<close>

definition record_header :: "u32 \<Rightarrow> bytes \<Rightarrow> bytes" where
  "record_header seq payload =
     MAGIC @ to_be_bytes 2 VERSION @ to_be_bytes 4 seq @ to_be_bytes 2 (of_nat (length payload) :: u16)"

definition record_bytes :: "(bytes \<Rightarrow> u32) \<Rightarrow> u32 \<Rightarrow> bytes \<Rightarrow> bytes" where
  "record_bytes crc seq payload =
     (let h = record_header seq payload @ payload in h @ to_be_bytes 4 (crc h))"

lemma length_MAGIC [simp]: "length MAGIC = 4"
  by (simp add: MAGIC_def)

lemma length_record_header [simp]: "length (record_header seq payload) = HEADER"
  by (simp add: record_header_def HEADER_def)

lemma length_record_bytes [simp]: "length (record_bytes crc seq payload) = HEADER + length payload + 4"
  by (simp add: record_bytes_def Let_def)

lemma copy_slice_append:
  "length xs = off \<Longrightarrow> copy_slice (xs @ ys) off bs = (xs @ bs) @ drop (length bs) ys"
  by (simp add: copy_slice_def)

lemma record_sector_eq:
  assumes "HEADER + length payload + 4 \<le> SECTOR_LEN"
  shows "record_sector crc seq payload =
    record_bytes crc seq payload @ replicate (SECTOR_LEN - (HEADER + length payload + 4)) 0xFF"
proof -
  let ?ff = "\<lambda>n. replicate (SECTOR_LEN - n) (0xFF :: u8)"
  let ?v = "to_be_bytes 2 VERSION" and ?q = "to_be_bytes 4 seq"
  let ?l = "to_be_bytes 2 (of_nat (length payload) :: u16)"
  have s1: "copy_slice (replicate SECTOR_LEN 0xFF) 0 MAGIC = MAGIC @ ?ff 4"
    by (simp add: copy_slice_def)
  have s2: "copy_slice (MAGIC @ ?ff 4) 4 ?v = (MAGIC @ ?v) @ ?ff 6"
    by (simp only: copy_slice_append length_MAGIC) simp
  have s3: "copy_slice ((MAGIC @ ?v) @ ?ff 6) 6 ?q = (MAGIC @ ?v @ ?q) @ ?ff 10"
    by (subst copy_slice_append) simp_all
  have s4: "copy_slice ((MAGIC @ ?v @ ?q) @ ?ff 10) 10 ?l = record_header seq payload @ ?ff HEADER"
    by (subst copy_slice_append) (simp_all add: record_header_def HEADER_def)
  have s5: "copy_slice (record_header seq payload @ ?ff HEADER) HEADER payload =
      (record_header seq payload @ payload) @ ?ff (HEADER + length payload)"
    by (subst copy_slice_append) simp_all
  show ?thesis
    unfolding record_sector_def Let_def s1 s2 s3 s4 s5
    by (subst copy_slice_append) (simp_all add: record_bytes_def Let_def)
qed

lemma parse_record_bytes:
  assumes "length payload < 2 ^ 16"
  shows "parse_record crc (record_bytes crc seq payload @ rest) = Some (seq, payload)"
proof -
  let ?n = "length payload"
  let ?v = "to_be_bytes 2 VERSION" and ?q = "to_be_bytes 4 seq" and ?l = "to_be_bytes 2 (of_nat ?n :: u16)"
  let ?h = "record_header seq payload @ payload"
  let ?c = "to_be_bytes 4 (crc ?h)"
  define sec where "sec = record_bytes crc seq payload @ rest"
  have sec: "sec = MAGIC @ ?v @ ?q @ ?l @ payload @ ?c @ rest"
    by (simp add: sec_def record_bytes_def record_header_def Let_def)
  have slice: "take 2 (drop 4 sec) = ?v" "take 4 (drop 6 sec) = ?q" "take 2 (drop 10 sec) = ?l"
      "take ?n (drop HEADER sec) = payload" "take 4 (drop (HEADER + ?n) sec) = ?c"
      "take (HEADER + ?n) sec = ?h" "take 4 sec = MAGIC"
    by (simp_all add: sec HEADER_def record_header_def)
  have len: "length sec = HEADER + ?n + 4 + length rest" by (simp add: sec HEADER_def)
  have two: "take 2 (drop i sec) = [sec ! i, sec ! (i + 1)]" if "i + 2 \<le> length sec" for i
    using that by (simp add: numeral_2_eq_2 take_Suc_conv_app_nth Cons_nth_drop_Suc [symmetric])
  have four: "take 4 (drop i sec) = [sec ! i, sec ! (i + 1), sec ! (i + 2), sec ! (i + 3)]"
    if "i + 4 \<le> length sec" for i
    using that by (simp add: numeral_eq_Suc Cons_nth_drop_Suc [symmetric])
  have f: "[sec ! 4, sec ! 5] = ?v" "[sec ! 6, sec ! 7, sec ! 8, sec ! 9] = ?q"
      "[sec ! 10, sec ! 11] = ?l"
    using two [of 4] two [of 10] four [of 6] len by (simp_all add: slice HEADER_def)
  have fc: "[sec ! (HEADER + ?n), sec ! (HEADER + ?n + 1), sec ! (HEADER + ?n + 2),
      sec ! (HEADER + ?n + 3)] = ?c"
    using four [of "HEADER + ?n"] len slice(5) by simp
  have "unat (of_nat ?n :: u16) = ?n" using assms by (simp add: unat_of_nat)
  with len have "parse_record crc sec = Some (seq, payload)"
    unfolding parse_record_def Let_def f by (simp add: slice fc [simplified])
  then show ?thesis by (simp add: sec_def)
qed

lemma parse_record_sector:
  assumes "HEADER + length payload + 4 \<le> SECTOR_LEN"
  shows "parse_record crc (record_sector crc seq payload) = Some (seq, payload)"
  using assms parse_record_bytes [of payload crc seq]
  by (simp add: record_sector_eq HEADER_def SECTOR_LEN_def)

lemma length_record_sector [simp]:
  "HEADER + length payload + 4 \<le> SECTOR_LEN \<Longrightarrow> length (record_sector crc seq payload) = SECTOR_LEN"
  by (simp add: record_sector_eq)

text \<open>An erased sector holds no record: it does not start with the magic number.\<close>

lemma parse_record_erased [simp]: "parse_record crc erased_sector = None"
proof -
  have "take 4 erased_sector ! 0 = 0xFF" and "MAGIC ! 0 \<noteq> 0xFF"
    by (simp_all add: erased_sector_def SECTOR_LEN_def MAGIC_def as_bytes_def)
  then have "take 4 erased_sector \<noteq> MAGIC" by metis
  then show ?thesis by (simp add: parse_record_def)
qed

section \<open>The abstract value of a pair\<close>

definition ab_choose :: "(u32 \<times> bytes) option \<Rightarrow> (u32 \<times> bytes) option \<Rightarrow> bytes option" where
  "ab_choose ra rb = (case (ra, rb) of
      (None, None) \<Rightarrow> None
    | (Some (_, p), None) \<Rightarrow> Some p
    | (None, Some (_, p)) \<Rightarrow> Some p
    | (Some (sa, pa), Some (sb, pb)) \<Rightarrow> if sa \<ge> sb then Some pa else Some pb)"

definition ab_record :: "(bytes \<Rightarrow> u32) \<Rightarrow> (region \<Rightarrow> bytes) \<Rightarrow> region \<Rightarrow> (u32 \<times> bytes) option" where
  "ab_record crc c r = parse_record crc (c r)"

definition ab_latest :: "(bytes \<Rightarrow> u32) \<Rightarrow> ab_pair \<Rightarrow> (region \<Rightarrow> bytes) \<Rightarrow> bytes option" where
  "ab_latest crc ab c = ab_choose (ab_record crc c (ab_a ab)) (ab_record crc c (ab_b ab))"

definition ab_seq :: "(bytes \<Rightarrow> u32) \<Rightarrow> (region \<Rightarrow> bytes) \<Rightarrow> region \<Rightarrow> u32" where
  "ab_seq crc c r = unwrap_or (map_option fst (ab_record crc c r)) 0"

definition ab_max_seq :: "(bytes \<Rightarrow> u32) \<Rightarrow> ab_pair \<Rightarrow> (region \<Rightarrow> bytes) \<Rightarrow> u32" where
  "ab_max_seq crc ab c = max (ab_seq crc c (ab_a ab)) (ab_seq crc c (ab_b ab))"

definition ab_target :: "(bytes \<Rightarrow> u32) \<Rightarrow> ab_pair \<Rightarrow> (region \<Rightarrow> bytes) \<Rightarrow> region" where
  "ab_target crc ab c = (if ab_seq crc c (ab_a ab) \<le> ab_seq crc c (ab_b ab) then ab_a ab else ab_b ab)"

text \<open>
  The invariant of a pair: valid copies carry non-zero, distinct sequence numbers (which is what
  writing from an erased pair produces), and the two copies are different sectors.
\<close>

definition ab_inv :: "(bytes \<Rightarrow> u32) \<Rightarrow> ab_pair \<Rightarrow> (region \<Rightarrow> bytes) \<Rightarrow> bool" where
  "ab_inv crc ab c \<longleftrightarrow> ab_a ab \<noteq> ab_b ab
     \<and> (ab_record crc c (ab_a ab) \<noteq> None \<longrightarrow> ab_seq crc c (ab_a ab) \<noteq> 0)
     \<and> (ab_record crc c (ab_b ab) \<noteq> None \<longrightarrow> ab_seq crc c (ab_b ab) \<noteq> 0)
     \<and> (ab_record crc c (ab_a ab) \<noteq> None \<and> ab_record crc c (ab_b ab) \<noteq> None \<longrightarrow>
          ab_seq crc c (ab_a ab) \<noteq> ab_seq crc c (ab_b ab))"

lemmas ab_defs = ab_latest_def ab_choose_def ab_seq_def ab_max_seq_def ab_target_def ab_record_def
  unwrap_or_def

lemma ab_target_cases: "ab_target crc ab c = ab_a ab \<or> ab_target crc ab c = ab_b ab"
  by (simp add: ab_target_def)

text \<open>
  Replacing the target sector by a record with the next sequence number makes that record the
  value of the pair and keeps the invariant, as long as the sequence number does not wrap.
\<close>

lemma ab_latest_update:
  assumes "ab_a ab \<noteq> ab_b ab" and "ab_max_seq crc ab c \<noteq> - 1"
    and "parse_record crc sec = Some (ab_max_seq crc ab c + 1, payload)"
  shows "ab_latest crc ab (c(ab_target crc ab c := sec)) = Some payload"
    and "ab_inv crc ab c \<Longrightarrow> ab_inv crc ab (c(ab_target crc ab c := sec))"
proof -
  let ?m = "ab_max_seq crc ab c"
  have m: "?m < ?m + 1" and nz: "?m + 1 \<noteq> 0"
    using assms(2) by (simp_all add: word_less_plus_1 word_plus_1_nonzero)
  have ge: "ab_seq crc c (ab_a ab) < ?m + 1" "ab_seq crc c (ab_b ab) < ?m + 1"
    using m by (auto simp: ab_max_seq_def intro: le_less_trans)
  show "ab_latest crc ab (c(ab_target crc ab c := sec)) = Some payload"
    using assms(1,3) ge by (auto simp: ab_target_def ab_latest_def ab_choose_def ab_record_def
        ab_seq_def unwrap_or_def split: option.splits)
  show "ab_inv crc ab c \<Longrightarrow> ab_inv crc ab (c(ab_target crc ab c := sec))"
    using assms(1,3) ge nz by (auto simp: ab_target_def ab_inv_def ab_record_def ab_seq_def
        unwrap_or_def split: option.splits)
qed

text \<open>Whatever a write leaves in the target sector, as long as it is no record, the value stays.\<close>

lemma ab_latest_torn:
  assumes "ab_inv crc ab c" and "parse_record crc sec = None"
  shows "ab_latest crc ab (c(ab_target crc ab c := sec)) = ab_latest crc ab c"
  using assms by (auto simp: ab_inv_def ab_target_def ab_latest_def ab_choose_def ab_record_def
      ab_seq_def unwrap_or_def split: option.splits if_splits)

text \<open>Whatever is left in the target sector, the pair still has its value, unless that sector parses as a record.\<close>

lemma ab_latest_any:
  assumes "ab_inv crc ab c"
  shows "ab_latest crc ab (c(ab_target crc ab c := sec)) = ab_latest crc ab c
    \<or> (\<exists>seq p. parse_record crc sec = Some (seq, p) \<and> ab_latest crc ab (c(ab_target crc ab c := sec)) = Some p)"
  using assms by (auto simp: ab_inv_def ab_target_def ab_latest_def ab_choose_def ab_record_def
      ab_seq_def unwrap_or_def split: option.splits if_splits)

section \<open>Refinement: the operations on any flash that keeps the contract\<close>

lemma map2_and_blank: "map2 (AND) (replicate (length page) 0xFF) page = (page :: bytes)"
  by (induction page) simp_all

lemma program_bytes_blank:
  assumes "length page \<le> k" and "length xs = off"
  shows "program_bytes (xs @ replicate k 0xFF) off page = xs @ page @ replicate (k - length page) 0xFF"
  using assms by (simp add: program_bytes_def map2_and_blank min_def)

lemma list_all_ff_iff: "length b = SECTOR_LEN \<Longrightarrow> list_all (\<lambda>byte. byte = 0xFF) b \<longleftrightarrow> b = erased_sector"
  by (auto simp: erased_sector_def list_all_iff intro: replicate_eqI)

context flash_store
begin

lemma read_record_spec:
  assumes "read_record fo crc f r = (res, f')"
  shows "content f' = content f" and "fs_device_secret fo f' = fs_device_secret fo f"
    and "res = Inr x \<Longrightarrow> x = ab_record crc (content f) r"
  using assms read_frame secret_read read_ok
  by (fastforce simp: read_record_def ab_record_def split: prod.splits sum.splits)+

lemma read_record_state_spec:
  assumes "read_record_state fo crc f r = (res, f')"
  shows "content f' = content f" and "fs_device_secret fo f' = fs_device_secret fo f"
    and "res = Inr st \<Longrightarrow> st = (if content f r = erased_sector then Erased else
           case ab_record crc (content f) r of Some (sq, p) \<Rightarrow> Valid sq p | None \<Rightarrow> Invalid)"
proof -
  obtain rd f1 where rd: "fs_read fo f r (replicate SECTOR_LEN 0) = (rd, f1)" by fastforce
  have b: "rd = Inr b \<Longrightarrow> b = content f r" for b using read_ok rd by fastforce
  have "f' = f1" using assms rd
    by (auto simp: read_record_state_def split: sum.splits if_splits option.splits)
  with rd show "content f' = content f" "fs_device_secret fo f' = fs_device_secret fo f"
    by (simp_all add: read_frame secret_read)
  show "res = Inr st \<Longrightarrow> st = (if content f r = erased_sector then Erased else
           case ab_record crc (content f) r of Some (sq, p) \<Rightarrow> Valid sq p | None \<Rightarrow> Invalid)"
    using assms rd b content_length [of f r]
    by (auto simp: read_record_state_def ab_record_def list_all_ff_iff
        split: sum.splits if_splits option.splits)
qed

lemma read_latest_spec:
  assumes "read_latest fo crc ab f = (res, f')"
  shows "content f' = content f" and "fs_device_secret fo f' = fs_device_secret fo f"
    and "res = Inr x \<Longrightarrow> x = ab_latest crc ab (content f)"
proof -
  obtain ra f1 where a: "read_record fo crc f (ab_a ab) = (ra, f1)" by fastforce
  obtain rb f2 where b: "read_record fo crc f1 (ab_b ab) = (rb, f2)" by fastforce
  note specs = read_record_spec [OF a] read_record_spec [OF b]
  show "content f' = content f" and "fs_device_secret fo f' = fs_device_secret fo f"
    using assms specs a b by (auto simp: read_latest_def split: sum.splits)
  show "res = Inr x \<Longrightarrow> x = ab_latest crc ab (content f)"
    using assms specs a b by (auto simp: read_latest_def ab_latest_def ab_choose_def split: sum.splits)
qed

lemma program_pages_ok:
  assumes "program_pages fo r sec p n f = (Inr u, f')" and "length sec = SECTOR_LEN"
    and "(p + n) * PAGE_LEN \<le> SECTOR_LEN"
    and "content f r = take (p * PAGE_LEN) sec @ replicate (SECTOR_LEN - p * PAGE_LEN) 0xFF"
  shows "content f' = (content f)
    (r := take ((p + n) * PAGE_LEN) sec @ replicate (SECTOR_LEN - (p + n) * PAGE_LEN) 0xFF)"
  using assms
proof (induction n arbitrary: p f)
  case 0
  then show ?case by (auto simp: fun_eq_iff)
next
  case (Suc n)
  let ?off = "p * PAGE_LEN" and ?page = "take PAGE_LEN (drop (p * PAGE_LEN) sec)"
  from Suc.prems(1) obtain f1 where f1: "fs_program fo f r ?off ?page = (Inr (), f1)"
    and rest: "program_pages fo r sec (Suc p) n f1 = (Inr u, f')"
    by (auto simp: Let_def split: prod.splits sum.splits)
  have le: "?off + PAGE_LEN \<le> SECTOR_LEN" using Suc.prems(3) by (simp add: algebra_simps)
  have "program_bytes (content f r) ?off ?page
      = take ?off sec @ ?page @ replicate (SECTOR_LEN - ?off - PAGE_LEN) 0xFF"
    using le Suc.prems(2,4) by (simp add: program_bytes_blank)
  also have "\<dots> = take (Suc p * PAGE_LEN) sec @ replicate (SECTOR_LEN - Suc p * PAGE_LEN) 0xFF"
    by (simp add: take_add [symmetric] add.commute)
  finally have c1: "content f1 = (content f)(r := take (Suc p * PAGE_LEN) sec
      @ replicate (SECTOR_LEN - Suc p * PAGE_LEN) 0xFF)"
    using program_ok [OF f1] by simp
  show ?case
    using Suc.IH [OF rest Suc.prems(2)] Suc.prems(3) by (auto simp: c1 fun_eq_iff)
qed

lemma program_pages_frame:
  assumes "program_pages fo r sec p n f = (res, f')"
  shows "r' \<noteq> r \<Longrightarrow> content f' r' = content f r'"
    and "fs_device_secret fo f' = fs_device_secret fo f"
  using assms
  by (induction n arbitrary: p f)
    (auto simp: Let_def program_frame secret_program split: prod.splits sum.splits)

lemma write_record_ok:
  assumes "write_record fo crc f r sq payload = (Inr u, f')"
  shows "content f' = (content f)(r := record_sector crc sq payload)"
    and "HEADER + length payload + 4 \<le> SECTOR_LEN"
proof -
  let ?total = "HEADER + length payload + 4" and ?sec = "record_sector crc sq payload"
  let ?n = "div_ceil ?total PAGE_LEN * PAGE_LEN"
  show fits: "?total \<le> SECTOR_LEN" using assms by (auto simp: write_record_def Let_def split: if_splits)
  from assms fits obtain f1 where er: "fs_erase fo f r = (Inr (), f1)"
    and pg: "program_pages fo r ?sec 0 (div_ceil ?total PAGE_LEN) f1 = (Inr u, f')"
    by (auto simp: write_record_def Let_def split: prod.splits sum.splits)
  have n: "?total \<le> ?n" "?n \<le> SECTOR_LEN"
    using fits by (auto simp: div_ceil_def PAGE_LEN_def SECTOR_LEN_def HEADER_def)
  have "content f' = (content f1)(r := take ?n ?sec @ replicate (SECTOR_LEN - ?n) 0xFF)"
    using program_pages_ok [OF pg] n(2) fits by (simp add: erase_ok [OF er] erased_sector_def)
  moreover have "take ?n ?sec @ replicate (SECTOR_LEN - ?n) 0xFF = ?sec"
    using n fits by (simp add: record_sector_eq replicate_add [symmetric])
  ultimately show "content f' = (content f)(r := ?sec)"
    using erase_ok [OF er] by simp
qed

lemma write_record_frame:
  assumes "write_record fo crc f r sq payload = (res, f')"
  shows "r' \<noteq> r \<Longrightarrow> content f' r' = content f r'"
    and "fs_device_secret fo f' = fs_device_secret fo f"
  using assms erase_frame secret_erase program_pages_frame
  by (fastforce simp: write_record_def Let_def split: if_splits prod.splits sum.splits)+

lemma ab_write_unfold:
  assumes "ab_write fo crc ab f payload = (res, f')"
  obtains "content f' = content f" "fs_device_secret fo f' = fs_device_secret fo f" "\<not> is_ok res"
  | f2 where "content f2 = content f" "fs_device_secret fo f2 = fs_device_secret fo f"
      "write_record fo crc f2 (ab_target crc ab (content f)) (ab_max_seq crc ab (content f) + 1) payload = (res, f')"
proof -
  obtain ra f1 where a: "read_record fo crc f (ab_a ab) = (ra, f1)" by fastforce
  obtain rb f2 where b: "read_record fo crc f1 (ab_b ab) = (rb, f2)" by fastforce
  note specs = read_record_spec [OF a] read_record_spec [OF b]
  show thesis
  proof (cases "is_ok ra \<and> is_ok rb")
    case True
    with assms a b specs show thesis
      by (intro that(2) [of f2]) (auto simp: ab_write_def is_ok_iff Let_def ab_target_def ab_seq_def ab_max_seq_def)
  next
    case False
    with assms a b specs show thesis
      by (intro that(1)) (auto simp: ab_write_def is_ok_iff Let_def split: sum.splits)
  qed
qed

text \<open>A write that reports success has replaced the value of the pair, and nothing else.\<close>

lemma ab_write_ok:
  assumes "ab_write fo crc ab f payload = (Inr u, f')"
  shows "content f' = (content f)
    (ab_target crc ab (content f) := record_sector crc (ab_max_seq crc ab (content f) + 1) payload)"
    and "HEADER + length payload + 4 \<le> SECTOR_LEN"
    and "fs_device_secret fo f' = fs_device_secret fo f"
  using assms by (elim ab_write_unfold; force dest: write_record_ok write_record_frame(2))+

lemma ab_write_frame:
  assumes "ab_write fo crc ab f payload = (res, f')"
  shows "r' \<noteq> ab_target crc ab (content f) \<Longrightarrow> content f' r' = content f r'"
    and "fs_device_secret fo f' = fs_device_secret fo f"
  using assms by (elim ab_write_unfold; force dest: write_record_frame)+

lemma ab_write_latest:
  assumes "ab_write fo crc ab f payload = (Inr u, f')"
    and "ab_a ab \<noteq> ab_b ab" and "ab_max_seq crc ab (content f) \<noteq> - 1"
  shows "ab_latest crc ab (content f') = Some payload"
    and "ab_inv crc ab (content f) \<Longrightarrow> ab_inv crc ab (content f')"
  using ab_latest_update [OF assms(2,3) parse_record_sector] ab_write_ok [OF assms(1)] by simp_all

lemma erase_both_ok:
  assumes "erase_both fo ab f = (Inr u, f')"
  shows "content f' = (content f)(ab_a ab := erased_sector, ab_b ab := erased_sector)"
  using assms by (auto simp: erase_both_def dest!: erase_ok split: prod.splits sum.splits)

lemma erase_both_frame:
  assumes "erase_both fo ab f = (res, f')"
  shows "r' \<noteq> ab_a ab \<Longrightarrow> r' \<noteq> ab_b ab \<Longrightarrow> content f' r' = content f r'"
    and "fs_device_secret fo f' = fs_device_secret fo f"
  using assms erase_frame secret_erase
  by (fastforce simp: erase_both_def split: prod.splits sum.splits)+

lemma read_latest_fail_closed_spec:
  assumes "read_latest_fail_closed fo crc ab f = (res, f')"
  shows "content f' = content f" and "fs_device_secret fo f' = fs_device_secret fo f"
    and "res = Inr (Some p) \<Longrightarrow> ab_latest crc ab (content f) = Some p"
    and "res = Inr None \<Longrightarrow> content f (ab_a ab) = erased_sector \<and> content f (ab_b ab) = erased_sector"
proof -
  obtain ra f1 where a: "read_record_state fo crc f (ab_a ab) = (ra, f1)" by fastforce
  obtain rb f2 where b: "read_record_state fo crc f1 (ab_b ab) = (rb, f2)" by fastforce
  note specs = read_record_state_spec [OF a] read_record_state_spec [OF b]
  show "content f' = content f" and "fs_device_secret fo f' = fs_device_secret fo f"
    using assms specs a b by (auto simp: read_latest_fail_closed_def split: sum.splits)
  show "res = Inr (Some p) \<Longrightarrow> ab_latest crc ab (content f) = Some p"
    using assms specs a b
    by (auto simp: read_latest_fail_closed_def ab_latest_def ab_choose_def ab_record_def
        split: sum.splits record_state.splits if_splits option.splits)
  show "res = Inr None \<Longrightarrow> content f (ab_a ab) = erased_sector \<and> content f (ab_b ab) = erased_sector"
    using assms specs a b
    by (auto simp: read_latest_fail_closed_def split: sum.splits record_state.splits if_splits option.splits)
qed

end

context reliable_flash
begin

lemma program_pages_healthy:
  assumes "healthy f" and "length sec = SECTOR_LEN" and "(p + n) * PAGE_LEN \<le> SECTOR_LEN"
  shows "\<exists>f'. program_pages fo r sec p n f = (Inr (), f') \<and> healthy f'"
  using assms
proof (induction n arbitrary: p f)
  case (Suc n)
  have "p * PAGE_LEN + length (take PAGE_LEN (drop (p * PAGE_LEN) sec)) \<le> SECTOR_LEN"
    using Suc.prems(2,3) by (simp add: algebra_simps)
  then obtain f1 where "fs_program fo f r (p * PAGE_LEN) (take PAGE_LEN (drop (p * PAGE_LEN) sec)) = (Inr (), f1)"
      and "healthy f1"
    using program_healthy [OF Suc.prems(1)] by blast
  with Suc.IH [of f1 "Suc p"] Suc.prems show ?case by (simp add: Let_def)
qed simp

lemma read_record_healthy:
  assumes "healthy f"
  shows "\<exists>f'. read_record fo crc f r = (Inr (ab_record crc (content f) r), f') \<and> healthy f'"
  using read_healthy [OF assms, of "replicate SECTOR_LEN 0" r] read_ok
  by (fastforce simp: read_record_def ab_record_def)

lemma read_latest_healthy:
  assumes "healthy f"
  shows "\<exists>f'. read_latest fo crc ab f = (Inr (ab_latest crc ab (content f)), f') \<and> healthy f'"
proof -
  obtain f1 where 1: "read_record fo crc f (ab_a ab) = (Inr (ab_record crc (content f) (ab_a ab)), f1)"
      and "healthy f1"
    using read_record_healthy [OF assms] by blast
  then obtain f2 where 2: "read_record fo crc f1 (ab_b ab) = (Inr (ab_record crc (content f1) (ab_b ab)), f2)"
      and "healthy f2"
    using read_record_healthy by blast
  with 1 read_record_spec(1) [OF 1] show ?thesis
    by (simp add: read_latest_def ab_latest_def ab_choose_def)
qed

lemma write_record_healthy:
  assumes "healthy f" and "HEADER + length payload + 4 \<le> SECTOR_LEN"
  shows "\<exists>f'. write_record fo crc f r sq payload = (Inr (), f') \<and> healthy f'"
proof -
  obtain f1 where f1: "fs_erase fo f r = (Inr (), f1)" "healthy f1"
    using erase_healthy [OF assms(1)] by blast
  have "div_ceil (HEADER + length payload + 4) PAGE_LEN * PAGE_LEN \<le> SECTOR_LEN"
    using assms(2) by (auto simp: div_ceil_def PAGE_LEN_def SECTOR_LEN_def HEADER_def)
  with f1 assms(2) show ?thesis
    using program_pages_healthy [of f1 "record_sector crc sq payload" 0]
    by (simp add: write_record_def Let_def)
qed

lemma ab_write_healthy:
  assumes "healthy f" and "HEADER + length payload + 4 \<le> SECTOR_LEN"
  shows "\<exists>f'. ab_write fo crc ab f payload = (Inr (), f') \<and> healthy f'"
proof -
  obtain f1 where 1: "read_record fo crc f (ab_a ab) = (Inr (ab_record crc (content f) (ab_a ab)), f1)"
      and "healthy f1"
    using read_record_healthy [OF assms(1)] by blast
  then obtain f2 where "read_record fo crc f1 (ab_b ab) = (Inr (ab_record crc (content f1) (ab_b ab)), f2)"
      and "healthy f2"
    using read_record_healthy by blast
  with 1 write_record_healthy [OF _ assms(2)] show ?thesis
    by (simp add: ab_write_def Let_def)
qed

lemma read_record_state_healthy:
  assumes "healthy f"
  shows "\<exists>f'. read_record_state fo crc f r = (Inr (if content f r = erased_sector then Erased else
      case ab_record crc (content f) r of Some (sq, p) \<Rightarrow> Valid sq p | None \<Rightarrow> Invalid), f') \<and> healthy f' \<and> content f' = content f"
proof -
  obtain b f' where rd: "fs_read fo f r (replicate SECTOR_LEN 0) = (Inr b, f')" "healthy f'"
    using read_healthy [OF assms, of "replicate SECTOR_LEN 0" r] by auto
  obtain st where "read_record_state fo crc f r = (Inr st, f')"
    using rd(1) by (cases "list_all (\<lambda>byte. byte = 255) b"; cases "parse_record crc b") (auto simp: read_record_state_def)
  with rd(2) read_record_state_spec [OF this] show ?thesis by blast
qed

lemma read_latest_fail_closed_healthy:
  assumes "healthy f"
  shows "\<exists>f'. read_latest_fail_closed fo crc ab f =
      ((case ab_latest crc ab (content f) of Some p \<Rightarrow> Inr (Some p)
        | None \<Rightarrow> if content f (ab_a ab) = erased_sector \<and> content f (ab_b ab) = erased_sector then Inr None else Inl Flash), f')
    \<and> healthy f'"
proof -
  let ?st = "\<lambda>r. if content f r = erased_sector then Erased else
    case ab_record crc (content f) r of Some (sq, p) \<Rightarrow> Valid sq p | None \<Rightarrow> Invalid"
  obtain f1 where 1: "read_record_state fo crc f (ab_a ab) = (Inr (?st (ab_a ab)), f1)" "healthy f1" "content f1 = content f"
    using read_record_state_healthy [OF assms] by blast
  obtain f2 where 2: "read_record_state fo crc f1 (ab_b ab) = (Inr (?st (ab_b ab)), f2)" "healthy f2"
    using read_record_state_healthy [OF 1(2), of crc "ab_b ab"] 1(3) by auto
  have e: "ab_record crc (content f) r = None" if "content f r = erased_sector" for r
    using that by (simp add: ab_record_def)
  show ?thesis
    using 2(2) e
    by (auto simp: read_latest_fail_closed_def 1(1) 2(1) ab_latest_def ab_choose_def split: option.splits)
qed

lemma erase_both_healthy:
  assumes "healthy f"
  shows "\<exists>f'. erase_both fo ab f = (Inr (), f') \<and> healthy f'"
  using erase_healthy [OF assms, of "ab_a ab"] erase_healthy [of _ "ab_b ab"]
  by (fastforce simp: erase_both_def)

end

section \<open>Power loss between two flash operations\<close>

text \<open>
  The flash states a write passes through: after each of its flash operations, in order. Power
  may be lost in any of them. \<open>last_ab_write_states\<close> ties the list to the operation.
\<close>

primrec program_states ::
    "'f flash_ops \<Rightarrow> region \<Rightarrow> bytes \<Rightarrow> nat \<Rightarrow> nat \<Rightarrow> 'f \<Rightarrow> 'f list" where
  "program_states fo region sector p 0 f = []"
| "program_states fo region sector p (Suc n) f =
     (case fs_program fo f region (p * PAGE_LEN) (take PAGE_LEN (drop (p * PAGE_LEN) sector)) of
        (Inl e, f1) \<Rightarrow> [f1]
      | (Inr _, f1) \<Rightarrow> f1 # program_states fo region sector (Suc p) n f1)"

definition write_record_states ::
    "'f flash_ops \<Rightarrow> (bytes \<Rightarrow> u32) \<Rightarrow> 'f \<Rightarrow> region \<Rightarrow> u32 \<Rightarrow> bytes \<Rightarrow> 'f list" where
  "write_record_states fo crc f region seq payload =
     (let total = HEADER + length payload + 4 in
      if total > SECTOR_LEN then []
      else case fs_erase fo f region of
          (Inl e, f1) \<Rightarrow> [f1]
        | (Inr _, f1) \<Rightarrow>
            f1 # program_states fo region (record_sector crc seq payload) 0 (div_ceil total PAGE_LEN) f1)"

definition ab_write_states ::
    "'f flash_ops \<Rightarrow> (bytes \<Rightarrow> u32) \<Rightarrow> ab_pair \<Rightarrow> 'f \<Rightarrow> bytes \<Rightarrow> 'f list" where
  "ab_write_states fo crc ab f payload =
     f # (case read_record fo crc f (ab_a ab) of
        (Inl e, f1) \<Rightarrow> [f1]
      | (Inr ra, f1) \<Rightarrow> f1 #
          (case read_record fo crc f1 (ab_b ab) of
             (Inl e, f2) \<Rightarrow> [f2]
           | (Inr rb, f2) \<Rightarrow> f2 #
               (let sa = map_option fst ra; sb = map_option fst rb;
                    max_seq = max (unwrap_or sa 0) (unwrap_or sb 0);
                    target = (if unwrap_or sa 0 \<le> unwrap_or sb 0 then ab_a ab else ab_b ab)
                in write_record_states fo crc f2 target (max_seq + 1) payload)))"

lemma last_program_states:
  "last (f # program_states fo r sec p n f) = snd (program_pages fo r sec p n f)"
  by (induction n arbitrary: p f) (auto simp: Let_def split: prod.splits sum.splits)

lemma last_ab_write_states:
  "last (ab_write_states fo crc ab f payload) = snd (ab_write fo crc ab f payload)"
proof -
  have "last (f # write_record_states fo crc f r sq payload) = snd (write_record fo crc f r sq payload)" for f r sq
    using last_program_states [of _ fo r]
    by (auto simp: write_record_states_def write_record_def Let_def split: prod.splits sum.splits)
  then show ?thesis
    by (auto simp: ab_write_states_def ab_write_def Let_def split: prod.splits sum.splits)
qed

context flash_store
begin

lemma ab_write_states_single_page:
  assumes "g \<in> set (ab_write_states fo crc ab f payload)" and "length payload \<le> 240"
    and "ab_write fo crc ab f payload = (Inr (), f')"
  shows "content g = content f
    \<or> content g = (content f)(ab_target crc ab (content f) := erased_sector)
    \<or> content g = content f'"
proof -
  let ?s = "content f" and ?t = "ab_target crc ab (content f)"
  let ?sec = "record_sector crc (ab_max_seq crc ab ?s + 1) payload"
  obtain ra f1 where a: "read_record fo crc f (ab_a ab) = (ra, f1)" by fastforce
  obtain rb f2 where b: "read_record fo crc f1 (ab_b ab) = (rb, f2)" by fastforce
  note specs = read_record_spec [OF a] read_record_spec [OF b]
  have oks: "is_ok ra" "is_ok rb"
    using assms(3) a b by (auto simp: ab_write_def is_ok_iff split: sum.splits)
  have w: "write_record fo crc f2 ?t (ab_max_seq crc ab ?s + 1) payload = (Inr (), f')"
    using assms(3) a b specs oks
    by (auto simp: ab_write_def is_ok_iff Let_def ab_target_def ab_seq_def ab_max_seq_def)
  have n: "div_ceil (HEADER + length payload + 4) PAGE_LEN = Suc 0"
    using assms(2) by (simp add: div_ceil_def PAGE_LEN_def HEADER_def)
  then obtain f3 where e: "fs_erase fo f2 ?t = (Inr (), f3)" and pg: "program_pages fo ?t ?sec 0 (Suc 0) f3 = (Inr (), f')"
    using w by (auto simp: write_record_def Let_def split: if_splits prod.splits sum.splits)
  have "g \<in> {f, f1, f2} \<union> set (write_record_states fo crc f2 ?t (ab_max_seq crc ab ?s + 1) payload)"
    using assms(1) a b specs oks
    by (auto simp: ab_write_states_def is_ok_iff Let_def ab_target_def ab_seq_def ab_max_seq_def)
  moreover have "set (write_record_states fo crc f2 ?t (ab_max_seq crc ab ?s + 1) payload) \<subseteq> {f3, f'}"
    using e pg n by (auto simp: write_record_states_def Let_def split: prod.splits sum.splits)
  ultimately show ?thesis
    using specs erase_ok [OF e] by auto
qed

lemma ab_write_atomic:
  assumes "g \<in> set (ab_write_states fo crc ab f payload)" and "length payload \<le> 240"
    and "ab_write fo crc ab f payload = (Inr (), f')"
    and "ab_inv crc ab (content f)" and "ab_max_seq crc ab (content f) \<noteq> - 1"
  shows "ab_latest crc ab (content g) = ab_latest crc ab (content f) \<or> ab_latest crc ab (content g) = Some payload"
  using ab_write_states_single_page [OF assms(1-3)] ab_write_latest(1) [OF assms(3) _ assms(5)]
    ab_latest_torn [OF assms(4), of erased_sector] assms(4)
  by (auto simp: ab_inv_def)

end

section \<open>Payload codecs\<close>

lemma take_nth2: "i + 2 \<le> length b \<Longrightarrow> [b ! i, b ! (i + 1)] = take 2 (drop i b)"
  by (simp add: numeral_2_eq_2 Cons_nth_drop_Suc [symmetric])

lemma take_nth4:
  "i + 4 \<le> length b \<Longrightarrow> [b ! i, b ! (i + 1), b ! (i + 2), b ! (i + 3)] = take 4 (drop i b)"
  by (simp add: numeral_eq_Suc Cons_nth_drop_Suc [symmetric])

lemma length_eq_3_conv: "length xs = 3 \<longleftrightarrow> (\<exists>a b c. xs = [a, b, c])"
  by (auto simp: numeral_3_eq_3 length_Suc_conv)

lemma device_config_codec:
  assumes "device_config_ok c"
  shows "device_config_from_bytes (device_config_to_bytes c) = Some c"
proof -
  define b where "b = device_config_to_bytes c"
  let ?a = "argon2 c"
  obtain v0 v1 v2 where v: "fw_version c = [v0, v1, v2]"
    using assms by (auto simp: device_config_ok_def length_eq_3_conv)
  have len: "length b = 15" by (simp add: b_def device_config_to_bytes_def v)
  have "take 4 (drop 1 b) = to_be_bytes 4 (m_cost ?a)" "take 4 (drop 5 b) = to_be_bytes 4 (t_cost ?a)"
    by (simp_all add: b_def device_config_to_bytes_def)
  then have words: "[b ! 1, b ! 2, b ! 3, b ! 4] = to_be_bytes 4 (m_cost ?a)"
      "[b ! 5, b ! 6, b ! 7, b ! 8] = to_be_bytes 4 (t_cost ?a)"
    using take_nth4 [of 1 b] take_nth4 [of 5 b] len by (simp_all del: One_nat_def)
  have bytes: "b ! 0 = (case mode c of Dev \<Rightarrow> 0 | Prod \<Rightarrow> 1)" "b ! 9 = parallelism ?a"
      "b ! 10 = max_retries c" "b ! 11 = (if wipe_on_lockout c then 1 else 0)"
      "b ! 12 = v0" "b ! 13 = v1" "b ! 14 = v2"
    by (simp_all add: b_def device_config_to_bytes_def v nth_append nth_Cons' split: mode.splits)
  show ?thesis
    unfolding b_def [symmetric] device_config_from_bytes_def words
    by (simp add: len bytes v [symmetric] split: mode.splits)
qed

lemma key_blob_codec:
  assumes "key_blob_ok k"
  shows "key_blob_from_bytes (key_blob_to_bytes k) = Some k"
  using assms
  by (cases "wrap_type k") (simp_all add: key_blob_from_bytes_def key_blob_to_bytes_def key_blob_ok_def)

text \<open>
  What the storage clients rely on: a codec for their payload type whose encoding has a fixed
  length that fits a single flash page together with the record framing.
\<close>

locale payload_codec =
  fixes enc :: "'a \<Rightarrow> bytes"
    and dec :: "bytes \<Rightarrow> 'a option"
    and wf :: "'a \<Rightarrow> bool"
    and width :: nat
  assumes dec_enc: "wf x \<Longrightarrow> dec (enc x) = Some x"
    and enc_length: "wf x \<Longrightarrow> length (enc x) = width"
    and width_page: "width \<le> 240"
begin

lemma enc_fits: "wf x \<Longrightarrow> HEADER + length (enc x) + 4 \<le> SECTOR_LEN"
  using enc_length width_page by (simp add: HEADER_def SECTOR_LEN_def)

lemma store_load:
  assumes "reliable_flash fo content healthy" and "healthy f" and "wf x"
    and "ab_a ab \<noteq> ab_b ab" and "ab_max_seq crc ab (content f) \<noteq> - 1"
  shows "\<exists>f1 f2. ab_write fo crc ab f (enc x) = (Inr (), f1)
    \<and> read_latest fo crc ab f1 = (Inr (Some (enc x)), f2) \<and> dec (enc x) = Some x"
proof -
  from assms(1) have fs: "flash_store fo content" by (simp add: reliable_flash_def)
  obtain f1 where f1: "ab_write fo crc ab f (enc x) = (Inr (), f1)" "healthy f1"
    using reliable_flash.ab_write_healthy [OF assms(1,2) enc_fits [OF assms(3)]] by blast
  then have "ab_latest crc ab (content f1) = Some (enc x)"
    using flash_store.ab_write_latest(1) [OF fs _ assms(4,5)] by blast
  with f1 reliable_flash.read_latest_healthy [OF assms(1)] dec_enc [OF assms(3)] show ?thesis
    by metis
qed

lemma store_atomic:
  assumes "flash_store fo content" and "wf x" and "g \<in> set (ab_write_states fo crc ab f (enc x))"
    and "ab_write fo crc ab f (enc x) = (Inr (), f')"
    and "ab_inv crc ab (content f)" and "ab_max_seq crc ab (content f) \<noteq> - 1"
  shows "ab_latest crc ab (content g) = ab_latest crc ab (content f)
    \<or> Option.bind (ab_latest crc ab (content g)) dec = Some x"
  using flash_store.ab_write_atomic [OF assms(1,3) _ assms(4-6)] dec_enc [OF assms(2)]
    enc_length [OF assms(2)] width_page by auto

end

interpretation config_codec: payload_codec device_config_to_bytes device_config_from_bytes device_config_ok 15
  by unfold_locales (erule device_config_codec, simp_all add: device_config_to_bytes_def device_config_ok_def)

interpretation key_codec: payload_codec key_blob_to_bytes key_blob_from_bytes key_blob_ok 109
  by unfold_locales (erule key_blob_codec, simp_all add: key_blob_to_bytes_def key_blob_ok_def)

interpretation time_codec: payload_codec time_floor_to_bytes time_floor_from_bytes "\<lambda>_. True" 8
  by unfold_locales (simp_all add: time_floor_to_bytes_def time_floor_from_bytes_def)

lemma ab_pairs_distinct [simp]:
  "ab_a CONFIG \<noteq> ab_b CONFIG" "ab_a KEY \<noteq> ab_b KEY" "ab_a TIME_FLOOR \<noteq> ab_b TIME_FLOOR"
  by (simp_all add: CONFIG_def KEY_def TIME_FLOOR_def)

section \<open>Properties of the storage layer\<close>

lemma mock_content_new [simp]: "mock_content mock_flash_new = (\<lambda>_. erased_sector)"
proof
  show "mock_content mock_flash_new r = erased_sector" for r
    by (cases r) (simp_all add: mock_content_def mock_flash_new_def)
qed

lemma mock_healthy_new [simp]: "mock_healthy mock_flash_new"
  by (simp add: mock_healthy_def mock_flash_new_def)

lemma blank_pair [simp]:
  "ab_latest crc ab (\<lambda>_. erased_sector) = None"
  "ab_max_seq crc ab (\<lambda>_. erased_sector) = 0"
  "ab_inv crc ab (\<lambda>_. erased_sector) \<longleftrightarrow> ab_a ab \<noteq> ab_b ab"
  by (simp_all add: ab_defs ab_inv_def)

text \<open>C27: power-fail safety of a record update. Whatever flash keeps the \<open>flash_store\<close> contract, if
  power is lost after any of the flash operations of \<^verbatim>\<open>AbPair::write\<close> (a payload that fits one
  page, as all persisted payloads do), the next \<^verbatim>\<open>read_latest\<close> returns the value the pair had
  before or the new payload, never anything else.\<close>

theorem ab_write_power_safe:
  assumes "flash_store fo content" and "ab_inv crc ab (content f)"
    and "ab_max_seq crc ab (content f) \<noteq> - 1" and "length payload \<le> 240"
    and "ab_write fo crc ab f payload = (Inr (), f')"
    and "g \<in> set (ab_write_states fo crc ab f payload)"
    and "read_latest fo crc ab g = (Inr v, g')"
  shows "v = ab_latest crc ab (content f) \<or> v = Some payload"
  using flash_store.ab_write_atomic [OF assms(1,6,4,5,2,3)]
    flash_store.read_latest_spec(3) [OF assms(1,7)] by simp

theorem ab_write_power_safe_witness:
  "\<exists>f' g g' v. ab_write mock_ops (\<lambda>_. 0) CONFIG mock_flash_new [1, 2] = (Inr (), f')
     \<and> g \<in> set (ab_write_states mock_ops (\<lambda>_. 0) CONFIG mock_flash_new [1, 2])
     \<and> read_latest mock_ops (\<lambda>_. 0) CONFIG g = (Inr v, g') \<and> (v = None \<or> v = Some [1, 2])"
proof -
  let ?f = mock_flash_new and ?crc = "\<lambda>_. 0 :: u32"
  obtain f' where f': "ab_write mock_ops ?crc CONFIG ?f [1, 2] = (Inr (), f')" "mock_healthy f'"
    using mock.ab_write_healthy [of ?f "[1, 2]"] by (auto simp: HEADER_def SECTOR_LEN_def)
  have "f' \<in> set (ab_write_states mock_ops ?crc CONFIG ?f [1, 2])"
    using last_in_set [of "ab_write_states mock_ops ?crc CONFIG ?f [1, 2]"] f'(1)
    by (simp add: last_ab_write_states) (simp add: ab_write_states_def)
  moreover obtain v g' where "read_latest mock_ops ?crc CONFIG f' = (Inr v, g')"
    using mock.read_latest_healthy [OF f'(2)] by blast
  ultimately show ?thesis
    using f' ab_write_power_safe [OF mock.flash_store_axioms _ _ _ f'(1)] by fastforce
qed

text \<open>A write on a flash that does not fail reports success, and the next read returns exactly
  the payload written (the sequence numbers not being exhausted).\<close>

lemma ab_write_then_read_latest:
  assumes "reliable_flash fo content healthy" and "healthy f" and "ab_a ab \<noteq> ab_b ab"
    and "ab_max_seq crc ab (content f) \<noteq> - 1" and "HEADER + length payload + 4 \<le> SECTOR_LEN"
  shows "\<exists>f1 f2. ab_write fo crc ab f payload = (Inr (), f1)
    \<and> read_latest fo crc ab f1 = (Inr (Some payload), f2)"
proof -
  from assms(1) have fs: "flash_store fo content" by (simp add: reliable_flash_def)
  obtain f1 where f1: "ab_write fo crc ab f payload = (Inr (), f1)" "healthy f1"
    using reliable_flash.ab_write_healthy [OF assms(1,2,5)] by blast
  with flash_store.ab_write_latest(1) [OF fs _ assms(3,4)]
    reliable_flash.read_latest_healthy [OF assms(1)] show ?thesis by metis
qed

text \<open>C28: a write that fails part-way, at whatever read, erase or program operation, touches no sector but the
  stale copy it was about to replace, and a later read returns the previous value; the one exception
  is that the failed operation itself changed the stale copy into a record with a matching CRC, in
  which case the value of that record may be returned.\<close>

theorem ab_write_failure_keeps_latest:
  assumes "flash_store fo content" and "ab_inv crc ab (content f)"
    and "ab_write fo crc ab f payload = (Inl e, f')" and "read_latest fo crc ab f' = (Inr v, g)"
  shows "(\<forall>r. r \<noteq> ab_target crc ab (content f) \<longrightarrow> content f' r = content f r)
    \<and> (v = ab_latest crc ab (content f)
       \<or> content f' (ab_target crc ab (content f)) \<noteq> content f (ab_target crc ab (content f))
         \<and> (\<exists>seq p. parse_record crc (content f' (ab_target crc ab (content f))) = Some (seq, p) \<and> v = Some p))"
proof -
  let ?t = "ab_target crc ab (content f)"
  have fr: "content f' r = content f r" if "r \<noteq> ?t" for r using flash_store.ab_write_frame(1) [OF assms(1,3) that] .
  then have u: "content f' = (content f)(?t := content f' ?t)" by (auto simp: fun_eq_iff)
  have v: "v = ab_latest crc ab (content f')" using flash_store.read_latest_spec(3) [OF assms(1,4)] by simp
  have "v = ab_latest crc ab (content f) \<or> (\<exists>seq p. parse_record crc (content f' ?t) = Some (seq, p) \<and> v = Some p)"
    using ab_latest_any [OF assms(2), of "content f' ?t"] unfolding v by (simp flip: u)
  moreover have "v = ab_latest crc ab (content f)" if "content f' ?t = content f ?t"
    using v u that by simp
  ultimately show ?thesis using fr by blast
qed

lemma ab_write_erase_fault:
  assumes "erase_fault f" and "read_fault f = None" and "HEADER + length payload + 4 \<le> SECTOR_LEN"
  shows "ab_write mock_ops crc ab f payload = (Inl Flash, f)"
  using assms by (simp add: ab_write_def write_record_def read_record_def mock_read_def mock_erase_def Let_def)

lemma read_latest_mock:
  assumes "read_fault f = None"
  shows "read_latest mock_ops crc ab f = (Inr (ab_latest crc ab (mock_content f)), f)"
  using assms by (simp add: read_latest_def read_record_def mock_read_def ab_latest_def ab_choose_def
      ab_record_def mock_content_def)

lemma mock_content_fault [simp]:
  "mock_content (set_erase_fault f b) = mock_content f" "mock_content (set_read_fault f r) = mock_content f"
  by (rule ext, case_tac x; simp add: mock_content_def set_erase_fault_def set_read_fault_def)+

definition twice_written :: mock_flash where
  "twice_written = snd (ab_write mock_ops (\<lambda>_. 0) CONFIG (snd (ab_write mock_ops (\<lambda>_. 0) CONFIG mock_flash_new [3])) [4])"

lemma twice_written_simps:
  "mock_healthy twice_written" "ab_inv (\<lambda>_. 0) CONFIG (mock_content twice_written)"
  "ab_latest (\<lambda>_. 0) CONFIG (mock_content twice_written) = Some [4]"
proof -
  let ?c = "\<lambda>_. 0 :: u32"
  have fits: "HEADER + length [x :: u8] + 4 \<le> SECTOR_LEN" for x by (simp add: HEADER_def SECTOR_LEN_def)
  obtain f1 where 1: "ab_write mock_ops ?c CONFIG mock_flash_new [3] = (Inr (), f1)" "mock_healthy f1"
    using mock.ab_write_healthy [OF mock_healthy_new fits] by blast
  obtain f2 where 2: "ab_write mock_ops ?c CONFIG f1 [4] = (Inr (), f2)" "mock_healthy f2"
    using mock.ab_write_healthy [OF 1(2) fits] by blast
  have t: "twice_written = f2" by (simp add: twice_written_def 1 2)
  note c1 = mock.ab_write_ok [OF 1(1)]
  have m: "ab_max_seq ?c CONFIG (mock_content f1) = 1"
    using parse_record_sector [OF c1(2), of ?c 1] c1(1) by (simp add: ab_defs CONFIG_def)
  have i: "ab_inv ?c CONFIG (mock_content f1)" using mock.ab_write_latest(2) [OF 1(1)] by simp
  show "mock_healthy twice_written" "ab_inv ?c CONFIG (mock_content twice_written)"
    "ab_latest ?c CONFIG (mock_content twice_written) = Some [4]"
    using t 2(2) mock.ab_write_latest [OF 2(1)] m i by simp_all
qed

theorem ab_write_failure_keeps_latest_witness:
  "ab_write mock_ops (\<lambda>_. 0) CONFIG (set_erase_fault twice_written True) [5] = (Inl Flash, set_erase_fault twice_written True)
   \<and> fst (read_latest mock_ops (\<lambda>_. 0) CONFIG (set_erase_fault twice_written True)) = Inr (Some [4])"
proof -
  let ?f = "set_erase_fault twice_written True" and ?crc = "\<lambda>_. 0 :: u32"
  have rf: "read_fault ?f = None" using twice_written_simps(1) by (simp add: mock_healthy_def set_erase_fault_def)
  have w: "ab_write mock_ops ?crc CONFIG ?f [5] = (Inl Flash, ?f)"
    by (rule ab_write_erase_fault) (use rf in \<open>simp_all add: set_erase_fault_def HEADER_def SECTOR_LEN_def\<close>)
  obtain v where r: "read_latest mock_ops ?crc CONFIG ?f = (Inr v, ?f)"
    using read_latest_mock [OF rf] by blast
  have "v = Some [4]"
    using ab_write_failure_keeps_latest [OF mock.flash_store_axioms _ w r] twice_written_simps(2,3) by simp
  with w r show ?thesis by simp
qed

text \<open>C29: the persisted payload types survive encoding and decoding: device configuration, wrapped
  key and trusted-time floor decode to the value that was encoded.\<close>

theorem persisted_payloads_round_trip:
  "(device_config_ok c \<longrightarrow> device_config_from_bytes (device_config_to_bytes c) = Some c)
   \<and> (key_blob_ok k \<longrightarrow> key_blob_from_bytes (key_blob_to_bytes k) = Some k)
   \<and> time_floor_from_bytes (time_floor_to_bytes t) = Some t"
  by (simp add: config_codec.dec_enc key_codec.dec_enc time_codec.dec_enc)

definition example_config :: device_config where
  "example_config = \<lparr> mode = Prod, argon2 = \<lparr> m_cost = 64, t_cost = 8, parallelism = 1 \<rparr>,
     max_retries = 10, wipe_on_lockout = True, fw_version = [0, 1, 0] \<rparr>"

definition example_blob :: key_blob where
  "example_blob = \<lparr> wrap_type = PinKek, aead_nonce = replicate 12 1, pubkey = replicate 32 2,
     ciphertext = replicate 32 3, tag = replicate 16 4, salt = replicate 16 5 \<rparr>"

theorem persisted_payloads_round_trip_witness:
  "device_config_from_bytes (device_config_to_bytes example_config) = Some example_config
   \<and> key_blob_from_bytes (key_blob_to_bytes example_blob) = Some example_blob
   \<and> time_floor_from_bytes (time_floor_to_bytes 1700000000) = Some 1700000000"
  using persisted_payloads_round_trip [of example_config example_blob 1700000000]
  by (simp add: device_config_ok_def key_blob_ok_def example_config_def example_blob_def)

text \<open>The boot-time read of the trusted-time floor fails closed. A value is only reported from a
  valid record, and "no value" only when both sectors are fully erased; anything else is an error.\<close>

lemma read_latest_fail_closed_sound:
  assumes "flash_store fo content" and "read_latest_fail_closed fo crc ab f = (Inr v, f')"
  shows "case v of
      Some p \<Rightarrow> ab_latest crc ab (content f) = Some p
    | None \<Rightarrow> content f (ab_a ab) = erased_sector \<and> content f (ab_b ab) = erased_sector"
  using flash_store.read_latest_fail_closed_spec(3,4) [OF assms] by (cases v) auto

text \<open>C30: the sequence number wraps. When the newest copy carries sequence number \<open>2\<^sup>32 - 1\<close>, a write
  that reports success is numbered 0, and the next read still returns the old value.\<close>

theorem ab_write_seq_wraps:
  assumes "flash_store fo content" and "ab_a ab \<noteq> ab_b ab"
    and "ab_record crc (content f) (ab_a ab) = Some (- 1, old)"
    and "ab_seq crc (content f) (ab_b ab) \<noteq> - 1"
    and "ab_write fo crc ab f payload = (Inr (), f')"
    and "read_latest fo crc ab f' = (Inr v, g)"
  shows "v = Some old"
proof -
  let ?c = "content f"
  have "ab_seq crc ?c (ab_b ab) < - 1" using assms(4) by (metis max_word_max order_le_imp_less_or_eq)
  then have t: "ab_target crc ab ?c = ab_b ab" and m: "ab_max_seq crc ab ?c + 1 = 0"
    using assms(3) by (auto simp: ab_target_def ab_max_seq_def ab_seq_def unwrap_or_def max_def)
  note w = flash_store.ab_write_ok [OF assms(1,5)]
  have "content f' = ?c(ab_b ab := record_sector crc 0 payload)" using w(1) by (simp add: t m)
  then have "ab_latest crc ab (content f') = Some old"
    using assms(2,3) parse_record_sector [OF w(2)] by (simp add: ab_latest_def ab_choose_def ab_record_def)
  then show ?thesis using flash_store.read_latest_spec(3) [OF assms(1,6)] by simp
qed

theorem ab_write_seq_wraps_witness:
  "\<exists>f' g. ab_write mock_ops (\<lambda>_. 0) CONFIG
       (mock_flash_new\<lparr>config_a := sector_of (record_sector (\<lambda>_. 0) (- 1) [1])\<rparr>) [2] = (Inr (), f')
     \<and> read_latest mock_ops (\<lambda>_. 0) CONFIG f' = (Inr (Some [1]), g)"
proof -
  let ?crc = "\<lambda>_. 0 :: u32"
  let ?f = "mock_flash_new\<lparr>config_a := sector_of (record_sector ?crc (- 1) [1])\<rparr>"
  have len: "HEADER + length [x :: u8] + 4 \<le> SECTOR_LEN" for x by (simp add: HEADER_def SECTOR_LEN_def)
  have h: "mock_healthy ?f" by (simp add: mock_healthy_def mock_flash_new_def)
  obtain f' where w: "ab_write mock_ops ?crc CONFIG ?f [2] = (Inr (), f')" "mock_healthy f'"
    using mock.ab_write_healthy [OF h len] by blast
  obtain v g where r: "read_latest mock_ops ?crc CONFIG f' = (Inr v, g)"
    using mock.read_latest_healthy [OF w(2)] by blast
  have a: "ab_record ?crc (mock_content ?f) (ab_a CONFIG) = Some (- 1, [1])"
    using parse_record_sector [OF len] len by (simp add: ab_record_def CONFIG_def mock_content_def)
  have b: "ab_seq ?crc (mock_content ?f) (ab_b CONFIG) \<noteq> - 1"
    by (simp add: ab_seq_def ab_record_def CONFIG_def mock_content_def unwrap_or_def mock_flash_new_def)
  have "v = Some [1]"
    by (rule ab_write_seq_wraps [OF mock.flash_store_axioms _ a b w(1) r]) simp
  with w r show ?thesis by blast
qed

end
