(* ===== verification/Pin.thy ===== *)
theory Pin
  imports Storage
begin

text \<open>
  The PIN attempt counter and the failure backoff (\<^verbatim>\<open>hsm-core/src/pin.rs\<close>). The counter is a
  bit-clear tick log in its own sector: \<open>count_used\<close> counts the leading bytes that have left the
  erased state. The lemmas of locale \<open>flash_store\<close> show that a confirmed tick is never lost.
\<close>

text \<open>The loop \<^verbatim>\<open>while n < buf.len() && buf[n] != 0xFF { n += 1 }\<close>.\<close>

fun count_used :: "bytes \<Rightarrow> nat" where
  "count_used [] = 0"
| "count_used (b # bs) = (if b \<noteq> 0xFF then Suc (count_used bs) else 0)"

definition pin_count :: "'f flash_ops \<Rightarrow> 'f \<Rightarrow> (hal_error + nat) \<times> 'f" where
  "pin_count fo f =
     (case fs_read fo f PinCounter (replicate SECTOR_LEN 0xFF) of
        (Inl e, f1) \<Rightarrow> (Inl e, f1)
      | (Inr buf, f1) \<Rightarrow> (Inr (count_used buf), f1))"

definition pin_tick :: "'f flash_ops \<Rightarrow> 'f \<Rightarrow> (hal_error + nat) \<times> 'f" where
  "pin_tick fo f =
     (case pin_count fo f of
        (Inl e, f1) \<Rightarrow> (Inl e, f1)
      | (Inr n, f1) \<Rightarrow>
          (if n \<ge> SECTOR_LEN then (Inr n, f1)
           else
             let page_idx = n div PAGE_LEN; within = n mod PAGE_LEN;
                 page = (replicate PAGE_LEN 0xFF)[within := 0x00]
             in case fs_program fo f1 PinCounter (page_idx * PAGE_LEN) page of
                  (Inl e, f2) \<Rightarrow> (Inl e, f2)
                | (Inr _, f2) \<Rightarrow> (Inr (n + 1), f2)))"

definition pin_reset :: "'f flash_ops \<Rightarrow> 'f \<Rightarrow> (hal_error + unit) \<times> 'f" where
  "pin_reset fo f = fs_erase fo f PinCounter"

definition backoff_ms :: "u32 \<Rightarrow> u32" where
  "backoff_ms failed_attempts =
     (if failed_attempts \<ge> 7 then 30000 else min (push_bit (unat failed_attempts) 250) 30000)"

section \<open>The tick log\<close>

lemma count_used_le: "count_used bs \<le> length bs"
  by (induction bs) simp_all

lemma count_used_nth: "i < count_used bs \<Longrightarrow> bs ! i \<noteq> 0xFF"
proof (induction bs arbitrary: i)
  case (Cons b bs)
  then show ?case by (cases i) (auto split: if_splits)
qed simp

lemma count_used_stop: "count_used bs < length bs \<Longrightarrow> bs ! count_used bs = 0xFF"
  by (induction bs) auto

lemma count_used_geI:
  "(\<And>i. i < n \<Longrightarrow> bs ! i \<noteq> 0xFF) \<Longrightarrow> n \<le> length bs \<Longrightarrow> n \<le> count_used bs"
  by (metis count_used_le count_used_stop le_neq_implies_less linorder_not_le order_less_le_trans)

lemma count_used_eqI:
  assumes "\<And>i. i < n \<Longrightarrow> bs ! i \<noteq> 0xFF" and "n \<le> length bs" and "n < length bs \<Longrightarrow> bs ! n = 0xFF"
  shows "count_used bs = n"
proof (rule antisym)
  show "n \<le> count_used bs" using assms(1,2) by (rule count_used_geI)
  show "count_used bs \<le> n"
    using assms(3) count_used_nth [of n bs] count_used_le [of bs] by (metis not_le_imp_less order_less_le_trans)
qed

lemma count_used_erased [simp]: "count_used erased_sector = 0"
  by (rule count_used_eqI) (simp_all add: erased_sector_def SECTOR_LEN_def)

text \<open>Programming the tick page clears exactly the byte at the count.\<close>

lemma tick_program_nth:
  assumes "length sec = SECTOR_LEN" and "n < SECTOR_LEN" and "i < SECTOR_LEN"
  shows "program_bytes sec (n div PAGE_LEN * PAGE_LEN) ((replicate PAGE_LEN 0xFF)[n mod PAGE_LEN := 0x00]) ! i
    = (if i = n then 0 else sec ! i)"
proof -
  let ?off = "n div PAGE_LEN * PAGE_LEN" and ?page = "(replicate PAGE_LEN 0xFF)[n mod PAGE_LEN := 0x00] :: bytes"
  have range: "?off + length ?page \<le> length sec"
    using assms by (auto simp: PAGE_LEN_def SECTOR_LEN_def)
  have m: "n mod PAGE_LEN < PAGE_LEN" "n = ?off + n mod PAGE_LEN" by (simp_all add: PAGE_LEN_def)
  show ?thesis
  proof (cases "?off \<le> i \<and> i < ?off + PAGE_LEN")
    case True
    then have idx: "i - ?off < PAGE_LEN" and eq: "n mod PAGE_LEN = i - ?off \<longleftrightarrow> i = n"
      using m(2) by linarith+
    then have "?page ! (i - ?off) = (if i = n then 0 else 0xFF)"
      by (simp add: nth_list_update)
    with True range assms show ?thesis by (simp add: program_bytes_nth)
  next
    case False
    with m have "i \<noteq> n" by linarith
    with False range assms show ?thesis by (auto simp: program_bytes_nth)
  qed
qed

lemma count_used_tick:
  assumes "length sec = SECTOR_LEN" and "count_used sec < SECTOR_LEN"
  defines "sec' \<equiv> program_bytes sec (count_used sec div PAGE_LEN * PAGE_LEN)
      ((replicate PAGE_LEN 0xFF)[count_used sec mod PAGE_LEN := 0x00])"
  shows "Suc (count_used sec) \<le> count_used sec'"
    and "(\<And>i. count_used sec < i \<Longrightarrow> i < SECTOR_LEN \<Longrightarrow> sec ! i = 0xFF) \<Longrightarrow>
           count_used sec' = Suc (count_used sec)"
proof -
  let ?n = "count_used sec"
  note nth = tick_program_nth [OF assms(1,2)]
  have len: "length sec' = SECTOR_LEN"
    using assms(1,2) by (auto simp: sec'_def PAGE_LEN_def SECTOR_LEN_def)
  have used: "sec' ! i \<noteq> 0xFF" if "i < Suc ?n" for i
    using that nth [of i] count_used_nth [of i sec] assms(2) by (auto simp: sec'_def less_Suc_eq)
  show "Suc ?n \<le> count_used sec'"
    using used assms(2) len by (intro count_used_geI) auto
  show "count_used sec' = Suc ?n" if "\<And>i. ?n < i \<Longrightarrow> i < SECTOR_LEN \<Longrightarrow> sec ! i = 0xFF"
    using used assms(2) len nth [of "Suc ?n"] that [of "Suc ?n"]
    by (intro count_used_eqI) (auto simp: sec'_def)
qed

context flash_store
begin

abbreviation used where
  "used f \<equiv> count_used (content f PinCounter)"

lemma pin_count_spec:
  assumes "pin_count fo f = (res, f')"
  shows "content f' = content f" and "fs_device_secret fo f' = fs_device_secret fo f"
    and "res = Inr n \<Longrightarrow> n = used f"
  using assms read_frame secret_read read_ok by (fastforce simp: pin_count_def split: prod.splits sum.splits)+

lemma pin_tick_frame:
  assumes "pin_tick fo f = (res, f')"
  shows "r \<noteq> PinCounter \<Longrightarrow> content f' r = content f r"
    and "fs_device_secret fo f' = fs_device_secret fo f"
proof -
  obtain c f1 where c: "pin_count fo f = (c, f1)" by fastforce
  note spec = pin_count_spec [OF c]
  consider "f' = f1" | off page res' where "fs_program fo f1 PinCounter off page = (res', f')"
    using assms c by (auto simp: pin_tick_def Let_def split: sum.splits if_splits prod.splits)
  note frame = this
  show "content f' r = content f r" if "r \<noteq> PinCounter"
    using frame that by cases (use spec(1) program_frame in auto)
  show "fs_device_secret fo f' = fs_device_secret fo f"
    using frame by cases (use spec(2) secret_program in auto)
qed

lemma pin_tick_ok:
  assumes "pin_tick fo f = (Inr n, f')"
  shows "used f < SECTOR_LEN \<Longrightarrow> n = Suc (used f)" and "SECTOR_LEN \<le> used f \<Longrightarrow> n = used f"
    and "n \<le> used f'"
    and "(\<And>i. used f < i \<Longrightarrow> i < SECTOR_LEN \<Longrightarrow> content f PinCounter ! i = 0xFF) \<Longrightarrow> used f' = n"
proof -
  obtain f1 k where "pin_count fo f = (Inr k, f1)"
    using assms by (auto simp: pin_tick_def split: prod.splits sum.splits)
  then have c: "pin_count fo f = (Inr (used f), f1)" and f1: "content f1 = content f"
    using pin_count_spec [of f] by blast+
  have full: "n = used f \<and> content f' = content f" if "SECTOR_LEN \<le> used f"
    using assms that c f1 by (simp add: pin_tick_def)
  have step: "n = Suc (used f) \<and> content f' PinCounter = program_bytes (content f PinCounter)
      (used f div PAGE_LEN * PAGE_LEN) ((replicate PAGE_LEN 0xFF)[used f mod PAGE_LEN := 0x00])"
    if "used f < SECTOR_LEN"
    using assms that c f1 by (auto simp: pin_tick_def Let_def dest!: program_ok split: prod.splits sum.splits)
  show "used f < SECTOR_LEN \<Longrightarrow> n = Suc (used f)" and "SECTOR_LEN \<le> used f \<Longrightarrow> n = used f"
    using full step by simp_all
  show "n \<le> used f'"
    using full step count_used_tick(1) [OF content_length] by (cases "used f < SECTOR_LEN") auto
  show "used f' = n" if "\<And>i. used f < i \<Longrightarrow> i < SECTOR_LEN \<Longrightarrow> content f PinCounter ! i = 0xFF"
    using full step count_used_tick(2) [OF content_length _ that] by (cases "used f < SECTOR_LEN") auto
qed

lemma pin_reset_ok: "pin_reset fo f = (Inr u, f') \<Longrightarrow> content f' = (content f)(PinCounter := erased_sector)"
  by (simp add: pin_reset_def erase_ok)

lemma pin_reset_frame:
  assumes "pin_reset fo f = (res, f')"
  shows "r \<noteq> PinCounter \<Longrightarrow> content f' r = content f r"
    and "fs_device_secret fo f' = fs_device_secret fo f"
  using assms by (auto simp: pin_reset_def dest: erase_frame secret_erase)

end

context reliable_flash
begin

lemma pin_count_healthy:
  assumes "healthy f"
  shows "\<exists>f'. pin_count fo f = (Inr (used f), f') \<and> healthy f' \<and> content f' = content f"
  using read_healthy [OF assms, of "replicate SECTOR_LEN 0xFF" PinCounter] read_ok read_frame
  by (fastforce simp: pin_count_def)

lemma pin_tick_healthy:
  assumes "healthy f"
  shows "\<exists>n f'. pin_tick fo f = (Inr n, f') \<and> healthy f'"
proof -
  obtain f1 where 1: "pin_count fo f = (Inr (used f), f1)" "healthy f1" using pin_count_healthy [OF assms] by blast
  show ?thesis
  proof (cases "used f < SECTOR_LEN")
    case True
    then have "used f div PAGE_LEN * PAGE_LEN + PAGE_LEN \<le> SECTOR_LEN" by (auto simp: PAGE_LEN_def SECTOR_LEN_def)
    then obtain f2 where "fs_program fo f1 PinCounter (used f div PAGE_LEN * PAGE_LEN)
        ((replicate PAGE_LEN 0xFF)[used f mod PAGE_LEN := 0x00]) = (Inr (), f2)" "healthy f2"
      using program_healthy [OF 1(2), of "used f div PAGE_LEN * PAGE_LEN"
          "(replicate PAGE_LEN 0xFF)[used f mod PAGE_LEN := 0x00]" PinCounter] by auto
    with True 1 show ?thesis by (auto simp: pin_tick_def Let_def)
  qed (use 1 in \<open>auto simp: pin_tick_def\<close>)
qed

lemma pin_reset_healthy:
  assumes "healthy f"
  shows "\<exists>f'. pin_reset fo f = (Inr (), f') \<and> healthy f' \<and> content f' = (content f)(PinCounter := erased_sector)"
  using erase_healthy [OF assms, of PinCounter] erase_ok by (fastforce simp: pin_reset_def)

end

section \<open>Properties of the counter\<close>

text \<open>A confirmed tick is never lost. When \<^verbatim>\<open>tick\<close> reports the new attempt count, any later read of
  the counter reports at least that count (on any flash that keeps the contract), and the count
  grew by one unless the sector is full.\<close>

lemma pin_tick_is_counted:
  assumes "flash_store fo content" and "pin_tick fo f = (Inr n, f1)" and "pin_count fo f1 = (Inr m, f2)"
  shows "n \<le> m \<and> n = (if count_used (content f PinCounter) < SECTOR_LEN
      then Suc (count_used (content f PinCounter)) else SECTOR_LEN)"
proof -
  have "count_used (content f PinCounter) \<le> SECTOR_LEN"
    using count_used_le [of "content f PinCounter"] flash_store.content_length [OF assms(1)] by simp
  then show ?thesis
    using flash_store.pin_tick_ok(1-3) [OF assms(1,2)] flash_store.pin_count_spec(3) [OF assms(1,3)] by auto
qed

text \<open>The backoff schedule is \<open>min (250 \<sqdot> 2\<^sup>n) 30000\<close> milliseconds for every number of failures: the
  shift never overflows and the delay never decreases or exceeds 30 s.\<close>

lemma backoff_schedule:
  "unat (backoff_ms n) = min (250 * 2 ^ unat n) 30000"
proof (cases "n \<ge> 7")
  case True
  then have "7 \<le> unat n" by (simp add: word_le_nat_alt)
  then have "(2 :: nat) ^ 7 \<le> 2 ^ unat n" by (rule power_increasing) simp
  then have "30000 \<le> 250 * (2 :: nat) ^ unat n" by simp
  with True show ?thesis by (simp add: backoff_ms_def)
next
  case False
  then have "unat n < 7" by (simp add: word_le_nat_alt)
  then have "unat n \<in> {0, 1, 2, 3, 4, 5, 6}" by auto
  with False show ?thesis
    by (auto simp: backoff_ms_def min_def push_bit_eq_mult word_le_nat_alt unat_word_ariths)
qed

end
