(* ===== verification/Clock.thy ===== *)
theory Clock
  imports Hal TestHal
begin

text \<open>
  Wall-clock time over the monotonic timer (\<^verbatim>\<open>hsm-core/src/clock.rs\<close>). The host supplies Unix time;
  \<open>clock_set\<close> bounds every later resync against the anchor the first accepted value established.
  \<open>clock_run\<close> is the set of clocks reachable by any sequence of \<^verbatim>\<open>set\<close> calls while the monotonic
  timer advances, and \<open>clock_inv\<close> its invariant.
\<close>

definition MAX_DRIFT_SECS :: i64 where
  "MAX_DRIFT_SECS = 900"

definition MIN_PLAUSIBLE_UNIX :: i64 where
  "MIN_PLAUSIBLE_UNIX = 1700000000"

definition MAX_PLAUSIBLE_UNIX :: i64 where
  "MAX_PLAUSIBLE_UNIX = MIN_PLAUSIBLE_UNIX + 100 * 365 * 24 * 3600"

datatype rejected = Rejected

record clock =
  epoch_unix :: "i64 option"
  epoch_mono_us :: u64
  trust_anchor_unix :: "i64 option"
  trust_anchor_mono_us :: u64

definition clock_new :: clock where
  "clock_new = \<lparr> epoch_unix = None, epoch_mono_us = 0, trust_anchor_unix = None,
     trust_anchor_mono_us = 0 \<rparr>"

text \<open>\<^verbatim>\<open>unix_seconds.checked_sub(expected)\<close> farther than \<^verbatim>\<open>MAX_DRIFT_SECS\<close>, or overflowing.\<close>

definition too_far :: "i64 \<Rightarrow> i64 \<Rightarrow> bool" where
  "too_far unix_seconds expected =
     (case i64_checked_sub unix_seconds expected of
        Some delta \<Rightarrow> i64_unsigned_abs delta > MAX_DRIFT_SECS
      | None \<Rightarrow> True)"

definition clock_set :: "'m mono_ops \<Rightarrow> 'm \<Rightarrow> clock \<Rightarrow> i64 \<Rightarrow> (rejected + bool) \<times> clock" where
  "clock_set mo m c unix_seconds =
     (let reject = (case trust_anchor_unix c of
            None \<Rightarrow> \<not> (i64_le MIN_PLAUSIBLE_UNIX unix_seconds \<and> i64_le unix_seconds MAX_PLAUSIBLE_UNIX)
          | Some anchor \<Rightarrow>
              let elapsed_us = u64_saturating_sub (now_micros mo m) (trust_anchor_mono_us c);
                  expected = i64_saturating_add anchor (elapsed_us div 1000000)
              in too_far unix_seconds expected)
      in if reject then (Inl Rejected, c)
         else
           let had = epoch_unix c \<noteq> None;
               c1 = (if trust_anchor_unix c = None
                     then c\<lparr>trust_anchor_unix := Some unix_seconds, trust_anchor_mono_us := now_micros mo m\<rparr>
                     else c)
           in (Inr had, c1\<lparr>epoch_unix := Some unix_seconds, epoch_mono_us := now_micros mo m\<rparr>))"

definition trusted_now :: "'m mono_ops \<Rightarrow> 'm \<Rightarrow> clock \<Rightarrow> i64 option" where
  "trusted_now mo m c =
     (case trust_anchor_unix c of
        None \<Rightarrow> None
      | Some anchor \<Rightarrow>
          let elapsed_us = u64_saturating_sub (now_micros mo m) (trust_anchor_mono_us c)
          in Some (i64_saturating_add anchor (elapsed_us div 1000000)))"

text \<open>The addition of \<^verbatim>\<open>now_unix\<close> is a plain one: it panics on overflow.\<close>

definition now_unix :: "'m mono_ops \<Rightarrow> 'm \<Rightarrow> clock \<Rightarrow> i64 option option" where
  "now_unix mo m c =
     (case epoch_unix c of
        None \<Rightarrow> Some None
      | Some epoch \<Rightarrow>
          let elapsed_us = u64_saturating_sub (now_micros mo m) (epoch_mono_us c)
          in map_option Some (i64_checked_add epoch (elapsed_us div 1000000)))"

definition clock_is_set :: "clock \<Rightarrow> bool" where
  "clock_is_set c \<longleftrightarrow> epoch_unix c \<noteq> None"

section \<open>Elapsed seconds\<close>

text \<open>The seconds from one reading of the monotonic timer to a later one.\<close>

definition elapsed :: "u64 \<Rightarrow> u64 \<Rightarrow> int" where
  "elapsed now since = int ((unat now - unat since) div 1000000)"

lemma elapsed_bounds: "0 \<le> elapsed t s" "elapsed t s < 2 ^ 45"
proof -
  have "unat t < 2 ^ LENGTH(64)" by (rule unsigned_less)
  then have "unat t - unat s < 2 ^ 64" by simp
  then have "(unat t - unat s) div 1000000 \<le> (2 ^ 64 - 1) div 1000000" by (intro div_le_mono) linarith
  then show "elapsed t s < 2 ^ 45" by (simp add: elapsed_def)
qed (simp add: elapsed_def)

lemma elapsed_refl [simp]: "elapsed t t = 0"
  by (simp add: elapsed_def)

lemma elapsed_split:
  assumes "r \<le> s" and "s \<le> t"
  shows "elapsed s r + elapsed t s \<le> elapsed t r" and "elapsed t r \<le> elapsed s r + elapsed t s + 1"
proof -
  define a b where "a = unat s - unat r" and "b = unat t - unat s"
  have "unat t - unat r = a + b" using assms by (simp add: a_def b_def word_le_nat_alt)
  moreover have "(a + b) div 1000000 \<le> a div 1000000 + b div 1000000 + 1"
    and "a div 1000000 + b div 1000000 \<le> (a + b) div (1000000 :: nat)" by linarith+
  ultimately show "elapsed s r + elapsed t s \<le> elapsed t r" and "elapsed t r \<le> elapsed s r + elapsed t s + 1"
    by (simp_all add: elapsed_def a_def b_def)
qed

lemma sint_elapsed: "sint (u64_saturating_sub t s div 1000000 :: i64) = elapsed t s"
proof -
  have u: "unat (u64_saturating_sub t s) = unat t - unat s"
    by (auto simp: u64_saturating_sub_def word_less_nat_alt unat_sub_if')
  have "uint (u64_saturating_sub t s div 1000000) = elapsed t s"
    by (simp add: uint_div_distrib uint_nat [of "u64_saturating_sub t s"] u elapsed_def zdiv_int)
  moreover have "i64_in_range (elapsed t s)"
    using elapsed_bounds [of t s] by (simp add: i64_in_range_def)
  ultimately show ?thesis by (metis sint_word_of_int64 word_of_int_uint)
qed

lemma too_far_iff:
  assumes "i64_in_range (sint u - sint e)"
  shows "too_far u e \<longleftrightarrow> \<bar>sint u - sint e\<bar> > 900"
proof -
  obtain d where d: "i64_checked_sub u e = Some d" using assms by (simp add: i64_checked_sub_def)
  note s = sint_i64_checked_sub [OF d]
  have "uint (word_of_int \<bar>sint d\<bar> :: u64) = \<bar>sint d\<bar>"
    using sint_range64 [of d] by (simp add: unsigned_of_int take_bit_int_eq_self_iff)
  then have "uint (i64_unsigned_abs d) = \<bar>sint u - sint e\<bar>" by (simp add: i64_unsigned_abs_def s)
  then show ?thesis by (simp add: too_far_def d word_less_def MAX_DRIFT_SECS_def)
qed

lemma too_far_near: "\<not> too_far u e \<Longrightarrow> \<bar>sint u - sint e\<bar> \<le> 900"
  using too_far_iff [of u e] by (cases "i64_in_range (sint u - sint e)")
    (auto simp: too_far_def i64_checked_sub_def)

lemma sint_plausible [simp]:
  "sint MIN_PLAUSIBLE_UNIX = 1700000000" "sint MAX_PLAUSIBLE_UNIX = 4853600000"
  by (simp_all add: MIN_PLAUSIBLE_UNIX_def MAX_PLAUSIBLE_UNIX_def)

section \<open>The clock invariant\<close>

definition clock_inv :: "u64 \<Rightarrow> clock \<Rightarrow> bool" where
  "clock_inv now c \<longleftrightarrow>
     (case (trust_anchor_unix c, epoch_unix c) of
        (None, None) \<Rightarrow> True
      | (Some anchor, Some epoch) \<Rightarrow>
          trust_anchor_mono_us c \<le> epoch_mono_us c \<and> epoch_mono_us c \<le> now
          \<and> 1700000000 \<le> sint anchor \<and> sint anchor \<le> 4853600000
          \<and> \<bar>sint epoch - (sint anchor + elapsed (epoch_mono_us c) (trust_anchor_mono_us c))\<bar> \<le> 900
      | _ \<Rightarrow> False)"

lemma clock_inv_new [simp]: "clock_inv now clock_new"
  by (simp add: clock_inv_def clock_new_def)

lemma clock_inv_mono: "clock_inv now c \<Longrightarrow> now \<le> now' \<Longrightarrow> clock_inv now' c"
  by (auto simp: clock_inv_def split: option.splits)

lemma sint_expected:
  assumes "1700000000 \<le> sint anchor" and "sint anchor \<le> 4853600000"
  shows "sint (i64_saturating_add anchor (u64_saturating_sub t s div 1000000)) = sint anchor + elapsed t s"
  using assms elapsed_bounds [of t s]
  by (simp add: i64_saturating_add_def sint_elapsed sint_i64_clamp i64_in_range_def)

lemma clock_set_inv:
  assumes "clock_inv (now_micros mo m) c" and "clock_set mo m c u = (res, c')"
  shows "clock_inv (now_micros mo m) c'"
  using assms
  by (auto simp: clock_set_def clock_inv_def Let_def i64_le_def sint_expected
      dest!: too_far_near split: if_splits option.splits)

lemma clock_set_Inl: "clock_set mo m c u = (Inl e, c') \<Longrightarrow> c' = c"
  by (auto simp: clock_set_def Let_def split: if_splits)

lemma clock_set_Inr:
  assumes "clock_set mo m c u = (Inr had, c')"
  shows "had = clock_is_set c" and "epoch_unix c' = Some u" and "epoch_mono_us c' = now_micros mo m"
    and "trust_anchor_unix c \<noteq> None \<Longrightarrow> trust_anchor_unix c' = trust_anchor_unix c
           \<and> trust_anchor_mono_us c' = trust_anchor_mono_us c"
    and "trust_anchor_unix c = None \<Longrightarrow> trust_anchor_unix c' = Some u \<and> trust_anchor_mono_us c' = now_micros mo m"
  using assms by (auto simp: clock_set_def clock_is_set_def Let_def split: if_splits)

lemma clock_inv_set_iff: "clock_inv now c \<Longrightarrow> trust_anchor_unix c = None \<longleftrightarrow> \<not> clock_is_set c"
  by (auto simp: clock_inv_def clock_is_set_def split: option.splits)

text \<open>Under the invariant \<^verbatim>\<open>now_unix\<close> does not overflow.\<close>

lemma now_unix_total:
  assumes "clock_inv (now_micros mo m) c"
  shows "now_unix mo m c \<noteq> None"
proof (cases "epoch_unix c")
  case (Some epoch)
  with assms have "- 1000 \<le> sint epoch" "sint epoch \<le> 2 ^ 46"
    using elapsed_bounds [of "epoch_mono_us c" "trust_anchor_mono_us c"]
    by (auto simp: clock_inv_def split: option.splits)
  with Some show ?thesis
    using elapsed_bounds [of "now_micros mo m" "epoch_mono_us c"]
    by (simp add: now_unix_def Let_def i64_checked_add_def sint_elapsed i64_in_range_def)
qed (simp add: now_unix_def)

lemma now_unix_set:
  assumes "now_unix mo m c = Some (Some t)"
  shows "clock_is_set c"
  using assms by (auto simp: now_unix_def clock_is_set_def split: option.splits)

lemma now_unix_near_trusted:
  assumes "clock_inv (now_micros mo m) c" and "now_unix mo m c = Some (Some t)"
  obtains a where "trusted_now mo m c = Some a" and "sint t \<le> sint a + 900" and "sint a - 901 \<le> sint t"
proof -
  obtain anchor epoch where ae: "trust_anchor_unix c = Some anchor" "epoch_unix c = Some epoch"
    using assms by (auto simp: clock_inv_def now_unix_def split: option.splits)
  let ?now = "now_micros mo m" and ?r = "trust_anchor_mono_us c" and ?s = "epoch_mono_us c"
  have inv: "?r \<le> ?s" "?s \<le> ?now" "1700000000 \<le> sint anchor" "sint anchor \<le> 4853600000"
    "\<bar>sint epoch - (sint anchor + elapsed ?s ?r)\<bar> \<le> 900"
    using assms(1) ae by (simp_all add: clock_inv_def)
  have "sint t = sint epoch + elapsed ?now ?s"
    using assms(2) ae by (auto simp: now_unix_def Let_def sint_elapsed dest: sint_i64_checked_add)
  moreover obtain a where "trusted_now mo m c = Some a" and "sint a = sint anchor + elapsed ?now ?r"
    using ae inv by (simp add: trusted_now_def Let_def sint_expected)
  ultimately show ?thesis
    using that [of a] inv elapsed_split [OF inv(1,2)] by linarith
qed

section \<open>Reachable clocks\<close>

text \<open>Any sequence of \<^verbatim>\<open>set\<close> calls, accepted or rejected, interleaved with the passage of time.\<close>

inductive clock_run :: "'m mono_ops \<Rightarrow> 'm \<Rightarrow> clock \<Rightarrow> bool" for mo where
  fresh: "clock_run mo m clock_new"
| advance: "clock_run mo m c \<Longrightarrow> now_micros mo m \<le> now_micros mo m' \<Longrightarrow> clock_run mo m' c"
| resync: "clock_run mo m c \<Longrightarrow> clock_set mo m c u = (res, c') \<Longrightarrow> clock_run mo m c'"

lemma clock_run_inv: "clock_run mo m c \<Longrightarrow> clock_inv (now_micros mo m) c"
  by (induction rule: clock_run.induct) (auto intro: clock_inv_mono clock_set_inv)

text \<open>C31: repeated resyncs cannot ratchet the clock. After any sequence of \<^verbatim>\<open>set\<close> calls over a
  non-decreasing monotonic timer, reading the time does not panic, and a time that is read lies at
  most 900 s ahead of and 901 s behind (one second of rounding) the time derived from the boot
  anchor alone.\<close>

theorem clock_drift_bounded:
  assumes "clock_run mo m c"
  shows "case now_unix mo m c of
      None \<Rightarrow> False
    | Some None \<Rightarrow> trusted_now mo m c = None
    | Some (Some t) \<Rightarrow> (\<exists>a. trusted_now mo m c = Some a \<and> sint t \<le> sint a + 900 \<and> sint a - 901 \<le> sint t)"
proof -
  note inv = clock_run_inv [OF assms]
  have "trusted_now mo m c = None" if "now_unix mo m c = Some None"
    using that inv by (auto simp: now_unix_def trusted_now_def clock_inv_def Let_def split: option.splits)
  then show ?thesis
    using now_unix_total [OF inv] now_unix_near_trusted [OF inv] by (fastforce split: option.splits)
qed

definition mock_at :: "u64 \<Rightarrow> mock_clock" where
  "mock_at t = \<lparr> mc_micros = t \<rparr>"

lemmas clock_example = clock_set_def clock_new_def now_unix_def trusted_now_def clock_is_set_def mock_at_def
  too_far_def MIN_PLAUSIBLE_UNIX_def MAX_PLAUSIBLE_UNIX_def MAX_DRIFT_SECS_def arith_ops Let_def

theorem clock_drift_bounded_witness:
  "\<exists>c t a. now_unix mock_clock_ops (mock_at 5000000) c = Some (Some t) \<and> trusted_now mock_clock_ops (mock_at 5000000) c = Some a
     \<and> sint t = 1700000905 \<and> sint a = 1700000005 \<and> sint t \<le> sint a + 900"
proof -
  let ?c1 = "snd (clock_set mock_clock_ops (mock_at 0) clock_new 1700000000)"
  let ?c2 = "snd (clock_set mock_clock_ops (mock_at 5000000) ?c1 1700000905)"
  have "clock_run mock_clock_ops (mock_at 0) ?c1" by (rule resync [OF fresh]) (rule surjective_pairing)
  then have "clock_run mock_clock_ops (mock_at 5000000) ?c1" by (rule advance) (simp add: mock_at_def)
  then have r: "clock_run mock_clock_ops (mock_at 5000000) ?c2" by (rule resync) (rule surjective_pairing)
  have "now_unix mock_clock_ops (mock_at 5000000) ?c2 = Some (Some 1700000905)" and "trusted_now mock_clock_ops (mock_at 5000000) ?c2 = Some 1700000005"
    by (simp_all add: clock_example)
  with clock_drift_bounded [OF r] show ?thesis by (intro exI [of _ ?c2]) auto
qed

text \<open>The trust anchor is immutable. Once set, no \<^verbatim>\<open>set\<close> call, whatever value it carries and
  whether it is accepted or rejected, changes the time derived from the anchor.\<close>

lemma trust_anchor_immutable:
  assumes "clock_run mo m c" and "clock_is_set c" and "clock_set mo m c u = (res, c')"
  shows "trusted_now mo m' c' = trusted_now mo m' c"
proof (cases res)
  case (Inl e)
  with assms(3) show ?thesis using clock_set_Inl by metis
next
  case (Inr had)
  have "trust_anchor_unix c \<noteq> None"
    using clock_inv_set_iff [OF clock_run_inv [OF assms(1)]] assms(2) by simp
  with clock_set_Inr(4) [of mo m c u had c'] Inr assms(3) show ?thesis
    by (auto simp: trusted_now_def)
qed

end
