(* ===== verification/Hex.thy ===== *)
theory Hex
  imports Prelude
begin

text \<open>
  Hexadecimal text: the helpers \<^verbatim>\<open>hex_encode\<close>, \<^verbatim>\<open>hex_decode\<close> and \<^verbatim>\<open>hexval\<close> of
  \<^verbatim>\<open>hsm-core/src/dispatch.rs\<close>, used for the serial number and for host-supplied entropy.
\<close>

definition hex_digits :: string where
  "hex_digits = ''0123456789abcdef''"

fun hex_encode :: "bytes \<Rightarrow> string" where
  "hex_encode [] = []"
| "hex_encode (x # b) = hex_digits ! unat (drop_bit 4 x) # hex_digits ! unat (x AND 0xF) # hex_encode b"

definition hexval :: "u8 \<Rightarrow> u8 option" where
  "hexval c =
     (if 0x30 \<le> c \<and> c \<le> 0x39 then Some (c - 0x30)
      else if 0x61 \<le> c \<and> c \<le> 0x66 then Some (c - 0x61 + 10)
      else if 0x41 \<le> c \<and> c \<le> 0x46 then Some (c - 0x41 + 10)
      else None)"

text \<open>The loop over pairs of bytes; the parity check comes first, so a lone byte is never met.\<close>

fun hex_decode_loop :: "bytes \<Rightarrow> bytes option" where
  "hex_decode_loop (c # d # b) =
     (case hexval c of
        None \<Rightarrow> None
      | Some h \<Rightarrow>
          (case hexval d of
             None \<Rightarrow> None
           | Some l \<Rightarrow> map_option (Cons (push_bit 4 h OR l)) (hex_decode_loop b)))"
| "hex_decode_loop b = Some []"

definition hex_decode :: "string \<Rightarrow> bytes option" where
  "hex_decode s = (if length s mod 2 \<noteq> 0 then None else hex_decode_loop (as_bytes s))"

lemma length_hex_encode [simp]: "length (hex_encode b) = 2 * length b"
  by (induction b) simp_all

lemma hexval_digit: "n < 16 \<Longrightarrow> hexval (of_char (hex_digits ! n)) = Some (of_nat n)"
proof -
  assume "n < 16"
  then have "n \<in> set [0..<16]" by simp
  moreover have "list_all (\<lambda>n. hexval (of_char (hex_digits ! n)) = Some (of_nat n)) [0..<16]"
    by code_simp
  ultimately show ?thesis by (simp only: list_all_iff)
qed

lemma u8_nibbles:
  "unat (drop_bit 4 (b :: u8)) < 16" "unat (b AND 0xF) < 16" "push_bit 4 (drop_bit 4 b) OR (b AND 0xF) = b"
proof -
  have m: "b AND 0xF = take_bit 4 b" by (simp add: take_bit_eq_mask mask_eq_exp_minus_1)
  have "unat b < 2 ^ LENGTH(8)" by (rule unsigned_less)
  then show "unat (drop_bit 4 b) < 16" by (simp add: drop_bit_eq_div unat_div)
  have "unat (take_bit 4 b) = take_bit 4 (unat b)" by (simp add: unsigned_take_bit_eq)
  also have "\<dots> < 2 ^ 4" by (rule take_bit_nat_less_exp)
  finally show "unat (b AND 0xF) < 16" by (simp add: m)
  show "push_bit 4 (drop_bit 4 b) OR (b AND 0xF) = b"
    unfolding m by (rule bit_word_eqI) (auto simp: bit_simps)
qed

lemma hex_decode_loop_encode: "hex_decode_loop (as_bytes (hex_encode b)) = Some b"
proof (induction b)
  case (Cons x b)
  then show ?case
    using hexval_digit [OF u8_nibbles(1) [of x]] hexval_digit [OF u8_nibbles(2) [of x]] u8_nibbles(3) [of x]
    by (simp add: as_bytes_def)
qed simp

lemma hex_decode_encode [simp]: "hex_decode (hex_encode b) = Some b"
  by (simp add: hex_decode_def hex_decode_loop_encode)

lemma hex_decode_length: "hex_decode s = Some b \<Longrightarrow> length s = 2 * length b"
proof -
  have "hex_decode_loop bs = Some b \<Longrightarrow> length bs mod 2 = 0 \<Longrightarrow> length bs = 2 * length b" for bs
    by (induction bs arbitrary: b rule: hex_decode_loop.induct) (auto split: option.splits)
  then show "hex_decode s = Some b \<Longrightarrow> length s = 2 * length b"
    by (fastforce simp: hex_decode_def split: if_splits)
qed

text \<open>Hexadecimal encoding round-trips, and a text that decodes has exactly two digits per
  byte.\<close>

lemma hex_round_trip:
  "hex_decode (hex_encode b) = Some b \<and> (hex_decode s = Some c \<longrightarrow> length s = 2 * length c)"
  using hex_decode_length by simp

end
