(* ===== verification/Externs.thy ===== *)
theory Externs
  imports Prelude Hex
begin

text \<open>
  The third-party crates the sources call, as a record of functions: \<^verbatim>\<open>crc\<close>, \<^verbatim>\<open>sha2\<close>, \<^verbatim>\<open>rand_chacha\<close>,
  \<^verbatim>\<open>ed25519-dalek\<close>, \<^verbatim>\<open>hkdf\<close>, \<^verbatim>\<open>argon2\<close>, \<^verbatim>\<open>chacha20poly1305\<close>, \<^verbatim>\<open>base64\<close> and the NIST curve crates. None of
  them is given a definition: every operation of the model takes the record as an argument, and a
  theorem that needs a documented behaviour of a crate has it as a hypothesis named below. A signing
  key is represented by the 32-byte seed it is made from.
\<close>

record 'r externs =
  crc32 :: "bytes \<Rightarrow> u32"
  sha512 :: "bytes \<Rightarrow> bytes"
  chacha_from_seed :: "bytes \<Rightarrow> 'r"
  chacha_fill :: "'r \<Rightarrow> nat \<Rightarrow> bytes \<times> 'r"
  chacha_next_u32 :: "'r \<Rightarrow> u32 \<times> 'r"
  chacha_next_u64 :: "'r \<Rightarrow> u64 \<times> 'r"
  ed_public :: "bytes \<Rightarrow> bytes"
  ed_sign :: "bytes \<Rightarrow> bytes \<Rightarrow> bytes"
  ed_point :: "bytes \<Rightarrow> bool"
  ed_verify :: "bytes \<Rightarrow> bytes \<Rightarrow> bytes \<Rightarrow> bool"
  hkdf_sha256 :: "bytes option \<Rightarrow> bytes \<Rightarrow> bytes \<Rightarrow> nat \<Rightarrow> bytes"
  argon2_params_ok :: "u32 \<Rightarrow> u32 \<Rightarrow> u32 \<Rightarrow> bool"
  argon2id :: "u32 \<Rightarrow> u32 \<Rightarrow> u32 \<Rightarrow> bytes \<Rightarrow> bytes \<Rightarrow> bytes option"
  aead_seal :: "bytes \<Rightarrow> bytes \<Rightarrow> bytes \<Rightarrow> bytes \<Rightarrow> bytes \<times> bytes"
  aead_open :: "bytes \<Rightarrow> bytes \<Rightarrow> bytes \<Rightarrow> bytes \<Rightarrow> bytes \<Rightarrow> bytes option"
  base64_encode :: "bytes \<Rightarrow> string"
  base64_decode :: "string \<Rightarrow> bytes option"
  p256_point :: "bytes \<Rightarrow> bool"
  p384_point :: "bytes \<Rightarrow> bool"
  p521_point :: "bytes \<Rightarrow> bool"

section \<open>Documented behaviour of the crates\<close>

text \<open>Output lengths: every function fills the array it is given.\<close>

definition lengths_ok :: "'r externs \<Rightarrow> bool" where
  "lengths_ok X \<longleftrightarrow>
     (\<forall>r n. length (fst (chacha_fill X r n)) = n)
     \<and> (\<forall>s. length (ed_public X s) = 32) \<and> (\<forall>s m. length (ed_sign X s m) = 64)
     \<and> (\<forall>k n a p. length (fst (aead_seal X k n a p)) = length p \<and> length (snd (aead_seal X k n a p)) = 16)"

text \<open>Decryption under the same key, nonce and associated data inverts encryption.\<close>

definition aead_correct :: "'r externs \<Rightarrow> bool" where
  "aead_correct X \<longleftrightarrow> (\<forall>k n a p c t. aead_seal X k n a p = (c, t) \<longrightarrow> aead_open X k n a c t = Some p)"

text \<open>A signature verifies under the public key of its seed.\<close>

definition ed_correct :: "'r externs \<Rightarrow> bool" where
  "ed_correct X \<longleftrightarrow> (\<forall>s m. ed_point X (ed_public X s) \<and> ed_verify X (ed_public X s) m (ed_sign X s m))"

definition base64_correct :: "'r externs \<Rightarrow> bool" where
  "base64_correct X \<longleftrightarrow> (\<forall>b. base64_decode X (base64_encode X b) = Some b)"

section \<open>A concrete instance\<close>

text \<open>
  Plain functions with the documented interface, to evaluate the model on concrete inputs and to
  show that the hypotheses above can hold together. The cipher leaves the text as it is and its
  tag is the first half of the key; the generator counts; text encoding is
  hexadecimal.
\<close>

definition sample_externs :: "nat externs" where
  "sample_externs = \<lparr> crc32 = (\<lambda>_. 0), sha512 = (\<lambda>b. replicate 64 (of_nat (length b))),
     chacha_from_seed = (\<lambda>_. 0), chacha_fill = (\<lambda>r n. (replicate n (of_nat r), Suc r)),
     chacha_next_u32 = (\<lambda>r. (of_nat r, Suc r)), chacha_next_u64 = (\<lambda>r. (of_nat r, Suc r)),
     ed_public = (\<lambda>s. take 32 (s @ replicate 32 0)), ed_sign = (\<lambda>s m. take 64 (s @ m @ replicate 64 0)),
     ed_point = (\<lambda>_. True), ed_verify = (\<lambda>_ _ _. True),
     hkdf_sha256 = (\<lambda>salt ikm info n. take n (ikm @ replicate n 0)),
     argon2_params_ok = (\<lambda>m t p. 8 * p \<le> m \<and> 0 < t \<and> 0 < p),
     argon2id = (\<lambda>m t p pin salt. Some (take 32 (pin @ salt @ replicate 32 0))),
     aead_seal = (\<lambda>k n a p. (p, take 16 (k @ replicate 16 0))),
     aead_open = (\<lambda>k n a c t. if t = take 16 (k @ replicate 16 0) then Some c else None),
     base64_encode = hex_encode, base64_decode = hex_decode,
     p256_point = (\<lambda>_. True), p384_point = (\<lambda>_. True), p521_point = (\<lambda>_. True) \<rparr>"

lemma sample_externs_ok [simp]:
  "lengths_ok sample_externs" "aead_correct sample_externs" "ed_correct sample_externs" "base64_correct sample_externs"
  by (simp_all add: sample_externs_def lengths_ok_def aead_correct_def ed_correct_def base64_correct_def min_def)

end
