(* ===== verification/SshWire.thy ===== *)
theory SshWire
  imports Externs
begin

text \<open>
  SSH wire format and the \<^verbatim>\<open>authorized_keys\<close> parser (\<^verbatim>\<open>hsm-core/src/sshwire.rs\<close>). \<open>W\<close> is the width of
  \<^verbatim>\<open>usize\<close>: 32 on the RP2350, 64 on the host. A function that may panic returns an option; the only
  panics here are overflows of \<^verbatim>\<open>usize\<close>/\<^verbatim>\<open>u32\<close> additions. \<open>ssh_string\<close> is the wire image of one
  string, and the parsing lemmas relate what the cursor reads to it.
\<close>

section \<open>Writing\<close>

definition put_u32 :: "bytes \<Rightarrow> u32 \<Rightarrow> bytes" where
  "put_u32 out v = out @ to_be_bytes 4 v"

definition put_u64 :: "bytes \<Rightarrow> u64 \<Rightarrow> bytes" where
  "put_u64 out v = out @ to_be_bytes 8 v"

definition put_string :: "bytes \<Rightarrow> bytes \<Rightarrow> bytes" where
  "put_string out s = put_u32 out (of_nat (length s)) @ s"

section \<open>Reading\<close>

datatype key_error = Parse | Options | Trailing | RejectedKey string

datatype key_kind = Ed25519 | Rsa u32 | EcdsaP256 | EcdsaP384 | EcdsaP521

record parsed_key =
  algo :: string
  cert_algo :: string
  key_body :: bytes
  kind :: key_kind

definition b64_encode :: "'r externs \<Rightarrow> bytes \<Rightarrow> string" where
  "b64_encode X data = base64_encode X data"

definition b64_decode :: "'r externs \<Rightarrow> string \<Rightarrow> key_error + bytes" where
  "b64_decode X s = (case base64_decode X s of None \<Rightarrow> Inl Parse | Some b \<Rightarrow> Inr b)"

record reader =
  r_buf :: bytes
  r_pos :: nat

definition reader_new :: "bytes \<Rightarrow> reader" where
  "reader_new buf = \<lparr> r_buf = buf, r_pos = 0 \<rparr>"

definition read_string :: "nat \<Rightarrow> reader \<Rightarrow> ((key_error + bytes) \<times> reader) option" where
  "read_string W r =
     do {
       e \<leftarrow> usize_add W (r_pos r) 4;
       if length (r_buf r) < e then Some (Inl Parse, r)
       else
         let len = unat (from_be_bytes [r_buf r ! r_pos r, r_buf r ! (r_pos r + 1),
                     r_buf r ! (r_pos r + 2), r_buf r ! (r_pos r + 3)] :: u32);
             r1 = r\<lparr>r_pos := e\<rparr>
         in do {
           e2 \<leftarrow> usize_add W (r_pos r1) len;
           if length (r_buf r1) < e2 then Some (Inl Parse, r1)
           else Some (Inr (take len (drop (r_pos r1) (r_buf r1))), r1\<lparr>r_pos := e2\<rparr>)
         }
     }"

definition reader_is_empty :: "reader \<Rightarrow> bool" where
  "reader_is_empty r \<longleftrightarrow> r_pos r \<ge> length (r_buf r)"

definition reader_skip :: "nat \<Rightarrow> reader \<Rightarrow> nat \<Rightarrow> ((key_error + unit) \<times> reader) option" where
  "reader_skip W r n =
     do {
       e \<leftarrow> usize_add W (r_pos r) n;
       if length (r_buf r) < e then Some (Inl Parse, r) else Some (Inr (), r\<lparr>r_pos := e\<rparr>)
     }"

text \<open>\<^verbatim>\<open>?\<close> on a read of the cursor.\<close>

definition read_then ::
    "((key_error + 'a) \<times> reader) option \<Rightarrow> ('a \<Rightarrow> reader \<Rightarrow> (key_error + 'b) option) \<Rightarrow> (key_error + 'b) option" where
  "read_then m k = (case m of None \<Rightarrow> None | Some (Inl e, r) \<Rightarrow> Some (Inl e) | Some (Inr x, r) \<Rightarrow> k x r)"

section \<open>Integers of RSA keys\<close>

definition positive_mpint_magnitude :: "bytes \<Rightarrow> bytes option" where
  "positive_mpint_magnitude bs =
     (if bs = [] \<or> bs ! 0 AND 0x80 \<noteq> 0 then None
      else if bs ! 0 = 0 then
        (if length bs = 1 \<or> bs ! 1 AND 0x80 = 0 then None else Some (drop 1 bs))
      else Some bs)"

definition positive_mpint_u64 :: "bytes \<Rightarrow> u64 option" where
  "positive_mpint_u64 bs =
     (case positive_mpint_magnitude bs of
        None \<Rightarrow> None
      | Some magnitude \<Rightarrow>
          if length magnitude > 8 then None
          else Some (foldl (\<lambda>value byte. push_bit 8 value OR ucast byte) 0 magnitude))"

definition leading_zeros :: "u8 \<Rightarrow> nat" where
  "leading_zeros b = length (takeWhile (\<lambda>i. \<not> bit b (7 - i)) [0..<8])"

text \<open>The \<^verbatim>\<open>u32\<close> arithmetic panics for a magnitude of \<open>2\<^sup>29\<close> bytes or more.\<close>

definition positive_mpint_bit_len :: "bytes \<Rightarrow> u32 option option" where
  "positive_mpint_bit_len bs =
     (case positive_mpint_magnitude bs of
        None \<Rightarrow> Some None
      | Some magnitude \<Rightarrow>
          let top_bits = 8 - leading_zeros (magnitude ! 0);
              l = length magnitude mod 2 ^ 32
          in if l = 0 \<or> (l - 1) * 8 + top_bits \<ge> 2 ^ 32 then None
             else Some (Some (of_nat ((l - 1) * 8 + top_bits))))"

section \<open>Public keys\<close>

definition cert_algo_for :: "string \<Rightarrow> string option" where
  "cert_algo_for a =
     (if a = ''ssh-ed25519'' then Some ''ssh-ed25519-cert-v01@openssh.com''
      else if a = ''ssh-rsa'' then Some ''ssh-rsa-cert-v01@openssh.com''
      else if a = ''ecdsa-sha2-nistp256'' then Some ''ecdsa-sha2-nistp256-cert-v01@openssh.com''
      else if a = ''ecdsa-sha2-nistp384'' then Some ''ecdsa-sha2-nistp384-cert-v01@openssh.com''
      else if a = ''ecdsa-sha2-nistp521'' then Some ''ecdsa-sha2-nistp521-cert-v01@openssh.com''
      else None)"

definition is_known_unsupported :: "string \<Rightarrow> bool" where
  "is_known_unsupported tok \<longleftrightarrow>
     tok \<in> set [''ssh-dss'', ''sk-ssh-ed25519@openssh.com'', ''sk-ecdsa-sha2-nistp256@openssh.com'',
       ''ssh-rsa-sha2-256'', ''ssh-rsa-sha2-512'']"

definition require_uncompressed_sec1 :: "bytes \<Rightarrow> nat \<Rightarrow> key_error + unit" where
  "require_uncompressed_sec1 q expected_len =
     (if length q \<noteq> expected_len \<or> q = [] \<or> hd q \<noteq> 0x04
      then Inl (RejectedKey ''ECDSA public point must use uncompressed SEC1 encoding'') else Inr ())"

text \<open>The three ECDSA arms differ in the curve name, the point length, the curve's point check and the
  resulting kind; \<open>parse_ecdsa\<close> is their common body.\<close>

definition parse_ecdsa ::
    "nat \<Rightarrow> string \<Rightarrow> nat \<Rightarrow> (bytes \<Rightarrow> bool) \<Rightarrow> key_kind \<Rightarrow> reader \<Rightarrow> (key_error + key_kind \<times> reader) option" where
  "parse_ecdsa W curve_name point_len point_ok k r =
     read_then (read_string W r) (\<lambda>curve r1.
       read_then (read_string W r1) (\<lambda>q r2.
         if curve \<noteq> as_bytes curve_name then Some (Inl (RejectedKey ''mismatched ECDSA curve''))
         else case require_uncompressed_sec1 q point_len of
             Inl e \<Rightarrow> Some (Inl e)
           | Inr _ \<Rightarrow>
               if \<not> point_ok q then Some (Inl (RejectedKey ''invalid ECDSA public point''))
               else Some (Inr (k, r2))))"

definition parse_ed25519 :: "nat \<Rightarrow> reader \<Rightarrow> (key_error + key_kind \<times> reader) option" where
  "parse_ed25519 W r =
     read_then (read_string W r) (\<lambda>pk r1.
       if length pk \<noteq> 32 then Some (Inl (RejectedKey ''malformed ed25519 key''))
       else Some (Inr (Ed25519, r1)))"

definition parse_rsa :: "nat \<Rightarrow> reader \<Rightarrow> (key_error + key_kind \<times> reader) option" where
  "parse_rsa W r =
     read_then (read_string W r) (\<lambda>eb r1.
       case positive_mpint_u64 eb of
         None \<Rightarrow> Some (Inl (RejectedKey ''malformed RSA public exponent''))
       | Some e \<Rightarrow>
           if e < 3 \<or> e mod 2 = 0
           then Some (Inl (RejectedKey ''RSA public exponent must be an odd integer >= 3''))
           else read_then (read_string W r1) (\<lambda>nb r2.
             case positive_mpint_bit_len nb of
               None \<Rightarrow> None
             | Some None \<Rightarrow> Some (Inl (RejectedKey ''malformed RSA modulus''))
             | Some (Some bits) \<Rightarrow> Some (Inr (Rsa bits, r2))))"

definition parse_key_kind :: "'r externs \<Rightarrow> nat \<Rightarrow> string \<Rightarrow> reader \<Rightarrow> (key_error + key_kind) option" where
  "parse_key_kind X W a r =
     try_then
       (if a = ''ssh-ed25519'' then parse_ed25519 W r
        else if a = ''ssh-rsa'' then parse_rsa W r
        else if a = ''ecdsa-sha2-nistp256'' then parse_ecdsa W ''nistp256'' 65 (p256_point X) EcdsaP256 r
        else if a = ''ecdsa-sha2-nistp384'' then parse_ecdsa W ''nistp384'' 97 (p384_point X) EcdsaP384 r
        else if a = ''ecdsa-sha2-nistp521'' then parse_ecdsa W ''nistp521'' 133 (p521_point X) EcdsaP521 r
        else Some (Inl Parse))
       (\<lambda>(k, r1). if \<not> reader_is_empty r1 then Some (Inl Trailing) else Some (Inr k))"

text \<open>The search for the key-type token, at index \<open>i\<close>.\<close>

fun locate_type :: "nat \<Rightarrow> string list \<Rightarrow> key_error + nat option" where
  "locate_type i [] = Inr None"
| "locate_type i (t # ts) =
     (if cert_algo_for t \<noteq> None then Inr (Some i)
      else if is_known_unsupported t then Inl (RejectedKey (''unsupported public key type: '' @ t))
      else locate_type (i + 1) ts)"

definition parse_blob :: "'r externs \<Rightarrow> nat \<Rightarrow> string \<Rightarrow> string \<Rightarrow> bytes \<Rightarrow> (key_error + parsed_key) option" where
  "parse_blob X W a ca blob =
     read_then (read_string W (reader_new blob)) (\<lambda>inner_algo r.
       if inner_algo \<noteq> as_bytes a then Some (Inl Parse)
       else
         let header_len = 4 + length inner_algo; body = drop header_len blob
         in try_then (parse_key_kind X W a r) (\<lambda>k.
              Some (Inr \<lparr> algo = a, cert_algo = ca, key_body = body, kind = k \<rparr>)))"

definition parse_authorized_key :: "'r externs \<Rightarrow> nat \<Rightarrow> string \<Rightarrow> (key_error + parsed_key) option" where
  "parse_authorized_key X W input =
     (let nonempty_lines = length (filter (\<lambda>l. trim l \<noteq> []) (str_lines input)) in
      if nonempty_lines > 1 then Some (Inl Trailing)
      else
        let line = trim input in
        if line = [] then Some (Inl Parse)
        else
          let tokens = split_whitespace line in
          case locate_type 0 tokens of
            Inl e \<Rightarrow> Some (Inl e)
          | Inr None \<Rightarrow> Some (Inl Parse)
          | Inr (Some idx) \<Rightarrow>
              if idx > 0 then Some (Inl Options)
              else
                let a = tokens ! idx in
                if length tokens \<le> idx + 1 then Some (Inl Parse)
                else case b64_decode X (tokens ! (idx + 1)) of
                    Inl e \<Rightarrow> Some (Inl e)
                  | Inr blob \<Rightarrow>
                      (case cert_algo_for a of
                         None \<Rightarrow> None
                       | Some ca \<Rightarrow> parse_blob X W a ca blob))"

section \<open>The cursor reads what was written\<close>

definition ssh_string :: "bytes \<Rightarrow> bytes" where
  "ssh_string s = to_be_bytes 4 (of_nat (length s) :: u32) @ s"

lemma put_simps [wire_simps]:
  "put_u32 out v = out @ to_be_bytes 4 v" "put_u64 out w = out @ to_be_bytes 8 w"
  "put_string out s = out @ ssh_string s"
  by (simp_all add: put_u32_def put_u64_def put_string_def ssh_string_def)

lemma length_ssh_string [simp]: "length (ssh_string s) = 4 + length s"
  by (simp add: ssh_string_def)

lemma to_be_bytes_4: "to_be_bytes 4 (w :: u32) =
    [ucast (drop_bit 24 w), ucast (drop_bit 16 w), ucast (drop_bit 8 w), ucast w]"
  by (simp add: eval_nat_numeral)

lemma to_from_be_bytes_4: "to_be_bytes 4 (from_be_bytes [a, b, c, d] :: u32) = [a, b, c, d]"
proof -
  let ?w = "from_be_bytes [a, b, c, d] :: u32"
  have w: "?w = push_bit 8 (push_bit 8 (push_bit 8 (ucast a) OR ucast b) OR ucast c) OR ucast d"
    by (simp add: from_be_bytes_def)
  have "(ucast (drop_bit 24 ?w) :: u8) = a" unfolding w
    by (rule bit_word_eqI) (auto simp: bit_simps dest: bit_imp_le_length)
  moreover have "(ucast (drop_bit 16 ?w) :: u8) = b" unfolding w
    by (rule bit_word_eqI) (auto simp: bit_simps dest: bit_imp_le_length)
  moreover have "(ucast (drop_bit 8 ?w) :: u8) = c" unfolding w
    by (rule bit_word_eqI) (auto simp: bit_simps dest: bit_imp_le_length)
  moreover have "(ucast ?w :: u8) = d" unfolding w
    by (rule bit_word_eqI) (auto simp: bit_simps dest: bit_imp_le_length)
  ultimately show ?thesis by (simp add: to_be_bytes_4)
qed

lemma take_4: "p + 4 \<le> length bs \<Longrightarrow> take 4 (drop p bs) = [bs ! p, bs ! (p + 1), bs ! (p + 2), bs ! (p + 3)]"
  by (rule nth_equalityI) (auto simp: less_Suc_eq numeral_nat)

lemma read_string_ok:
  assumes "read_string W r = Some (Inr s, r')"
  shows "r_buf r' = r_buf r" and "r_pos r' = r_pos r + 4 + length s" and "r_pos r' \<le> length (r_buf r)"
    and "take (4 + length s) (drop (r_pos r) (r_buf r)) = ssh_string s"
proof -
  let ?b = "r_buf r" and ?p = "r_pos r"
  let ?len = "from_be_bytes [?b ! ?p, ?b ! (?p + 1), ?b ! (?p + 2), ?b ! (?p + 3)] :: u32"
  have e: "?p + 4 \<le> length ?b" "?p + 4 + unat ?len \<le> length ?b"
    and s: "s = take (unat ?len) (drop (?p + 4) ?b)" and r': "r' = r\<lparr>r_pos := ?p + 4 + unat ?len\<rparr>"
    using assms by (auto simp: read_string_def usize_add_def Let_def split: if_splits)
  have len: "length s = unat ?len" using e by (simp add: s)
  show "r_buf r' = r_buf r" "r_pos r' = ?p + 4 + length s" "r_pos r' \<le> length ?b"
    using e by (simp_all add: r' len)
  have "take (4 + length s) (drop ?p ?b) = take 4 (drop ?p ?b) @ take (length s) (drop (?p + 4) ?b)"
    using take_add [of 4 "length s" "drop ?p ?b"] by (simp add: add.commute [of 4 ?p])
  also have "take 4 (drop ?p ?b) = to_be_bytes 4 ?len"
    using e by (simp add: take_4 to_from_be_bytes_4)
  finally show "take (4 + length s) (drop ?p ?b) = ssh_string s"
    by (simp add: ssh_string_def len) (simp add: s e)
qed

lemma read_string_put:
  assumes "length s < 2 ^ 32" and "length pre + 4 + length s < 2 ^ W"
  shows "read_string W \<lparr> r_buf = pre @ ssh_string s @ post, r_pos = length pre \<rparr>
    = Some (Inr s, \<lparr> r_buf = pre @ ssh_string s @ post, r_pos = length pre + 4 + length s \<rparr>)"
proof -
  let ?b = "pre @ ssh_string s @ post" and ?p = "length pre"
  have "[?b ! ?p, ?b ! (?p + 1), ?b ! (?p + 2), ?b ! (?p + 3)] = take 4 (drop ?p ?b)"
    by (rule take_4 [symmetric]) simp
  also have "\<dots> = to_be_bytes 4 (of_nat (length s) :: u32)" by (simp add: ssh_string_def)
  finally have l: "unat (from_be_bytes [?b ! ?p, ?b ! (?p + 1), ?b ! (?p + 2), ?b ! (?p + 3)] :: u32) = length s"
    using assms(1) by (simp add: unat_of_nat take_bit_nat_eq_self)
  have "take (length s) (drop (?p + 4) ?b) = s" by (simp add: ssh_string_def)
  with l assms show ?thesis
    by (simp add: read_string_def usize_add_def Let_def)
qed

text \<open>A read panics exactly when one of its two additions leaves \<^verbatim>\<open>usize\<close>.\<close>

lemma read_string_panics:
  "read_string W r = None \<longleftrightarrow>
     (r_pos r + 4 \<ge> 2 ^ W \<or>
      (r_pos r + 4 \<le> length (r_buf r) \<and>
       r_pos r + 4 + unat (from_be_bytes (take 4 (drop (r_pos r) (r_buf r))) :: u32) \<ge> 2 ^ W))"
  by (auto simp: read_string_def usize_add_def Let_def take_4 split: if_splits)

lemma read_string_total:
  assumes "length (r_buf r) + 2 ^ 32 + 4 \<le> 2 ^ W" and "r_pos r \<le> length (r_buf r)"
  shows "read_string W r \<noteq> None"
proof -
  have "unat (from_be_bytes (take 4 (drop (r_pos r) (r_buf r))) :: u32) < 2 ^ LENGTH(32)" by (rule unsigned_less)
  with assms show ?thesis by (simp add: read_string_panics)
qed

lemma read_then_Inr [elim]:
  assumes "read_then m k = Some (Inr y)"
  obtains x r where "m = Some (Inr x, r)" and "k x r = Some (Inr y)"
  using assms by (auto simp: read_then_def split: option.splits prod.splits sum.splits)

lemma read_then_None [elim]:
  assumes "read_then m k = None"
  obtains "m = None" | x r where "m = Some (Inr x, r)" and "k x r = None"
  using assms by (auto simp: read_then_def split: option.splits prod.splits sum.splits)

section \<open>What the parser accepts\<close>

definition rest :: "reader \<Rightarrow> bytes" where
  "rest r = drop (r_pos r) (r_buf r)"

lemma read_string_rest:
  assumes "read_string W r = Some (Inr s, r')"
  shows "rest r = ssh_string s @ rest r'"
proof -
  note ok = read_string_ok [OF assms]
  have "rest r = take (4 + length s) (rest r) @ drop (4 + length s) (rest r)" by simp
  then show ?thesis using ok by (simp add: rest_def add.commute add.left_commute)
qed

lemma reader_is_empty_rest: "reader_is_empty r \<longleftrightarrow> rest r = []"
  by (simp add: reader_is_empty_def rest_def)

text \<open>The type-specific fields of a key, and nothing after them.\<close>

definition ed25519_body :: "bytes \<Rightarrow> bool" where
  "ed25519_body body \<longleftrightarrow> (\<exists>pk. body = ssh_string pk \<and> length pk = 32)"

definition rsa_body :: "u32 \<Rightarrow> bytes \<Rightarrow> bool" where
  "rsa_body bits body \<longleftrightarrow> (\<exists>eb nb e. body = ssh_string eb @ ssh_string nb
     \<and> positive_mpint_u64 eb = Some e \<and> 3 \<le> e \<and> e mod 2 = 1 \<and> positive_mpint_bit_len nb = Some (Some bits))"

definition ecdsa_body :: "string \<Rightarrow> nat \<Rightarrow> (bytes \<Rightarrow> bool) \<Rightarrow> bytes \<Rightarrow> bool" where
  "ecdsa_body curve len point_ok body \<longleftrightarrow> (\<exists>q. body = ssh_string (as_bytes curve) @ ssh_string q
     \<and> length q = len \<and> hd q = 0x04 \<and> point_ok q)"

definition key_shape :: "'r externs \<Rightarrow> string \<Rightarrow> key_kind \<Rightarrow> bytes \<Rightarrow> bool" where
  "key_shape X a k body \<longleftrightarrow> (case k of
       Ed25519 \<Rightarrow> a = ''ssh-ed25519'' \<and> ed25519_body body
     | Rsa bits \<Rightarrow> a = ''ssh-rsa'' \<and> rsa_body bits body
     | EcdsaP256 \<Rightarrow> a = ''ecdsa-sha2-nistp256'' \<and> ecdsa_body ''nistp256'' 65 (p256_point X) body
     | EcdsaP384 \<Rightarrow> a = ''ecdsa-sha2-nistp384'' \<and> ecdsa_body ''nistp384'' 97 (p384_point X) body
     | EcdsaP521 \<Rightarrow> a = ''ecdsa-sha2-nistp521'' \<and> ecdsa_body ''nistp521'' 133 (p521_point X) body)"

lemma odd_u64: "(e :: u64) mod 2 \<noteq> 0 \<Longrightarrow> e mod 2 = 1"
  by (metis not_mod_2_eq_0_eq_1)

lemma parse_ed25519_ok:
  assumes "parse_ed25519 W r = Some (Inr (k, r'))"
  shows "k = Ed25519 \<and> (rest r' = [] \<longrightarrow> ed25519_body (rest r))"
proof -
  obtain pk r1 where r1: "read_string W r = Some (Inr pk, r1)" and "length pk = 32" and "(k, r') = (Ed25519, r1)"
    using assms by (auto simp: parse_ed25519_def split: if_splits elim!: read_then_Inr)
  then show ?thesis
    using read_string_rest [OF r1] by (auto simp: ed25519_body_def)
qed

lemma parse_rsa_ok:
  assumes "parse_rsa W r = Some (Inr (k, r'))"
  shows "\<exists>bits. k = Rsa bits \<and> (rest r' = [] \<longrightarrow> rsa_body bits (rest r))"
proof -
  obtain eb r1 e nb bits where r1: "read_string W r = Some (Inr eb, r1)" and e: "positive_mpint_u64 eb = Some e"
    "\<not> (e < 3 \<or> e mod 2 = 0)" and r2: "read_string W r1 = Some (Inr nb, r')"
    and n: "positive_mpint_bit_len nb = Some (Some bits)" and k: "k = Rsa bits"
    using assms by (auto simp: parse_rsa_def split: if_splits option.splits elim!: read_then_Inr)
  show ?thesis
    using k n e odd_u64 [of e] read_string_rest [OF r1] read_string_rest [OF r2]
    by (auto simp: rsa_body_def not_less)
qed

lemma parse_ecdsa_ok:
  assumes "parse_ecdsa W curve len point_ok k0 r = Some (Inr (k, r'))"
  shows "k = k0 \<and> (rest r' = [] \<longrightarrow> ecdsa_body curve len point_ok (rest r))"
proof -
  obtain c r1 q where r1: "read_string W r = Some (Inr c, r1)" and r2: "read_string W r1 = Some (Inr q, r')"
    and ok: "c = as_bytes curve" "require_uncompressed_sec1 q len = Inr ()" "point_ok q" and k: "k = k0"
    using assms by (auto simp: parse_ecdsa_def split: if_splits sum.splits elim!: read_then_Inr)
  show ?thesis
    using k ok read_string_rest [OF r1] read_string_rest [OF r2]
    by (auto simp: ecdsa_body_def require_uncompressed_sec1_def split: if_splits)
qed

lemma parse_key_kind_ok:
  assumes "parse_key_kind X W a r = Some (Inr k)"
  shows "key_shape X a k (rest r)"
  using assms
  by (auto simp: parse_key_kind_def key_shape_def reader_is_empty_rest
      dest!: parse_ed25519_ok parse_rsa_ok parse_ecdsa_ok split: if_splits elim!: try_then_Inr)

lemma parse_blob_ok:
  assumes "parse_blob X W a ca blob = Some (Inr pk)"
  shows "algo pk = a" and "cert_algo pk = ca" and "blob = ssh_string (as_bytes a) @ key_body pk"
    and "key_shape X a (kind pk) (key_body pk)"
proof -
  obtain r k where r: "read_string W (reader_new blob) = Some (Inr (as_bytes a), r)"
    and k: "parse_key_kind X W a r = Some (Inr k)"
    and pk: "pk = \<lparr> algo = a, cert_algo = ca, key_body = drop (4 + length a) blob, kind = k \<rparr>"
    using assms by (auto simp: parse_blob_def Let_def split: if_splits elim!: read_then_Inr try_then_Inr)
  have "blob = ssh_string (as_bytes a) @ rest r"
    using read_string_rest [OF r] by (simp add: reader_new_def rest_def [of "\<lparr>r_buf = blob, r_pos = 0\<rparr>"])
  moreover then have "rest r = key_body pk" by (simp add: pk)
  ultimately show "algo pk = a" "cert_algo pk = ca" "blob = ssh_string (as_bytes a) @ key_body pk"
    "key_shape X a (kind pk) (key_body pk)"
    using parse_key_kind_ok [OF k] by (simp_all add: pk)
qed

lemma locate_type_later: "locate_type i ts = Inr (Some k) \<Longrightarrow> i \<le> k"
  by (induction i ts rule: locate_type.induct) (auto split: if_splits)

lemma locate_type_first: "locate_type 0 ts = Inr (Some 0) \<Longrightarrow> \<exists>a ca ts'. ts = a # ts' \<and> cert_algo_for a = Some ca"
  by (cases ts) (auto split: if_splits dest: locate_type_later)

text \<open>What reaches the decoding of the key: one line, the key type first, then the base64 text.\<close>

lemma parse_authorized_key_blob:
  assumes "parse_authorized_key X W input = r" and "\<nexists>e. r = Some (Inl e)"
  obtains a ca b64 comment blob where "length (filter (\<lambda>l. trim l \<noteq> []) (str_lines input)) \<le> 1"
    and "split_whitespace (trim input) = a # b64 # comment" and "cert_algo_for a = Some ca"
    and "base64_decode X b64 = Some blob" and "parse_blob X W a ca blob = r"
proof -
  let ?ts = "split_whitespace (trim input)"
  have l: "locate_type 0 ?ts = Inr (Some 0)" "length ?ts > 1" "length (filter (\<lambda>l. trim l \<noteq> []) (str_lines input)) \<le> 1"
    using assms by (auto simp: parse_authorized_key_def Let_def split: if_splits sum.splits option.splits)
  obtain a b64 comment ca where t: "?ts = a # b64 # comment" "cert_algo_for a = Some ca"
    using locate_type_first [OF l(1)] l(2) by (metis (no_types, lifting) length_Cons less_irrefl list.exhaust list.size(3) One_nat_def)
  then obtain blob where "base64_decode X b64 = Some blob" "parse_blob X W a ca blob = r"
    using assms l by (auto simp: parse_authorized_key_def b64_decode_def Let_def split: if_splits sum.splits option.splits)
  with l t show thesis using that by blast
qed

text \<open>C34: an accepted authorized-keys text is one bare key: at most one of its lines is not blank, that line
  starts with the name of a certifiable key type (no options before it), followed by the base64 of
  the key and perhaps a comment, which is dropped. The decoded bytes are the type name and then,
  exactly, the fields of that type with no bytes after them (Ed25519: one 32-byte point; RSA: an odd
  exponent of at least 3 and a canonical positive modulus; ECDSA: the matching curve name and a
  valid uncompressed point); those fields are what is spliced into the certificate.\<close>

theorem parse_authorized_key_sound:
  assumes "parse_authorized_key X W input = Some (Inr pk)"
  shows "length (filter (\<lambda>l. trim l \<noteq> []) (str_lines input)) \<le> 1
    \<and> (\<exists>b64 comment. split_whitespace (trim input) = algo pk # b64 # comment
         \<and> base64_decode X b64 = Some (ssh_string (as_bytes (algo pk)) @ key_body pk))
    \<and> cert_algo_for (algo pk) = Some (cert_algo pk) \<and> key_shape X (algo pk) (kind pk) (key_body pk)"
proof -
  obtain a ca b64 comment blob where p: "length (filter (\<lambda>l. trim l \<noteq> []) (str_lines input)) \<le> 1"
    "split_whitespace (trim input) = a # b64 # comment" "cert_algo_for a = Some ca"
    "base64_decode X b64 = Some blob" "parse_blob X W a ca blob = Some (Inr pk)"
    by (rule parse_authorized_key_blob [OF assms]) auto
  show ?thesis using parse_blob_ok [OF p(5)] p(1-4) by auto
qed

definition sample_key_line :: string where
  "sample_key_line = ''ssh-ed25519 0000000b7373682d6564323535313900000020'' @ replicate 64 CHR ''0'' @ '' me@host''"

lemma sample_key_parses:
  "parse_authorized_key sample_externs 64 sample_key_line =
     Some (Inr \<lparr> algo = ''ssh-ed25519'', cert_algo = ''ssh-ed25519-cert-v01@openssh.com'',
       key_body = ssh_string (replicate 32 0), kind = Ed25519 \<rparr>)"
  by code_simp

theorem parse_authorized_key_sound_witness:
  "\<exists>pk. parse_authorized_key sample_externs 64 sample_key_line = Some (Inr pk)
     \<and> key_shape sample_externs ''ssh-ed25519'' Ed25519 (key_body pk)"
  using parse_authorized_key_sound [OF sample_key_parses] sample_key_parses by simp

section \<open>Panics\<close>

lemma mpint_total:
  assumes "length bs < 2 ^ 28"
  shows "positive_mpint_bit_len bs \<noteq> None"
proof -
  have "magnitude \<noteq> [] \<and> length magnitude < 2 ^ 28" if "positive_mpint_magnitude bs = Some magnitude" for magnitude
    using that assms by (cases bs; cases "tl bs") (auto simp: positive_mpint_magnitude_def split: if_splits)
  then show ?thesis
    by (fastforce simp: positive_mpint_bit_len_def Let_def split: option.splits)
qed

text \<open>A buffer that the width of \<^verbatim>\<open>usize\<close> leaves room after for any 32-bit length.\<close>

definition roomy :: "nat \<Rightarrow> reader \<Rightarrow> bool" where
  "roomy W r \<longleftrightarrow> length (r_buf r) + 2 ^ 32 + 4 \<le> 2 ^ W \<and> r_pos r \<le> length (r_buf r) \<and> length (r_buf r) < 2 ^ 28"

lemma roomy_read:
  assumes "roomy W r"
  shows "read_string W r \<noteq> None" and "read_string W r = Some (Inr s, r') \<Longrightarrow> roomy W r' \<and> length s < 2 ^ 28"
  using assms read_string_total [of r W] read_string_ok [of W r s r'] by (auto simp: roomy_def)

lemma parse_key_kind_total:
  assumes "roomy W r"
  shows "parse_key_kind X W a r \<noteq> None"
proof
  assume "parse_key_kind X W a r = None"
  then consider "parse_ed25519 W r = None" | "parse_rsa W r = None"
    | c n ok k where "parse_ecdsa W c n ok k r = None"
    by (auto simp: parse_key_kind_def split: if_splits elim!: try_then_None)
  then show False
  proof cases
    case 1
    then show ?thesis using roomy_read [OF assms] by (auto simp: parse_ed25519_def split: if_splits elim!: read_then_None)
  next
    case 2
    then consider eb r1 where "read_string W r = Some (Inr eb, r1)" and "read_string W r1 = None"
      | eb r1 nb r2 where "read_string W r = Some (Inr eb, r1)" and "read_string W r1 = Some (Inr nb, r2)"
          and "positive_mpint_bit_len nb = None"
      using roomy_read [OF assms]
      by (auto simp: parse_rsa_def split: if_splits option.splits elim!: read_then_None)
    then show ?thesis using roomy_read assms mpint_total by metis
  next
    case 3
    then obtain x r1 where "read_string W r = Some (Inr x, r1)" and "read_string W r1 = None"
      using roomy_read [OF assms]
      by (auto simp: parse_ecdsa_def split: if_splits sum.splits elim!: read_then_None)
    then show ?thesis using roomy_read assms by metis
  qed
qed

text \<open>Base64 text is at least as long as the bytes it stands for.\<close>

definition base64_shrinks :: "'r externs \<Rightarrow> bool" where
  "base64_shrinks X \<longleftrightarrow> (\<forall>t b. base64_decode X t = Some b \<longrightarrow> length b \<le> length t)"

text \<open>C35: with a 64-bit \<^verbatim>\<open>usize\<close> the key parser never panics: every key text of less than 256 MiB is
  accepted or rejected with an error.\<close>

theorem parse_authorized_key_total_64:
  assumes "base64_shrinks X" and "length input < 2 ^ 28"
  shows "\<exists>res. parse_authorized_key X 64 input = Some res"
proof (rule ccontr)
  assume "\<nexists>res. parse_authorized_key X 64 input = Some res"
  then have "parse_authorized_key X 64 input = None" by simp
  then obtain a ca b64 comment blob where t: "split_whitespace (trim input) = a # b64 # comment"
    and blob: "base64_decode X b64 = Some blob" and p: "parse_blob X 64 a ca blob = None"
    by (rule parse_authorized_key_blob) auto
  have "length blob \<le> length b64" using assms(1) blob by (simp add: base64_shrinks_def)
  also have "\<dots> \<le> length input"
    using length_split_whitespace [of b64 "trim input"] length_trim [of input] t by simp
  finally have "roomy 64 (reader_new blob)" using assms(2) by (simp add: roomy_def reader_new_def)
  with p show False
    using roomy_read [of 64 "reader_new blob"]
    by (auto simp: parse_blob_def Let_def dest!: parse_key_kind_total [THEN notE]
        split: if_splits elim!: read_then_None try_then_None)
qed

lemma base64_shrinks_sample [simp]: "base64_shrinks sample_externs"
  by (auto simp: base64_shrinks_def sample_externs_def dest: hex_decode_length)

theorem parse_authorized_key_total_64_witness:
  "\<exists>res. parse_authorized_key sample_externs 64 ''ssh-rsa ffffffff'' = Some res"
  by (rule parse_authorized_key_total_64) simp_all

text \<open>C36: with a 32-bit \<^verbatim>\<open>usize\<close> (the device) a key whose blob is the four bytes FF FF FF FF makes the
  parser panic: \<^verbatim>\<open>self.pos + len\<close> overflows, and the release profile checks overflows. The same text
  is rejected with an error on a 64-bit host.\<close>

theorem hostile_length_panics_on_device:
  assumes "base64_decode X ''/////w=='' = Some [0xFF, 0xFF, 0xFF, 0xFF]"
  shows "parse_authorized_key X 32 ''ssh-ed25519 /////w=='' = None
    \<and> parse_authorized_key X 64 ''ssh-ed25519 /////w=='' = Some (Inl Parse)"
proof -
  let ?i = "''ssh-ed25519 /////w==''"
  have toks: "split_whitespace (trim ?i) = [''ssh-ed25519'', ''/////w=='']" "trim ?i \<noteq> []"
    "length (filter (\<lambda>l. trim l \<noteq> []) (str_lines ?i)) = 1"
    by code_simp+
  have "parse_authorized_key X W ?i = parse_blob X W ''ssh-ed25519''
      ''ssh-ed25519-cert-v01@openssh.com'' [0xFF, 0xFF, 0xFF, 0xFF]" for W
    using assms toks by (simp add: parse_authorized_key_def b64_decode_def cert_algo_for_def Let_def)
  moreover have "unat (from_be_bytes [0xFF, 0xFF, 0xFF, 0xFF] :: u32) = 4294967295"
    by (simp add: from_be_bytes_def)
  ultimately show ?thesis
    by (simp add: parse_blob_def read_then_def read_string_def reader_new_def usize_add_def Let_def)
qed

theorem hostile_length_panics_on_device_witness:
  "parse_authorized_key (sample_externs\<lparr>base64_decode := (\<lambda>_. Some [0xFF, 0xFF, 0xFF, 0xFF])\<rparr>) 32
     ''ssh-ed25519 /////w=='' = None"
  using hostile_length_panics_on_device
    [of "sample_externs\<lparr>base64_decode := (\<lambda>_. Some [0xFF, 0xFF, 0xFF, 0xFF])\<rparr>"] by simp

section \<open>RSA integers\<close>

definition be_nat :: "bytes \<Rightarrow> nat" where
  "be_nat bs = foldl (\<lambda>v b. v * 256 + unat b) 0 bs"

lemma foldl_be_nat: "foldl (\<lambda>v b. v * 256 + unat b) acc (bs :: bytes) = acc * 256 ^ length bs + be_nat bs"
proof (induction bs arbitrary: acc)
  case (Cons b bs)
  from Cons [of "acc * 256 + unat b"] Cons [of "unat b"] show ?case
    by (simp add: be_nat_def algebra_simps)
qed (simp add: be_nat_def)

lemma be_nat_Cons: "be_nat (b # bs) = unat b * 256 ^ length bs + be_nat bs"
  using foldl_be_nat [of "unat b" bs] by (simp add: be_nat_def)

lemma unat_u8_less: "unat (b :: u8) < 256"
  using unsigned_less [of b, where ?'a = nat] by simp

lemma be_nat_less: "be_nat bs < 256 ^ length bs"
proof (induction bs)
  case (Cons b bs)
  have "unat b * 256 ^ length bs + be_nat bs < (unat b + 1) * 256 ^ length bs" using Cons by simp
  also have "\<dots> \<le> 256 * 256 ^ length bs" using unat_u8_less [of b] by (intro mult_right_mono) simp_all
  finally show ?case by (simp add: be_nat_Cons)
qed (simp add: be_nat_def)

text \<open>The magnitude is the value without its sign padding, and does not start with a zero byte.\<close>

lemma magnitude_spec:
  assumes "positive_mpint_magnitude bs = Some m"
  obtains b m' where "m = b # m'" and "b \<noteq> 0" and "be_nat m = be_nat bs" and "length m \<le> length bs"
proof (cases bs)
  case (Cons x xs)
  show ?thesis
  proof (cases "x = 0")
    case True
    with assms Cons obtain y ys where "xs = y # ys" and "m = xs" and "y AND 0x80 \<noteq> 0"
      by (cases xs) (auto simp: positive_mpint_magnitude_def split: if_splits)
    moreover from this have "y \<noteq> 0" by (metis zero_and_eq)
    ultimately show ?thesis using that [of y ys] True Cons by (auto simp: be_nat_Cons)
  next
    case False
    with assms Cons have "m = bs" by (auto simp: positive_mpint_magnitude_def split: if_splits)
    with that [of x xs] False Cons show ?thesis by simp
  qed
qed (use assms in \<open>simp add: positive_mpint_magnitude_def\<close>)

lemma word_of_nat_unat_u8: "of_nat (unat (b :: u8)) = b"
  by simp

lemma leading_zeros_spec:
  assumes "b \<noteq> 0"
  shows "leading_zeros b < 8" and "2 ^ (7 - leading_zeros b) \<le> unat b" and "unat b < 2 ^ (8 - leading_zeros b)"
proof -
  have "list_all (\<lambda>n. n = 0 \<or> leading_zeros (of_nat n) < 8 \<and> 2 ^ (7 - leading_zeros (of_nat n)) \<le> n
      \<and> n < 2 ^ (8 - leading_zeros (of_nat n))) [0..<256]"
    by code_simp
  moreover have "unat b \<in> set [0..<256]" using unat_u8_less by simp
  moreover have "unat b \<noteq> 0" using assms by (simp add: unat_eq_zero)
  ultimately show "leading_zeros b < 8" and "2 ^ (7 - leading_zeros b) \<le> unat b"
    and "unat b < 2 ^ (8 - leading_zeros b)"
    unfolding list_all_iff by (metis (no_types, lifting) word_of_nat_unat_u8)+
qed

text \<open>C37: the size reported for an RSA modulus is its true bit length: an accepted \<^verbatim>\<open>mpint\<close> of \<open>k\<close> bits
  has a value between \<open>2\<^sup>k\<^sup>-\<^sup>1\<close> and \<open>2\<^sup>k - 1\<close>.\<close>

theorem mpint_bit_len_correct:
  assumes "positive_mpint_bit_len bs = Some (Some k)" and "length bs < 2 ^ 28"
  shows "0 < unat k \<and> 2 ^ (unat k - 1) \<le> be_nat bs \<and> be_nat bs < 2 ^ unat k"
proof -
  obtain m where m: "positive_mpint_magnitude bs = Some m"
    using assms(1) by (auto simp: positive_mpint_bit_len_def split: option.splits)
  then obtain b m' where bm: "m = b # m'" "b \<noteq> 0" "be_nat m = be_nat bs" "length m \<le> length bs"
    by (rule magnitude_spec)
  let ?t = "8 - leading_zeros b"
  note lz = leading_zeros_spec [OF bm(2)]
  have len: "length m' < 2 ^ 28" using bm(1,4) assms(2) by simp
  then have "k = of_nat (length m' * 8 + ?t)"
    using assms(1) m bm(1) by (auto simp: positive_mpint_bit_len_def Let_def split: if_splits)
  moreover have "length m' * 8 + ?t < 2 ^ 32" using len by simp
  ultimately have k: "unat k = length m' * 8 + ?t"
    using unat_of_nat_u32 by (simp only:)
  have pow: "(256 :: nat) ^ length m' = 2 ^ (length m' * 8)" by (simp add: mult.commute [of _ 8] power_mult)
  have k1: "unat k - 1 = length m' * 8 + (7 - leading_zeros b)" using lz(1) by (simp add: k)
  have "2 ^ (unat k - 1) = 2 ^ (7 - leading_zeros b) * (256 :: nat) ^ length m'"
    unfolding k1 pow by (simp add: power_add)
  also have "\<dots> \<le> be_nat m" using lz(2) by (simp add: bm(1) be_nat_Cons) (simp add: trans_le_add1)
  finally have lower: "2 ^ (unat k - 1) \<le> be_nat bs" by (simp add: bm(3))
  have "be_nat m < (unat b + 1) * 256 ^ length m'" using be_nat_less [of m'] by (simp add: bm(1) be_nat_Cons)
  also have "\<dots> \<le> 2 ^ ?t * 256 ^ length m'" using lz(3) by (intro mult_right_mono) simp_all
  also have "\<dots> = 2 ^ unat k" by (simp add: k pow power_add)
  finally show ?thesis using lower lz(1) by (simp add: bm(3) k)
qed

theorem mpint_bit_len_correct_witness:
  "positive_mpint_bit_len [0x00, 0xFF, 0x01] = Some (Some 16) \<and> 2 ^ 15 \<le> be_nat [0x00, 0xFF, 0x01]"
proof -
  have e: "positive_mpint_bit_len [0x00, 0xFF, 0x01] = Some (Some 16)"
  proof -
    have "leading_zeros 0xFF = 0" by code_simp
    then show ?thesis by (simp add: positive_mpint_bit_len_def positive_mpint_magnitude_def Let_def)
  qed
  from mpint_bit_len_correct [OF e] e show ?thesis by simp
qed

end
