(* ===== verification/Rng.thy ===== *)
theory Rng
  imports Hal TestHal Externs
begin

text \<open>
  The conditioned random generator (\<^verbatim>\<open>hsm-core/src/rng.rs\<close>): health checks on raw entropy, SHA-512
  conditioning into a ChaCha20 generator, reseeding and additive mixing of host entropy.
\<close>

definition SEED_SAMPLE :: nat where
  "SEED_SAMPLE = 256"

definition RESEED_INTERVAL :: u64 where
  "RESEED_INTERVAL = 64"

definition RCT_CUTOFF :: nat where
  "RCT_CUTOFF = 24"

definition APT_MAX :: nat where
  "APT_MAX = SEED_SAMPLE div 4"

definition MAX_HEALTH_RETRIES :: nat where
  "MAX_HEALTH_RETRIES = 16"

record 'r drbg =
  rng :: 'r
  seeded :: bool
  since_reseed :: u64

definition drbg_new :: "'r externs \<Rightarrow> 'r drbg" where
  "drbg_new X = \<lparr> rng = chacha_from_seed X (replicate 32 0), seeded = False, since_reseed = 0 \<rparr>"

section \<open>Health checks\<close>

text \<open>The loop of the repetition-count test, after the byte \<open>prev\<close>.\<close>

fun rct_loop :: "nat \<Rightarrow> nat \<Rightarrow> u8 \<Rightarrow> bytes \<Rightarrow> nat" where
  "rct_loop run max_run prev [] = max_run"
| "rct_loop run max_run prev (b # bs) =
     (if b = prev then rct_loop (run + 1) (max max_run (run + 1)) b bs
      else rct_loop 1 max_run b bs)"

definition max_run :: "bytes \<Rightarrow> nat" where
  "max_run raw = (case raw of [] \<Rightarrow> 1 | b # bs \<Rightarrow> rct_loop 1 1 b bs)"

text \<open>The array \<^verbatim>\<open>counts\<close> of the adaptive-proportion test.\<close>

definition byte_counts :: "bytes \<Rightarrow> nat list" where
  "byte_counts raw = fold (\<lambda>b counts. counts[unat b := counts ! unat b + 1]) raw (replicate 256 0)"

definition health_check :: "bytes \<Rightarrow> hal_error + unit" where
  "health_check raw =
     (if max_run raw \<ge> RCT_CUTOFF then Inl Entropy
      else if list_ex (\<lambda>c. c > APT_MAX) (byte_counts raw) then Inl Entropy
      else Inr ())"

text \<open>The bounded retry loop, with \<open>k\<close> attempts left.\<close>

primrec gather_loop :: "'e entropy_ops \<Rightarrow> nat \<Rightarrow> nat \<Rightarrow> 'e \<Rightarrow> (hal_error + bytes) \<times> 'e" where
  "gather_loop eo n 0 e = (Inl Entropy, e)"
| "gather_loop eo n (Suc k) e =
     (case fill_raw eo e n of
        (Inl err, e1) \<Rightarrow> (Inl err, e1)
      | (Inr out, e1) \<Rightarrow> if is_ok (health_check out) then (Inr out, e1) else gather_loop eo n k e1)"

definition gather_healthy :: "'e entropy_ops \<Rightarrow> 'e \<Rightarrow> nat \<Rightarrow> (hal_error + bytes) \<times> 'e" where
  "gather_healthy eo e n = gather_loop eo n MAX_HEALTH_RETRIES e"

section \<open>The generator\<close>

definition bump :: "'r drbg \<Rightarrow> 'r drbg" where
  "bump d = d\<lparr>since_reseed := u64_saturating_add (since_reseed d) 1\<rparr>"

definition drbg_fill_bytes :: "'r externs \<Rightarrow> 'r drbg \<Rightarrow> nat \<Rightarrow> bytes \<times> 'r drbg" where
  "drbg_fill_bytes X d n =
     (let d1 = bump d; (bs, r) = chacha_fill X (rng d1) n in (bs, d1\<lparr>rng := r\<rparr>))"

text \<open>ChaCha20 output does not fail.\<close>

definition drbg_try_fill_bytes :: "'r externs \<Rightarrow> 'r drbg \<Rightarrow> nat \<Rightarrow> (unit + bytes) \<times> 'r drbg" where
  "drbg_try_fill_bytes X d n =
     (let d1 = bump d; (bs, r) = chacha_fill X (rng d1) n in (Inr bs, d1\<lparr>rng := r\<rparr>))"

definition random_array :: "'r externs \<Rightarrow> nat \<Rightarrow> 'r drbg \<Rightarrow> bytes \<times> 'r drbg" where
  "random_array X n d = drbg_fill_bytes X d n"

definition drbg_next_u32 :: "'r externs \<Rightarrow> 'r drbg \<Rightarrow> u32 \<times> 'r drbg" where
  "drbg_next_u32 X d = (let d1 = bump d; (v, r) = chacha_next_u32 X (rng d1) in (v, d1\<lparr>rng := r\<rparr>))"

definition drbg_next_u64 :: "'r externs \<Rightarrow> 'r drbg \<Rightarrow> u64 \<times> 'r drbg" where
  "drbg_next_u64 X d = (let d1 = bump d; (v, r) = chacha_next_u64 X (rng d1) in (v, d1\<lparr>rng := r\<rparr>))"

text \<open>The hasher's three \<^verbatim>\<open>update\<close> calls absorb the concatenation.\<close>

definition reinit :: "'r externs \<Rightarrow> 'r drbg \<Rightarrow> bytes \<Rightarrow> bytes option \<Rightarrow> bytes \<Rightarrow> 'r drbg" where
  "reinit X d domain prev material =
     (let digest = sha512 X (domain @ (case prev of Some p \<Rightarrow> p | None \<Rightarrow> []) @ material);
          seed = take 32 digest
      in d\<lparr>rng := chacha_from_seed X seed, since_reseed := 0\<rparr>)"

definition drbg_seed :: "'r externs \<Rightarrow> 'e entropy_ops \<Rightarrow> 'r drbg \<Rightarrow> 'e \<Rightarrow> (hal_error + unit) \<times> 'r drbg \<times> 'e" where
  "drbg_seed X eo d e =
     (case gather_healthy eo e SEED_SAMPLE of
        (Inl err, e1) \<Rightarrow> (Inl err, d, e1)
      | (Inr raw, e1) \<Rightarrow>
          (Inr (), (reinit X d (as_bytes ''usbhsm-drbg-seed-v1'') None raw)\<lparr>seeded := True\<rparr>, e1))"

definition drbg_reseed :: "'r externs \<Rightarrow> 'e entropy_ops \<Rightarrow> 'r drbg \<Rightarrow> 'e \<Rightarrow> (hal_error + unit) \<times> 'r drbg \<times> 'e" where
  "drbg_reseed X eo d e =
     (case gather_healthy eo e SEED_SAMPLE of
        (Inl err, e1) \<Rightarrow> (Inl err, d, e1)
      | (Inr raw, e1) \<Rightarrow>
          let (cur, r) = chacha_fill X (rng d) 32
          in (Inr (), reinit X (d\<lparr>rng := r\<rparr>) (as_bytes ''usbhsm-drbg-reseed-v1'') (Some cur) raw, e1))"

definition mix_host :: "'r externs \<Rightarrow> 'r drbg \<Rightarrow> bytes \<Rightarrow> 'r drbg" where
  "mix_host X d host =
     (let (cur, r) = chacha_fill X (rng d) 32
      in reinit X (d\<lparr>rng := r\<rparr>) (as_bytes ''usbhsm-drbg-mix-host-v1'') (Some cur) host)"

section \<open>What the health checks accept\<close>

lemma rct_loop_ge: "max_r \<le> rct_loop run max_r prev bs"
  by (induction run max_r prev bs rule: rct_loop.induct) auto

lemma rct_loop_prefix:
  "run \<le> max_r \<Longrightarrow> run + k \<le> rct_loop run max_r prev (replicate k prev @ c)"
proof (induction k arbitrary: run max_r)
  case 0
  then show ?case using rct_loop_ge [of max_r run prev c] by simp
next
  case (Suc k)
  show ?case using Suc.IH [of "run + 1" "max max_r (run + 1)"] by simp
qed

lemma rct_loop_run:
  "1 \<le> max_r \<Longrightarrow> run \<le> max_r \<Longrightarrow> Suc k \<le> rct_loop run max_r prev (a @ b # replicate k b @ c)"
proof (induction a arbitrary: run max_r prev)
  case Nil
  show ?case
    using rct_loop_prefix [of "run + 1" "max max_r (run + 1)" k b c] rct_loop_prefix [of 1 max_r k b c] Nil
    by (cases "b = prev") simp_all
next
  case (Cons x a)
  show ?case
    using Cons.IH [of "max max_r (run + 1)" "run + 1" x] Cons.IH [of max_r 1 x] Cons.prems
    by (cases "x = prev") simp_all
qed

text \<open>Conversely a maximum is attained by a run in the input.\<close>

lemma rct_loop_attained:
  assumes "m = rct_loop run max_r prev bs" and "m > max_r" and "run \<ge> 1" and "run \<le> max_r"
  shows "\<exists>a b c. replicate run prev @ bs = a @ replicate m b @ c"
  using assms
proof (induction run max_r prev bs rule: rct_loop.induct)
  case (2 run max_r prev b bs)
  show ?case
  proof (cases "b = prev")
    case True
    have eq: "replicate run prev @ b # bs = replicate (run + 1) b @ bs"
      using True by (simp add: replicate_app_Cons_same)
    show ?thesis
    proof (cases "m > max max_r (run + 1)")
      case gt: True
      with 2 True show ?thesis unfolding eq by auto
    next
      case False
      with 2 True have "m = run + 1"
        using rct_loop_ge [of "max max_r (run + 1)" "run + 1" b bs] by auto
      then show ?thesis unfolding eq by (intro exI [of _ "[]"] exI [of _ b] exI [of _ bs]) simp
    qed
  next
    case False
    with 2 obtain a x c where "replicate 1 b @ bs = a @ replicate m x @ c" by fastforce
    then show ?thesis by (intro exI [of _ "replicate run prev @ a"]) auto
  qed
qed simp

lemma max_run_ge_iff:
  assumes "2 \<le> k"
  shows "max_run raw \<ge> k \<longleftrightarrow> (\<exists>a b c. raw = a @ replicate k b @ c)"
proof (cases raw)
  case (Cons x xs)
  show ?thesis
  proof
    assume "k \<le> max_run raw"
    moreover obtain a b c where "replicate 1 x @ xs = a @ replicate (max_run raw) b @ c"
      using rct_loop_attained [of "max_run raw" 1 1 x xs] calculation assms Cons by (auto simp: max_run_def)
    ultimately have "raw = a @ replicate k b @ (replicate (max_run raw - k) b @ c)"
      using Cons by (simp add: append_replicate_commute flip: append_assoc replicate_add)
    then show "\<exists>a b c. raw = a @ replicate k b @ c" by blast
  next
    assume "\<exists>a b c. raw = a @ replicate k b @ c"
    then obtain a b c where r: "raw = a @ replicate k b @ c" by blast
    obtain k' where k': "k = Suc k'" using assms by (cases k) auto
    show "k \<le> max_run raw"
    proof (cases a)
      case Nil
      then show ?thesis using r k' rct_loop_prefix [of 1 1 k' b c] by (simp add: max_run_def)
    next
      case (Cons y a')
      then show ?thesis using r k' rct_loop_run [of 1 1 k' y a' b c] by (simp add: max_run_def)
    qed
  qed
qed (use assms in \<open>auto simp: max_run_def\<close>)

lemma byte_counts_gen:
  "length cs = 256 \<Longrightarrow>
   (let cs' = fold (\<lambda>b counts. counts[unat b := counts ! unat b + 1]) raw cs
    in length cs' = 256 \<and> (\<forall>b :: u8. cs' ! unat b = cs ! unat b + count_list raw b))"
proof (induction raw arbitrary: cs)
  case (Cons x raw)
  have "unat y < 2 ^ LENGTH(8)" for y :: u8 by (rule unsigned_less)
  then have "unat y < 256" for y :: u8 by simp
  with Cons.IH [of "cs[unat x := cs ! unat x + 1]"] Cons.prems show ?case
    by (auto simp: Let_def nth_list_update dest: unsigned_word_eqI)
qed (simp add: Let_def)

lemma byte_counts_exceeds:
  "list_ex (\<lambda>c. c > n) (byte_counts raw) \<longleftrightarrow> (\<exists>b. count_list raw b > n)"
proof -
  note g = byte_counts_gen [of "replicate 256 0" raw, folded byte_counts_def, simplified, unfolded Let_def]
  have lt: "unat b < 256" for b :: u8 using unsigned_less [of b, where ?'a = nat] by simp
  then have nth: "byte_counts raw ! unat b = count_list raw b" for b using g by simp
  have "byte_counts raw ! i = count_list raw (of_nat i)" if "i < 256" for i
    using nth [of "of_nat i"] that by (simp add: unat_of_nat take_bit_nat_eq_self)
  with nth lt g show ?thesis by (metis in_set_conv_nth list_ex_iff)
qed

text \<open>The health check is exactly the two tests it documents: a sample is accepted when it has
  no run of 24 equal bytes and no byte value occurs more than 64 times.\<close>

lemma health_check_accepts:
  "health_check raw = Inr () \<longleftrightarrow>
     (\<nexists>a b c. raw = a @ replicate 24 b @ c) \<and> (\<forall>b. count_list raw b \<le> 64)"
  using max_run_ge_iff [of 24 raw]
  by (auto simp: health_check_def RCT_CUTOFF_def APT_MAX_def SEED_SAMPLE_def byte_counts_exceeds not_less)
    (metis linorder_not_less)

section \<open>Seeding\<close>

lemma gather_loop_ok:
  "gather_loop eo n k e = (Inr raw, e') \<Longrightarrow> health_check raw = Inr () \<and> (\<exists>e0. fill_raw eo e0 n = (Inr raw, e'))"
  by (induction k arbitrary: e) (auto simp: is_ok_iff split: prod.splits sum.splits if_splits)

lemma gather_loop_err:
  "gather_loop eo n k e = (Inl err, e') \<Longrightarrow> err = Entropy \<or> (\<exists>e0. fill_raw eo e0 n = (Inl err, e'))"
  by (induction k arbitrary: e) (auto split: prod.splits sum.splits if_splits)

lemma drbg_frame [simp]:
  "seeded (reinit X d domn prev m) = seeded d" "seeded (mix_host X d h) = seeded d"
  "seeded (snd (drbg_fill_bytes X d n)) = seeded d" "seeded (snd (random_array X n d)) = seeded d"
  "seeded (snd (drbg_next_u64 X d)) = seeded d" "seeded (snd (drbg_next_u32 X d)) = seeded d"
  by (simp_all add: reinit_def mix_host_def drbg_fill_bytes_def random_array_def drbg_next_u64_def
      drbg_next_u32_def bump_def Let_def split_def)

lemma drbg_seed_ok:
  assumes "drbg_seed X eo d e = (Inr u, d', e')"
  obtains raw where "health_check raw = Inr ()" and "seeded d'"
    and "rng d' = chacha_from_seed X (take 32 (sha512 X (as_bytes ''usbhsm-drbg-seed-v1'' @ raw)))"
  using assms gather_loop_ok
  by (fastforce simp: drbg_seed_def gather_healthy_def reinit_def Let_def split: prod.splits sum.splits)

text \<open>An entropy source that keeps a log of the samples it delivered, the latest first.\<close>

definition logged :: "'e entropy_ops \<Rightarrow> ('e \<times> bytes list) entropy_ops" where
  "logged eo = \<lparr> fill_raw = (\<lambda>(e, log) n. case fill_raw eo e n of
       (Inl err, e1) \<Rightarrow> (Inl err, e1, log)
     | (Inr raw, e1) \<Rightarrow> (Inr raw, e1, raw # log)) \<rparr>"

lemma logged_fill:
  assumes "fill_raw (logged eo) (e, log) n = (res, e', log')"
  shows "set log \<subseteq> set log'" and "res = Inr raw \<Longrightarrow> raw \<in> set log'"
  using assms by (auto simp: logged_def split: prod.splits sum.splits)

lemma logged_gather:
  "gather_loop (logged eo) n k (e, log) = (res, e', log') \<Longrightarrow>
    set log \<subseteq> set log' \<and> (\<forall>raw. res = Inr raw \<longrightarrow> raw \<in> set log' \<and> health_check raw = Inr ())"
proof (induction k arbitrary: e log)
  case (Suc k)
  obtain x e1 log1 where 1: "fill_raw (logged eo) (e, log) n = (x, e1, log1)" by (metis prod.exhaust)
  note l = logged_fill [OF 1]
  show ?case
  proof (cases "\<exists>raw. x = Inr raw \<and> health_check raw \<noteq> Inr ()")
    case True
    then have "gather_loop (logged eo) n k (e1, log1) = (res, e', log')" using Suc.prems by (auto simp: 1 is_ok_iff)
    from Suc.IH [OF this] l(1) show ?thesis by blast
  qed (use Suc.prems l in \<open>auto simp: 1 is_ok_iff split: sum.splits\<close>)
qed auto

lemma logged_seed:
  assumes "drbg_seed X (logged eo) d (e, log) = (res, d', e', log')"
  shows "set log \<subseteq> set log'" and "seeded d' \<longleftrightarrow> seeded d \<or> is_ok res"
    and "is_ok res \<Longrightarrow> \<exists>raw \<in> set log'. health_check raw = Inr ()
      \<and> rng d' = chacha_from_seed X (take 32 (sha512 X (as_bytes ''usbhsm-drbg-seed-v1'' @ raw)))"
proof -
  obtain g e1 log1 where g: "gather_healthy (logged eo) (e, log) SEED_SAMPLE = (g, e1, log1)" by (metis prod.exhaust)
  note l = logged_gather [OF g [unfolded gather_healthy_def]]
  show "set log \<subseteq> set log'" "seeded d' \<longleftrightarrow> seeded d \<or> is_ok res"
    "is_ok res \<Longrightarrow> \<exists>raw \<in> set log'. health_check raw = Inr ()
      \<and> rng d' = chacha_from_seed X (take 32 (sha512 X (as_bytes ''usbhsm-drbg-seed-v1'' @ raw)))"
    using assms l by (auto simp: drbg_seed_def g reinit_def Let_def is_ok_iff split: sum.splits)
qed

lemma logged_reseed:
  assumes "drbg_reseed X (logged eo) d (e, log) = (res, d', e', log')"
  shows "set log \<subseteq> set log'" and "seeded d' = seeded d"
proof -
  obtain g e1 log1 where g: "gather_healthy (logged eo) (e, log) SEED_SAMPLE = (g, e1, log1)" by (metis prod.exhaust)
  note l = logged_gather [OF g [unfolded gather_healthy_def]]
  show "set log \<subseteq> set log'" "seeded d' = seeded d"
    using assms l by (auto simp: drbg_reseed_def g Let_def split: sum.splits prod.splits)
qed

text \<open>The lives of a generator: every operation of its interface, in any order and with any outcome, on one
  entropy source. The flag says whether a call of \<^verbatim>\<open>seed\<close> has returned without error; the list is the log
  of the source.\<close>

inductive drbg_life :: "'r externs \<Rightarrow> 'e entropy_ops \<Rightarrow> bool \<Rightarrow> 'r drbg \<Rightarrow> 'e \<Rightarrow> bytes list \<Rightarrow> bool" for X eo where
  created: "drbg_life X eo False (drbg_new X) e []"
| seeds: "drbg_life X eo was_ok d e log \<Longrightarrow> drbg_seed X (logged eo) d (e, log) = (res, d', e', log')
    \<Longrightarrow> drbg_life X eo (was_ok \<or> is_ok res) d' e' log'"
| reseeds: "drbg_life X eo was_ok d e log \<Longrightarrow> drbg_reseed X (logged eo) d (e, log) = (res, d', e', log')
    \<Longrightarrow> drbg_life X eo was_ok d' e' log'"
| mixes: "drbg_life X eo was_ok d e log \<Longrightarrow> drbg_life X eo was_ok (mix_host X d host) e log"
| fills: "drbg_life X eo was_ok d e log \<Longrightarrow> drbg_life X eo was_ok (snd (drbg_fill_bytes X d n)) e log"
| draws_u32: "drbg_life X eo was_ok d e log \<Longrightarrow> drbg_life X eo was_ok (snd (drbg_next_u32 X d)) e log"
| draws_u64: "drbg_life X eo was_ok d e log \<Longrightarrow> drbg_life X eo was_ok (snd (drbg_next_u64 X d)) e log"

text \<open>C33: a generator counts as seeded only through a healthy sample. In every life of a generator, through any
  sequence of seeding, reseeding, host mixing and output with any outcome, \<^verbatim>\<open>is_seeded\<close> holds exactly when
  a call of \<^verbatim>\<open>seed\<close> has returned without error, and then the entropy source has delivered a sample that
  passes both health tests: no run of 24 equal bytes and no byte value more than 64 times. Neither
  host-supplied bytes nor a reseed set it.\<close>

theorem drbg_seeded_iff_healthy:
  assumes "drbg_life X eo was_ok d e log"
  shows "(seeded d \<longleftrightarrow> was_ok)
    \<and> (seeded d \<longrightarrow> (\<exists>raw \<in> set log. (\<nexists>a b c. raw = a @ replicate 24 b @ c) \<and> (\<forall>b. count_list raw b \<le> 64)))"
  using assms
proof (induction rule: drbg_life.induct)
  case (seeds was_ok d e log res d' e' log')
  from seeds logged_seed [OF seeds(2)] show ?case unfolding health_check_accepts by blast
next
  case (reseeds was_ok d e log res d' e' log')
  from reseeds logged_reseed [OF reseeds(2)] show ?case by blast
qed (simp_all add: drbg_new_def)

text \<open>A counter as a concrete entropy source: byte \<open>i\<close> of a sample is \<open>i\<close>.\<close>

definition counting_entropy :: "nat entropy_ops" where
  "counting_entropy = \<lparr> fill_raw = (\<lambda>e n. (Inr (map of_nat [0..<n]), Suc e)) \<rparr>"

lemma distinct_healthy:
  assumes "distinct raw"
  shows "health_check raw = Inr ()"
proof -
  have "count_list raw b \<le> 1" for b
    using assms by (induction raw) auto
  then have "count_list raw b \<le> 64" for b
    by (rule le_trans) simp
  moreover have "\<not> max_run raw \<ge> 24"
    using assms max_run_ge_iff [of 24 raw] by (auto simp: eval_nat_numeral)
  ultimately show ?thesis
    by (auto simp: health_check_def RCT_CUTOFF_def APT_MAX_def SEED_SAMPLE_def byte_counts_exceeds
        linorder_not_less)
qed

lemma counting_sample: "distinct (map (of_nat :: nat \<Rightarrow> u8) [0..<256])"
proof -
  have "inj_on (of_nat :: nat \<Rightarrow> u8) {0..<256}"
    by (rule inj_onI) (simp add: word_of_nat_eq_iff take_bit_nat_eq_self)
  then show ?thesis by (simp add: distinct_map)
qed

lemma counting_gather:
  "gather_healthy counting_entropy e SEED_SAMPLE = (Inr (map of_nat [0..<256]), Suc e)"
proof -
  have "fill_raw counting_entropy e SEED_SAMPLE = (Inr (map of_nat [0..<256]), Suc e)"
    by (simp add: counting_entropy_def SEED_SAMPLE_def)
  then have "gather_loop counting_entropy SEED_SAMPLE (Suc 15) e = (Inr (map of_nat [0..<256]), Suc e)"
    using distinct_healthy [OF counting_sample] by (simp only: gather_loop.simps) simp
  then show ?thesis by (simp add: gather_healthy_def MAX_HEALTH_RETRIES_def)
qed

theorem drbg_seeded_iff_healthy_witness:
  "\<exists>(d :: nat drbg) raw. drbg_life sample_externs counting_entropy True d (Suc 0) [raw] \<and> seeded d"
proof -
  define raw :: bytes where "raw = map of_nat [0..<256]"
  have h: "health_check raw = Inr ()" unfolding raw_def by (rule distinct_healthy [OF counting_sample])
  have "fill_raw (logged counting_entropy) (0, []) SEED_SAMPLE = (Inr raw, Suc 0, [raw])"
    by (simp only: logged_def counting_entropy_def SEED_SAMPLE_def raw_def entropy_ops.simps prod.case sum.case)
  then have "gather_loop (logged counting_entropy) SEED_SAMPLE (Suc 15) (0, []) = (Inr raw, Suc 0, [raw])"
    using h by (simp only: gather_loop.simps) simp
  then obtain d where "drbg_seed sample_externs (logged counting_entropy) (drbg_new sample_externs) (0, []) = (Inr (), d, Suc 0, [raw])"
    by (simp add: drbg_seed_def gather_healthy_def MAX_HEALTH_RETRIES_def)
  from drbg_life.seeds [OF drbg_life.created this] have l: "drbg_life sample_externs counting_entropy True d (Suc 0) [raw]"
    by simp
  from drbg_seeded_iff_healthy [OF l] l show ?thesis by blast
qed

end
