(* ===== verification/Keys.thy ===== *)
theory Keys
  imports SshWire Rng
begin

text \<open>The Ed25519 CA key (\<^verbatim>\<open>hsm-core/src/keys.rs\<close>). The signing key is represented by its seed.\<close>

record ca_key =
  signing :: bytes

definition ca_from_seed :: "bytes \<Rightarrow> ca_key" where
  "ca_from_seed seed = \<lparr> signing = seed \<rparr>"

definition ca_generate :: "'r externs \<Rightarrow> 'r drbg \<Rightarrow> (bytes \<times> ca_key) \<times> 'r drbg" where
  "ca_generate X d = (let (seed, d1) = drbg_fill_bytes X d 32 in ((seed, ca_from_seed seed), d1))"

definition public_bytes :: "'r externs \<Rightarrow> ca_key \<Rightarrow> bytes" where
  "public_bytes X ca = ed_public X (signing ca)"

definition public_blob :: "'r externs \<Rightarrow> ca_key \<Rightarrow> bytes" where
  "public_blob X ca = put_string (put_string [] (as_bytes ''ssh-ed25519'')) (public_bytes X ca)"

definition authorized_line :: "'r externs \<Rightarrow> ca_key \<Rightarrow> string \<Rightarrow> string" where
  "authorized_line X ca comment =
     (let blob = public_blob X ca in
      if comment = [] then ''ssh-ed25519 '' @ b64_encode X blob
      else ''ssh-ed25519 '' @ b64_encode X blob @ '' '' @ comment)"

definition ca_sign :: "'r externs \<Rightarrow> ca_key \<Rightarrow> bytes \<Rightarrow> bytes" where
  "ca_sign X ca msg = ed_sign X (signing ca) msg"

definition signature_blob :: "'r externs \<Rightarrow> ca_key \<Rightarrow> bytes \<Rightarrow> bytes" where
  "signature_blob X ca msg =
     (let sig = ca_sign X ca msg in put_string (put_string [] (as_bytes ''ssh-ed25519'')) sig)"

definition authorized_line_from_pubkey :: "'r externs \<Rightarrow> bytes \<Rightarrow> string \<Rightarrow> string" where
  "authorized_line_from_pubkey X pubkey comment =
     (let blob = put_string (put_string [] (as_bytes ''ssh-ed25519'')) pubkey in
      if comment = [] then ''ssh-ed25519 '' @ b64_encode X blob
      else ''ssh-ed25519 '' @ b64_encode X blob @ '' '' @ comment)"

lemma public_blob_eq: "public_blob X ca = ssh_string (as_bytes ''ssh-ed25519'') @ ssh_string (public_bytes X ca)"
  by (simp add: public_blob_def wire_simps)

lemma signature_blob_eq:
  "signature_blob X ca msg = ssh_string (as_bytes ''ssh-ed25519'') @ ssh_string (ca_sign X ca msg)"
  by (simp add: signature_blob_def wire_simps)

lemma authorized_line_pubkey:
  "authorized_line X ca comment = authorized_line_from_pubkey X (public_bytes X ca) comment"
  by (simp add: authorized_line_def authorized_line_from_pubkey_def public_blob_def)

lemma ca_generate_seed: "ca_generate X d = ((seed, ca), d') \<Longrightarrow> ca = ca_from_seed seed \<and> seeded d' = seeded d"
  using drbg_frame(3) [of X d 32] by (cases "drbg_fill_bytes X d 32") (auto simp: ca_generate_def)

lemma ca_generate_length: "lengths_ok X \<Longrightarrow> ca_generate X d = ((seed, ca), d') \<Longrightarrow> length seed = 32"
  by (auto simp: ca_generate_def drbg_fill_bytes_def lengths_ok_def Let_def split: prod.splits) (metis fst_conv)

end
