(* ===== verification/Cert.thy ===== *)
theory Cert
  imports Keys
begin

text \<open>
  OpenSSH certificate assembly (\<^verbatim>\<open>hsm-core/src/cert.rs\<close>). \<open>tbs\<close> is the byte string the CA signs; it is
  shown to determine every field of the certificate.
\<close>

definition CERT_TYPE_USER :: u32 where
  "CERT_TYPE_USER = 1"

record cert_params =
  cp_cert_algo :: string
  cp_key_body :: bytes
  cp_nonce :: bytes
  cp_serial :: u64
  cp_key_id :: string
  cp_principals :: "string list"
  cp_valid_after :: u64
  cp_valid_before :: u64
  cp_critical_options :: btree
  cp_extensions :: btree

fun marshal_principals :: "string list \<Rightarrow> bytes \<Rightarrow> bytes" where
  "marshal_principals [] out = out"
| "marshal_principals (p # ps) out = marshal_principals ps (put_string out (as_bytes p))"

fun marshal_tuples :: "btree \<Rightarrow> bytes \<Rightarrow> bytes" where
  "marshal_tuples [] out = out"
| "marshal_tuples ((k, v) # m) out =
     (let out1 = put_string out (as_bytes k);
          out2 = (if v = [] then put_string out1 []
                  else let inner = put_string [] (as_bytes v) in put_string out1 inner)
      in marshal_tuples m out2)"

text \<open>The bytes for signing: everything up to and including the signature key.\<close>

definition cert_tbs :: "'r externs \<Rightarrow> cert_params \<Rightarrow> ca_key \<Rightarrow> bytes" where
  "cert_tbs X p ca =
     (let b1 = put_string [] (as_bytes (cp_cert_algo p));
          b2 = put_string b1 (cp_nonce p);
          b3 = b2 @ cp_key_body p;
          b4 = put_u64 b3 (cp_serial p);
          b5 = put_u32 b4 CERT_TYPE_USER;
          b6 = put_string b5 (as_bytes (cp_key_id p));
          principals_blob = marshal_principals (cp_principals p) [];
          b7 = put_string b6 principals_blob;
          b8 = put_u64 b7 (cp_valid_after p);
          b9 = put_u64 b8 (cp_valid_before p);
          crit = marshal_tuples (cp_critical_options p) [];
          b10 = put_string b9 crit;
          ext = marshal_tuples (cp_extensions p) [];
          b11 = put_string b10 ext;
          b12 = put_string b11 [];
          ca_pub = public_blob X ca
      in put_string b12 ca_pub)"

definition build_certificate :: "'r externs \<Rightarrow> cert_params \<Rightarrow> ca_key \<Rightarrow> string" where
  "build_certificate X p ca =
     (let blob = cert_tbs X p ca;
          sig_blob = signature_blob X ca blob
      in cp_cert_algo p @ '' '' @ b64_encode X (put_string blob sig_blob))"

section \<open>Unambiguous encoding\<close>

definition short :: "bytes \<Rightarrow> bool" where
  "short s \<longleftrightarrow> length s < 2 ^ 32"

lemma ssh_string_inject:
  assumes "short s" and "short t"
  shows "ssh_string s @ x = ssh_string t @ y \<longleftrightarrow> s = t \<and> x = y"
proof
  assume eq: "ssh_string s @ x = ssh_string t @ y"
  then have "to_be_bytes 4 (of_nat (length s) :: u32) = to_be_bytes 4 (of_nat (length t) :: u32)"
    by (auto simp: ssh_string_def append_eq_append_conv)
  then have "(of_nat (length s) :: u32) = of_nat (length t)"
    using from_be_bytes_u32 by metis
  then have "length s = length t"
    using assms unat_of_nat_u32 unfolding short_def by metis
  with eq show "s = t \<and> x = y" by (auto simp: ssh_string_def append_eq_append_conv)
qed simp

lemma ssh_string_inject1: "short s \<Longrightarrow> short t \<Longrightarrow> ssh_string s = ssh_string t \<longleftrightarrow> s = t"
  using ssh_string_inject [of s t "[]" "[]"] by simp

lemma ssh_string_not_Nil [simp]: "ssh_string s \<noteq> []" "[] \<noteq> ssh_string s"
  by (auto simp: ssh_string_def eval_nat_numeral)

definition strings :: "bytes list \<Rightarrow> bytes" where
  "strings ss = concat (map ssh_string ss)"

lemma strings_inject:
  "list_all short ss \<Longrightarrow> list_all short ts \<Longrightarrow> strings ss = strings ts \<longleftrightarrow> ss = ts"
proof (induction ss arbitrary: ts)
  case Nil
  then show ?case by (cases ts) (auto simp: strings_def)
next
  case (Cons s ss)
  then show ?case by (cases ts) (auto simp: strings_def ssh_string_inject)
qed

lemma strings_inject_append:
  "length ss = length ts \<Longrightarrow> list_all short ss \<Longrightarrow> list_all short ts \<Longrightarrow>
     strings ss @ x = strings ts @ y \<longleftrightarrow> ss = ts \<and> x = y"
  by (induction ss ts rule: list_induct2) (auto simp: strings_def ssh_string_inject)

lemma marshal_principals_eq: "marshal_principals ps out = out @ strings (map as_bytes ps)"
  by (induction ps out rule: marshal_principals.induct) (simp_all add: wire_simps strings_def)

text \<open>The value field of an option: empty, or a second length prefix and the value.\<close>

definition value_field :: "string \<Rightarrow> bytes" where
  "value_field v = (if v = [] then [] else ssh_string (as_bytes v))"

definition tuple_strings :: "btree \<Rightarrow> bytes list" where
  "tuple_strings m = concat (map (\<lambda>(k, v). [as_bytes k, value_field v]) m)"

lemma marshal_tuples_eq: "marshal_tuples m out = out @ strings (tuple_strings m)"
  by (induction m out rule: marshal_tuples.induct)
    (simp_all add: wire_simps strings_def tuple_strings_def value_field_def Let_def)

lemma value_field_inject:
  "short (as_bytes v) \<Longrightarrow> short (as_bytes w) \<Longrightarrow> value_field v = value_field w \<longleftrightarrow> v = w"
  by (auto simp: value_field_def ssh_string_inject1)

definition tuples_short :: "btree \<Rightarrow> bool" where
  "tuples_short m \<longleftrightarrow> list_all (\<lambda>(k, v). length k + length v + 8 < 2 ^ 32) m"

lemma tuples_short_strings: "tuples_short m \<Longrightarrow> list_all short (tuple_strings m)"
  by (induction m) (auto simp: tuples_short_def tuple_strings_def short_def value_field_def)

lemma tuple_strings_inject:
  "tuples_short m \<Longrightarrow> tuples_short n \<Longrightarrow> tuple_strings m = tuple_strings n \<longleftrightarrow> m = n"
proof (induction m arbitrary: n)
  case Nil
  then show ?case by (cases n) (auto simp: tuple_strings_def)
next
  case (Cons kv m)
  show ?case
  proof (cases n)
    case (Cons lw n')
    obtain k v l w where kv: "kv = (k, v)" "lw = (l, w)" by fastforce
    have "short (as_bytes v)" "short (as_bytes w)"
      using Cons.prems \<open>n = lw # n'\<close> by (auto simp: kv tuples_short_def short_def)
    then show ?thesis
      using Cons.IH [of n'] Cons.prems \<open>n = lw # n'\<close> value_field_inject [of v w]
      by (auto simp: kv tuples_short_def tuple_strings_def)
  qed (cases kv; simp add: tuple_strings_def)
qed

lemma cert_tbs_eq:
  "cert_tbs X p ca = ssh_string (as_bytes (cp_cert_algo p)) @ ssh_string (cp_nonce p) @ cp_key_body p
     @ to_be_bytes 8 (cp_serial p) @ to_be_bytes 4 CERT_TYPE_USER @ ssh_string (as_bytes (cp_key_id p))
     @ ssh_string (strings (map as_bytes (cp_principals p)))
     @ to_be_bytes 8 (cp_valid_after p) @ to_be_bytes 8 (cp_valid_before p)
     @ ssh_string (strings (tuple_strings (cp_critical_options p)))
     @ ssh_string (strings (tuple_strings (cp_extensions p))) @ ssh_string [] @ ssh_string (public_blob X ca)"
  by (simp add: cert_tbs_def wire_simps marshal_principals_eq marshal_tuples_eq Let_def)

text \<open>The number of strings in the key fields is fixed by the certificate algorithm.\<close>

definition key_fields :: "string \<Rightarrow> nat" where
  "key_fields ca = (if ca = ''ssh-ed25519-cert-v01@openssh.com'' then 1 else 2)"

definition body_ok :: "cert_params \<Rightarrow> bool" where
  "body_ok p \<longleftrightarrow> (\<exists>ss. length ss = key_fields (cp_cert_algo p) \<and> cp_key_body p = strings ss)"

lemma key_shape_fields:
  assumes "key_shape X a k body" and "cert_algo_for a = Some ca"
  shows "\<exists>ss. length ss = key_fields ca \<and> body = strings ss"
proof -
  have one: "\<exists>ss. length ss = 1 \<and> body = strings ss" if "body = ssh_string s" for s
    using that by (intro exI [of _ "[s]"]) (simp add: strings_def)
  have two: "\<exists>ss. length ss = 2 \<and> body = strings ss" if "body = ssh_string s @ ssh_string t" for s t
    using that by (intro exI [of _ "[s, t]"]) (simp add: strings_def)
  show ?thesis
    using assms one two
    by (cases k) (auto simp: key_shape_def cert_algo_for_def key_fields_def ed25519_body_def rsa_body_def ecdsa_body_def)
qed

lemma strings_member_length: "s \<in> set ss \<Longrightarrow> length s \<le> length (strings ss)"
  by (induction ss) (auto simp: strings_def)

lemma strings_short: "length (strings ss) < 2 ^ 32 \<Longrightarrow> list_all short ss"
  using strings_member_length [of _ ss] by (force simp: list_all_iff short_def)

lemma tuple_strings_short: "length (strings (tuple_strings m)) < 2 ^ 32 \<Longrightarrow> tuples_short m"
proof (induction m)
  case (Cons kv m)
  then show ?case by (cases kv) (auto simp: tuples_short_def tuple_strings_def strings_def value_field_def split: if_splits)
qed (simp add: tuples_short_def)

lemma be_bytes_inject:
  "to_be_bytes 8 (a :: u64) @ x = to_be_bytes 8 b @ y \<longleftrightarrow> a = b \<and> x = y"
proof
  assume eq: "to_be_bytes 8 a @ x = to_be_bytes 8 b @ y"
  then have "(from_be_bytes (to_be_bytes 8 a) :: u64) = from_be_bytes (to_be_bytes 8 b)"
    by (simp add: append_eq_append_conv)
  then have "a = b" by (simp only: from_be_bytes_u64)
  with eq show "a = b \<and> x = y" by simp
qed simp

text \<open>C38: what the CA signs is unambiguous. Two certificates (of less than 4 GiB, with key fields the
  parser accepts) whose signed bytes are equal agree in every field: algorithm, nonce, key, serial,
  key id, principals, validity, critical options, extensions and signing CA.\<close>

theorem certificate_unambiguous:
  assumes "cert_tbs X p ca = cert_tbs X q cb" and "length (cert_tbs X p ca) < 2 ^ 32"
    and "body_ok p" and "body_ok q"
  shows "p = q \<and> public_blob X ca = public_blob X cb"
proof -
  have lens: "length (cert_tbs X p ca) < 2 ^ 32" "length (cert_tbs X q cb) < 2 ^ 32" using assms(1,2) by simp_all
  note short_p = lens(1) [unfolded cert_tbs_eq, simplified] and short_q = lens(2) [unfolded cert_tbs_eq, simplified]
  obtain ss ts where ss: "length ss = key_fields (cp_cert_algo p)" "cp_key_body p = strings ss"
    and ts: "length ts = key_fields (cp_cert_algo q)" "cp_key_body q = strings ts"
    using assms(3,4) by (auto simp: body_ok_def)
  have body: "list_all short ss" "list_all short ts"
    using short_p short_q ss ts by (auto intro: strings_short)
  note eq = assms(1) [unfolded cert_tbs_eq]
  from eq have a: "cp_cert_algo p = cp_cert_algo q"
    using short_p short_q by (simp add: ssh_string_inject short_def)
  with eq ss ts body have b: "cp_nonce p = cp_nonce q" "ss = ts" "cp_serial p = cp_serial q"
      "cp_key_id p = cp_key_id q" and
    c: "strings (map as_bytes (cp_principals p)) = strings (map as_bytes (cp_principals q))"
      "cp_valid_after p = cp_valid_after q" "cp_valid_before p = cp_valid_before q"
      "strings (tuple_strings (cp_critical_options p)) = strings (tuple_strings (cp_critical_options q))"
      "strings (tuple_strings (cp_extensions p)) = strings (tuple_strings (cp_extensions q))"
      "public_blob X ca = public_blob X cb"
    using short_p short_q
    by (simp_all add: ssh_string_inject ssh_string_inject1 short_def strings_inject_append be_bytes_inject)
  have "map as_bytes (cp_principals p) = map as_bytes (cp_principals q)"
    using c(1) short_p short_q strings_inject [OF strings_short strings_short] by simp
  then have d: "cp_principals p = cp_principals q"
    by (rule map_injective) (rule injI, simp)
  have "cp_critical_options p = cp_critical_options q" "cp_extensions p = cp_extensions q"
    using c(4,5) short_p short_q strings_inject [OF strings_short strings_short]
      tuple_strings_inject [OF tuple_strings_short tuple_strings_short] by simp_all
  then show ?thesis using a b c(2,3,6) d ss ts by simp
qed

definition sample_cert :: cert_params where
  "sample_cert = \<lparr> cp_cert_algo = ''ssh-ed25519-cert-v01@openssh.com'', cp_key_body = ssh_string (replicate 32 0),
     cp_nonce = replicate 32 7, cp_serial = 1, cp_key_id = ''id'', cp_principals = [''alice'', ''bob''],
     cp_valid_after = 10, cp_valid_before = 20, cp_critical_options = [],
     cp_extensions = [(''permit-pty'', [])] \<rparr>"

lemma sample_cert_ok: "body_ok sample_cert" "length (cert_tbs sample_externs sample_cert (ca_from_seed [])) < 2 ^ 32"
proof -
  show "body_ok sample_cert"
    unfolding body_ok_def by (intro exI [of _ "[replicate 32 0]"]) (simp add: sample_cert_def key_fields_def strings_def)
  show "length (cert_tbs sample_externs sample_cert (ca_from_seed [])) < 2 ^ 32"
    by (simp add: cert_tbs_eq sample_cert_def strings_def tuple_strings_def value_field_def public_blob_eq
        public_bytes_def sample_externs_def ca_from_seed_def)
qed

theorem certificate_unambiguous_witness:
  "cert_tbs sample_externs sample_cert (ca_from_seed []) \<noteq>
     cert_tbs sample_externs (sample_cert\<lparr>cp_principals := [''alicebob'']\<rparr>) (ca_from_seed [])"
proof
  let ?q = "sample_cert\<lparr>cp_principals := [''alicebob'']\<rparr>"
  assume "cert_tbs sample_externs sample_cert (ca_from_seed []) = cert_tbs sample_externs ?q (ca_from_seed [])"
  moreover have "body_ok ?q" using sample_cert_ok(1) by (simp add: body_ok_def)
  ultimately have "sample_cert = ?q"
    using certificate_unambiguous sample_cert_ok by metis
  then show False by (simp add: sample_cert_def)
qed

text \<open>An issued certificate line is the algorithm name and the base64 text of a blob whose last
  field is an Ed25519 signature over exactly the bytes before it, which verifies under the CA public
  key those bytes end with.\<close>

lemma certificate_signature_verifies:
  assumes "base64_correct X" and "ed_correct X"
  shows "\<exists>text body sig. build_certificate X p ca = cp_cert_algo p @ '' '' @ text
    \<and> base64_decode X text = Some (body @ ssh_string (ssh_string (as_bytes ''ssh-ed25519'') @ ssh_string sig))
    \<and> (\<exists>pre. body = pre @ ssh_string (ssh_string (as_bytes ''ssh-ed25519'') @ ssh_string (public_bytes X ca)))
    \<and> ed_verify X (public_bytes X ca) body sig"
proof -
  let ?body = "cert_tbs X p ca" and ?sig = "ca_sign X ca (cert_tbs X p ca)"
  let ?text = "b64_encode X (?body @ ssh_string (signature_blob X ca ?body))"
  have "build_certificate X p ca = cp_cert_algo p @ '' '' @ ?text"
    by (simp add: build_certificate_def wire_simps Let_def)
  moreover have "base64_decode X ?text = Some (?body @ ssh_string (ssh_string (as_bytes ''ssh-ed25519'') @ ssh_string ?sig))"
    using assms(1) by (simp add: base64_correct_def b64_encode_def signature_blob_eq)
  moreover have "\<exists>pre. ?body = pre @ ssh_string (ssh_string (as_bytes ''ssh-ed25519'') @ ssh_string (public_bytes X ca))"
    by (simp add: cert_tbs_eq public_blob_eq append_assoc [symmetric] del: append_assoc)
  moreover have "ed_verify X (public_bytes X ca) ?body ?sig"
    using assms(2) by (simp add: ed_correct_def public_bytes_def ca_sign_def)
  ultimately show ?thesis by blast
qed

end
