(* ===== verification/Wrap.thy ===== *)
theory Wrap
  imports Storage Externs
begin

text \<open>
  Key wrapping (\<^verbatim>\<open>hsm-core/src/wrap.rs\<close>): derivation of the key-encryption keys from the OTP secret and
  the PIN, and AEAD wrapping of the CA seed into a key blob.
\<close>

datatype wrap_error = Kdf | Auth

definition dev_kek :: "'r externs \<Rightarrow> bytes \<Rightarrow> bytes" where
  "dev_kek X secret = hkdf_sha256 X None secret (as_bytes ''usbhsm-dev-kek-v2'') 32"

definition pin_kek :: "'r externs \<Rightarrow> bytes \<Rightarrow> bytes \<Rightarrow> argon2_params \<Rightarrow> bytes \<Rightarrow> wrap_error + bytes" where
  "pin_kek X pin s params secret =
     (if \<not> argon2_params_ok X (m_cost params) (t_cost params) (ucast (parallelism params)) then Inl Kdf
      else case argon2id X (m_cost params) (t_cost params) (ucast (parallelism params)) pin s of
          None \<Rightarrow> Inl Kdf
        | Some stretched \<Rightarrow>
            Inr (hkdf_sha256 X (Some secret) stretched (as_bytes ''usbhsm-prod-kek-v2'') 32))"

definition aad :: "wrap_type \<Rightarrow> bytes \<Rightarrow> bytes" where
  "aad t pk = wrap_type_u8 t # pk"

definition wrap_seed :: "'r externs \<Rightarrow> bytes \<Rightarrow> bytes \<Rightarrow> bytes \<Rightarrow> wrap_type \<Rightarrow> bytes \<Rightarrow> bytes \<Rightarrow> key_blob" where
  "wrap_seed X kek seed pk t s nonce =
     (let (buf, tg) = aead_seal X kek nonce (aad t pk) seed
      in \<lparr> wrap_type = t, aead_nonce = nonce, pubkey = pk, ciphertext = buf, tag = tg, salt = s \<rparr>)"

definition unwrap_seed :: "'r externs \<Rightarrow> bytes \<Rightarrow> key_blob \<Rightarrow> wrap_error + bytes" where
  "unwrap_seed X kek blob =
     (case aead_open X kek (aead_nonce blob) (aad (wrap_type blob) (pubkey blob)) (ciphertext blob) (tag blob) of
        None \<Rightarrow> Inl Auth
      | Some buf \<Rightarrow> Inr buf)"

lemma unwrap_wrap: "aead_correct X \<Longrightarrow> unwrap_seed X kek (wrap_seed X kek seed pk t s nonce) = Inr seed"
  by (simp add: unwrap_seed_def wrap_seed_def aead_correct_def split: prod.splits)

lemma wrap_seed_ok:
  assumes "lengths_ok X" and "length seed = 32" and "length pk = 32" and "length s = 16" and "length nonce = 12"
  shows "key_blob_ok (wrap_seed X kek seed pk t s nonce)"
  using assms by (auto simp: wrap_seed_def key_blob_ok_def lengths_ok_def split: prod.splits) (metis fst_conv snd_conv)+

lemma wrap_seed_fields [simp]:
  "pubkey (wrap_seed X kek seed pk t s nonce) = pk" "salt (wrap_seed X kek seed pk t s nonce) = s"
  "wrap_type (wrap_seed X kek seed pk t s nonce) = t"
  by (simp_all add: wrap_seed_def split: prod.splits)

text \<open>The CA seed survives wrapping, storage and unwrapping: the bytes written to flash for a
  wrapped seed decode to a blob from which the same key-encryption key recovers the seed, with the
  public key and the salt intact.\<close>

lemma wrapped_seed_survives_storage:
  assumes "aead_correct X" and "lengths_ok X"
    and "length seed = 32" and "length pk = 32" and "length slt = 16" and "length nonce = 12"
  shows "\<exists>blob. key_blob_from_bytes (key_blob_to_bytes (wrap_seed X kek seed pk t slt nonce)) = Some blob
    \<and> unwrap_seed X kek blob = Inr seed \<and> pubkey blob = pk \<and> salt blob = slt"
  using key_blob_codec [OF wrap_seed_ok [OF assms(2-)]] unwrap_wrap [OF assms(1)] by simp

end
