(* ===== verification/GoDuration.thy ===== *)
theory GoDuration
  imports Complex_Main Prelude Hex
begin

text \<open>
  The port of Go's \<^verbatim>\<open>time.ParseDuration\<close> and \<^verbatim>\<open>Duration.String\<close> (\<^verbatim>\<open>hsm-core/src/goduration.rs\<close>).
  Durations are \<^verbatim>\<open>i64\<close> nanoseconds. Plain \<^verbatim>\<open>u64\<close> arithmetic and writes below the start of the output
  buffer panic, so the functions return options; the theory shows that they never do. The one use of
  \<^verbatim>\<open>f64\<close>, the scaling of a fraction, is modelled on rationals with an explicit rounding of every
  operation to 53 bits, ties to even.
\<close>

definition NANOSECOND :: u64 where "NANOSECOND = 1"
definition MICROSECOND :: u64 where "MICROSECOND = 1000"
definition MILLISECOND :: u64 where "MILLISECOND = 1000000"
definition SECOND :: u64 where "SECOND = 1000000000"
definition MINUTE :: u64 where "MINUTE = 60 * SECOND"
definition HOUR :: u64 where "HOUR = 3600 * SECOND"

definition TWO_63 :: u64 where "TWO_63 = 0x8000000000000000"

text \<open>The two micro signs are U+00B5 (C2 B5) and U+03BC (CE BC).\<close>

definition unit_map :: "string \<Rightarrow> u64 option" where
  "unit_map u =
     (if u = ''ns'' then Some NANOSECOND
      else if u = ''us'' then Some MICROSECOND
      else if u = [CHR 0xC2, CHR 0xB5, CHR ''s''] then Some MICROSECOND
      else if u = [CHR 0xCE, CHR 0xBC, CHR ''s''] then Some MICROSECOND
      else if u = ''ms'' then Some MILLISECOND
      else if u = ''s'' then Some SECOND
      else if u = ''m'' then Some MINUTE
      else if u = ''h'' then Some HOUR
      else None)"

definition quote_byte :: "char \<Rightarrow> string" where
  "quote_byte c =
     (let b = of_char c :: u8 in
      if c = CHR 0x22 \<or> c = CHR 0x5C then [CHR 0x5C, c]
      else if 0x20 \<le> b \<and> b \<le> 0x7F then [c]
      else [CHR 0x5C, CHR ''x'', hex_digits ! unat (drop_bit 4 b), hex_digits ! unat (b AND 0xF)])"

definition quote :: "string \<Rightarrow> string" where
  "quote s = [CHR 0x22] @ concat (map quote_byte s) @ [CHR 0x22]"

definition err_invalid :: "string \<Rightarrow> string" where
  "err_invalid orig = ''time: invalid duration '' @ quote orig"

definition err_missing_unit :: "string \<Rightarrow> string" where
  "err_missing_unit orig = ''time: missing unit in duration '' @ quote orig"

definition err_unknown_unit :: "string \<Rightarrow> string \<Rightarrow> string" where
  "err_unknown_unit u orig = ''time: unknown unit '' @ quote u @ '' in duration '' @ quote orig"

section \<open>Digits\<close>

definition is_ascii_digit :: "char \<Rightarrow> bool" where
  "is_ascii_digit c \<longleftrightarrow> 48 \<le> (of_char c :: nat) \<and> (of_char c :: nat) \<le> 57"

definition digit_val :: "char \<Rightarrow> u64" where
  "digit_val c = of_nat (of_char c - 48)"

text \<open>The loop of \<^verbatim>\<open>leading_int\<close>, with \<open>x\<close> and \<open>i\<close> its variables.\<close>

fun leading_int_loop :: "u64 \<Rightarrow> nat \<Rightarrow> string \<Rightarrow> (u64 \<times> nat \<times> bool) option" where
  "leading_int_loop x i [] = Some (x, i, False)"
| "leading_int_loop x i (c # s) =
     (if \<not> is_ascii_digit c then Some (x, i, False)
      else if x > TWO_63 div 10 then Some (0, i, True)
      else do {
        y \<leftarrow> u64_checked_mul x 10;
        x1 \<leftarrow> u64_checked_add y (digit_val c);
        if x1 > TWO_63 then Some (0, i, True) else leading_int_loop x1 (i + 1) s
      })"

definition leading_int :: "string \<Rightarrow> (u64 \<times> nat \<times> bool) option" where
  "leading_int s = leading_int_loop 0 0 s"

text \<open>The loop of \<^verbatim>\<open>leading_fraction\<close>. \<^verbatim>\<open>scale\<close> is a product of at most 19 factors ten, which is exact in
  \<^verbatim>\<open>f64\<close>, so it is the rational itself.\<close>

fun leading_fraction_loop :: "u64 \<Rightarrow> rat \<Rightarrow> bool \<Rightarrow> nat \<Rightarrow> string \<Rightarrow> (u64 \<times> rat \<times> nat) option" where
  "leading_fraction_loop x scale overflow i [] = Some (x, scale, i)"
| "leading_fraction_loop x scale overflow i (c # s) =
     (if \<not> is_ascii_digit c then Some (x, scale, i)
      else if overflow then leading_fraction_loop x scale overflow (i + 1) s
      else if x > (TWO_63 - 1) div 10 then leading_fraction_loop x scale True (i + 1) s
      else do {
        t \<leftarrow> u64_checked_mul x 10;
        y \<leftarrow> u64_checked_add t (digit_val c);
        if y > TWO_63 then leading_fraction_loop x scale True (i + 1) s
        else leading_fraction_loop y (scale * 10) False (i + 1) s
      })"

definition leading_fraction :: "string \<Rightarrow> (u64 \<times> rat \<times> nat) option" where
  "leading_fraction s = leading_fraction_loop 0 1 False 0 s"

section \<open>Double-precision arithmetic on positive numbers\<close>

function bit_length :: "int \<Rightarrow> int" where
  "bit_length n = (if n \<le> 0 then 0 else 1 + bit_length (n div 2))"
  by pat_completeness auto
termination by (relation "measure nat") auto

declare bit_length.simps [simp del]

definition pow2 :: "int \<Rightarrow> rat" where
  "pow2 k = (if 0 \<le> k then 2 ^ nat k else 1 / 2 ^ nat (- k))"

definition round_half_even :: "rat \<Rightarrow> int" where
  "round_half_even q =
     (let n = \<lfloor>q\<rfloor>; r = q - of_int n
      in if r < 1 / 2 then n else if r > 1 / 2 then n + 1 else if even n then n else n + 1)"

text \<open>Rounding to the nearest number with 53 significant bits.\<close>

definition f64_round :: "rat \<Rightarrow> rat" where
  "f64_round x =
     (if x \<le> 0 then 0
      else
        let (n, d) = quotient_of x;
            b = bit_length n - bit_length d;
            e = (if x \<ge> pow2 b then b else b - 1);
            ulp = pow2 (e - 52)
        in of_int (round_half_even (x / ulp)) * ulp)"

definition f64_of_u64 :: "u64 \<Rightarrow> rat" where
  "f64_of_u64 w = f64_round (of_int (uint w))"

text \<open>The cast back truncates and saturates.\<close>

definition f64_to_u64 :: "rat \<Rightarrow> u64" where
  "f64_to_u64 a = (if a \<ge> 2 ^ 64 then - 1 else of_int \<lfloor>a\<rfloor>)"

text \<open>\<^verbatim>\<open>(f as f64 * (unit as f64 / scale)) as u64\<close>\<close>

definition scale_fraction :: "u64 \<Rightarrow> u64 \<Rightarrow> rat \<Rightarrow> u64" where
  "scale_fraction f unit scale =
     f64_to_u64 (f64_round (f64_of_u64 f * f64_round (f64_of_u64 unit / scale)))"

section \<open>Parsing\<close>

definition is_unit_char :: "char \<Rightarrow> bool" where
  "is_unit_char c \<longleftrightarrow> \<not> (c = CHR ''.'' \<or> is_ascii_digit c)"

text \<open>The optional fractional part: value, scale, whether it has digits, and the rest.\<close>

definition fraction_part :: "string \<Rightarrow> (u64 \<times> rat \<times> bool \<times> string) option" where
  "fraction_part s =
     (case s of
        c # s1 \<Rightarrow>
          if c = CHR ''.'' then do {
            (ff, sc, c2) \<leftarrow> leading_fraction s1;
            Some (ff, sc, c2 \<noteq> 0, drop c2 s1)
          } else Some (0, 1, False, s)
      | [] \<Rightarrow> Some (0, 1, False, s))"

text \<open>One iteration of the main loop: the duration of the next component and the rest of the text.\<close>

definition parse_component :: "string \<Rightarrow> string \<Rightarrow> (string + u64 \<times> string) option" where
  "parse_component orig s =
     (if s = [] \<or> \<not> (hd s = CHR ''.'' \<or> is_ascii_digit (hd s)) then Some (Inl (err_invalid orig))
      else do {
        (v, consumed, overflow) \<leftarrow> leading_int s;
        if overflow then Some (Inl (err_invalid orig))
        else
          let s1 = drop consumed s; pre = (consumed \<noteq> 0) in do {
          (f, scale, post, s2) \<leftarrow> fraction_part s1;
          if \<not> pre \<and> \<not> post then Some (Inl (err_invalid orig))
          else
            let u = takeWhile is_unit_char s2; s3 = dropWhile is_unit_char s2 in
            if u = [] then Some (Inl (err_missing_unit orig))
            else case unit_map u of
                None \<Rightarrow> Some (Inl (err_unknown_unit u orig))
              | Some unit \<Rightarrow>
                  if v > TWO_63 div unit then Some (Inl (err_invalid orig))
                  else do {
                    v1 \<leftarrow> u64_checked_mul v unit;
                    let v2 = (if f > 0 then v1 + scale_fraction f unit scale else v1)
                    in if f > 0 \<and> v2 > TWO_63 then Some (Inl (err_invalid orig))
                       else Some (Inr (v2, s3))
                  }
          }
      })"

lemma fraction_part_length: "fraction_part s = Some (f, sc, p, s') \<Longrightarrow> length s' \<le> length s"
  by (auto simp: fraction_part_def split: list.splits if_splits Option.bind_splits)

lemma dropWhile_shorter: "takeWhile P s \<noteq> [] \<Longrightarrow> length (dropWhile P s) < length s"
  by (cases s) (auto simp: length_dropWhile_le less_Suc_eq_le split: if_splits)

lemma parse_component_shape:
  assumes "parse_component orig s = Some (Inr (v, s'))"
  obtains k f sc p s2 where "fraction_part (drop k s) = Some (f, sc, p, s2)"
    and "takeWhile is_unit_char s2 \<noteq> []" and "s' = dropWhile is_unit_char s2"
  using assms by (auto simp: parse_component_def Let_def split: if_splits Option.bind_splits option.splits)

lemma parse_component_shorter:
  assumes "parse_component orig s = Some (Inr (v, s'))"
  shows "length s' < length s"
proof -
  obtain k f sc p s2 where fr: "fraction_part (drop k s) = Some (f, sc, p, s2)"
    and "takeWhile is_unit_char s2 \<noteq> []" and s': "s' = dropWhile is_unit_char s2"
    using assms by (rule parse_component_shape)
  then have "length s' < length s2" by (simp add: dropWhile_shorter)
  also have "\<dots> \<le> length s" using fraction_part_length [OF fr] by simp
  finally show ?thesis .
qed

function parse_loop :: "string \<Rightarrow> u64 \<Rightarrow> string \<Rightarrow> (string + u64) option" where
  "parse_loop orig d s =
     (if s = [] then Some (Inr d)
      else case parse_component orig s of
          None \<Rightarrow> None
        | Some (Inl e) \<Rightarrow> Some (Inl e)
        | Some (Inr (v, s')) \<Rightarrow>
            let d1 = d + v in
            if d1 > TWO_63 then Some (Inl (err_invalid orig)) else parse_loop orig d1 s')"
  by pat_completeness auto
termination
  by (relation "measure (\<lambda>(orig, d, s). length s)") (auto dest: parse_component_shorter)

declare parse_loop.simps [simp del]

definition parse_duration :: "string \<Rightarrow> (string + i64) option" where
  "parse_duration orig =
     (let signed = (orig \<noteq> [] \<and> (hd orig = CHR ''-'' \<or> hd orig = CHR ''+''));
          neg = (signed \<and> hd orig = CHR ''-'');
          s = (if signed then tl orig else orig)
      in if s = ''0'' then Some (Inr 0)
         else if s = [] then Some (Inl (err_invalid orig))
         else try_then (parse_loop orig 0 s) (\<lambda>d.
           if neg then Some (Inr (- d))
           else if d > TWO_63 - 1 then Some (Inl (err_invalid orig))
           else Some (Inr d)))"

section \<open>Formatting\<close>

text \<open>The 32-byte buffer is filled from its end: \<open>acc\<close> is \<^verbatim>\<open>buf[w..]\<close>, and a step below index 0 panics.\<close>

definition put_front :: "char \<Rightarrow> string \<Rightarrow> string option" where
  "put_front c acc = (if length acc \<ge> 32 then None else Some (c # acc))"

lemma u64_div_10: "(v :: u64) \<noteq> 0 \<Longrightarrow> unat (v div 10) < unat v"
  by (simp add: unat_div unat_gt_0)

function fmt_int_loop :: "string \<Rightarrow> u64 \<Rightarrow> string option" where
  "fmt_int_loop acc v =
     (if v = 0 then Some acc
      else do { acc1 \<leftarrow> put_front (digit_char (unat (v mod 10))) acc; fmt_int_loop acc1 (v div 10) })"
  by pat_completeness auto
termination by (relation "measure (\<lambda>(acc, v). unat v)") (auto simp: u64_div_10)

declare fmt_int_loop.simps [simp del]

definition fmt_int :: "string \<Rightarrow> u64 \<Rightarrow> string option" where
  "fmt_int acc v = (if v = 0 then put_front (CHR ''0'') acc else fmt_int_loop acc v)"

primrec fmt_frac_loop :: "nat \<Rightarrow> string \<Rightarrow> u64 \<Rightarrow> bool \<Rightarrow> (string \<times> u64 \<times> bool) option" where
  "fmt_frac_loop 0 acc v print = Some (acc, v, print)"
| "fmt_frac_loop (Suc n) acc v print =
     (let digit = v mod 10; print1 = (print \<or> digit \<noteq> 0) in
      if print1 then do { acc1 \<leftarrow> put_front (digit_char (unat digit)) acc; fmt_frac_loop n acc1 (v div 10) print1 }
      else fmt_frac_loop n acc (v div 10) print1)"

definition fmt_frac :: "string \<Rightarrow> u64 \<Rightarrow> nat \<Rightarrow> (string \<times> u64) option" where
  "fmt_frac acc v prec = do {
     (acc1, v1, print) \<leftarrow> fmt_frac_loop prec acc v False;
     if print then do { acc2 \<leftarrow> put_front (CHR ''.'') acc1; Some (acc2, v1) } else Some (acc1, v1)
   }"

definition format_sub_second :: "u64 \<Rightarrow> string option" where
  "format_sub_second u =
     (let (unit, prec) =
        (if u < MICROSECOND then (''ns'', 0)
         else if u < MILLISECOND then ([CHR 0xC2, CHR 0xB5, CHR ''s''], 3)
         else (''ms'', 6))
      in do { (acc, v) \<leftarrow> fmt_frac unit u prec; fmt_int acc v })"

definition format_seconds :: "u64 \<Rightarrow> string option" where
  "format_seconds u = do {
     (a1, secs) \<leftarrow> fmt_frac ''s'' u 9;
     a2 \<leftarrow> fmt_int a1 (secs mod 60);
     let mins = secs div 60 in
     if mins > 0 then do {
       a3 \<leftarrow> put_front (CHR ''m'') a2;
       a4 \<leftarrow> fmt_int a3 (mins mod 60);
       let hours = mins div 60 in
       if hours > 0 then do { a5 \<leftarrow> put_front (CHR ''h'') a4; fmt_int a5 hours } else Some a4
     } else Some a2
   }"

definition format_duration :: "i64 \<Rightarrow> string option" where
  "format_duration d =
     (let neg = (sint d < 0); u = i64_unsigned_abs d
      in if u = 0 then Some ''0s''
         else do {
           acc \<leftarrow> (if u < SECOND then format_sub_second u else format_seconds u);
           if neg then put_front (CHR ''-'') acc else Some acc
         })"

section \<open>No panics\<close>

lemma uint_TWO_63 [simp]: "uint TWO_63 = 2 ^ 63" "uint (TWO_63 div 10) = 922337203685477580"
    "uint ((TWO_63 - 1) div 10) = 922337203685477580"
  by (simp_all add: TWO_63_def)

lemma uint_digit_val:
  assumes "is_ascii_digit c"
  shows "uint (digit_val c) = int (of_char c - 48)" and "int (of_char c - 48) < 10"
proof -
  define n where "n = (of_char c :: nat) - 48"
  have n: "n < 10" using assms unfolding n_def is_ascii_digit_def by linarith
  then have "uint (of_nat n :: u64) = int n" by (simp add: unsigned_of_nat take_bit_nat_eq_self)
  with n show "uint (digit_val c) = int (of_char c - 48)" and "int (of_char c - 48) < 10"
    by (simp_all add: digit_val_def n_def [symmetric])
qed

text \<open>One more digit never overflows \<^verbatim>\<open>u64\<close> below the guard.\<close>

lemma push_digit:
  assumes "uint x \<le> 922337203685477580" and "is_ascii_digit c"
  shows "\<exists>y z. u64_checked_mul x 10 = Some y \<and> u64_checked_add y (digit_val c) = Some z
    \<and> uint z = uint x * 10 + uint (digit_val c)"
proof -
  have m: "u64_checked_mul x 10 = Some (x * 10)" using assms(1) by (simp add: u64_checked_mul_def)
  note um = u64_checked_mul_uint [OF m]
  have a: "u64_checked_add (x * 10) (digit_val c) = Some (x * 10 + digit_val c)"
    using assms um uint_digit_val [of c] by (simp add: u64_checked_add_def)
  show ?thesis using m a u64_checked_add_uint [OF a] um by simp
qed

lemma leading_int_loop_total: "leading_int_loop x i s \<noteq> None"
proof (induction s arbitrary: x i)
  case (Cons c s)
  have "\<exists>y z. u64_checked_mul x 10 = Some y \<and> u64_checked_add y (digit_val c) = Some z"
    if "is_ascii_digit c" "\<not> x > TWO_63 div 10"
    using push_digit [of x c] that by (metis not_less uint_TWO_63(2) word_le_def)
  then show ?case
    by (intro notI) (use Cons in \<open>auto simp del: not_None_eq split: if_splits\<close>)
qed simp

lemma leading_fraction_loop_total: "leading_fraction_loop x sc ov i s \<noteq> None"
proof (induction s arbitrary: x sc ov i)
  case (Cons c s)
  have "\<exists>y z. u64_checked_mul x 10 = Some y \<and> u64_checked_add y (digit_val c) = Some z"
    if "is_ascii_digit c" "\<not> x > (TWO_63 - 1) div 10"
    using push_digit [of x c] that by (metis not_less uint_TWO_63(3) word_le_def)
  then show ?case
    by (intro notI) (use Cons in \<open>auto simp del: not_None_eq split: if_splits\<close>)
qed simp

lemma unit_map_pos: "unit_map u = Some unit \<Longrightarrow> 0 < uint unit"
  by (auto simp: unit_map_def NANOSECOND_def MICROSECOND_def MILLISECOND_def SECOND_def MINUTE_def HOUR_def
      split: if_splits)

lemma unit_mul_total:
  assumes "\<not> v > TWO_63 div unit" and "0 < uint unit"
  shows "\<exists>w. u64_checked_mul v unit = Some w \<and> uint w = uint v * uint unit \<and> uint w \<le> 2 ^ 63"
proof -
  have "uint v \<le> uint TWO_63 div uint unit" using assms(1) by (simp add: word_less_def uint_div not_less)
  then have "uint v * uint unit \<le> uint TWO_63 div uint unit * uint unit" using assms(2) by (intro mult_right_mono) simp_all
  also have "\<dots> \<le> uint TWO_63"
    using div_mult_mod_eq [of "uint TWO_63" "uint unit"] pos_mod_sign [OF assms(2), of "uint TWO_63"] by linarith
  finally have le: "uint v * uint unit \<le> 2 ^ 63" by simp
  then have m: "u64_checked_mul v unit = Some (v * unit)" by (simp add: u64_checked_mul_def)
  then show ?thesis using u64_checked_mul_uint [OF m] le by simp
qed

lemma fraction_part_total: "fraction_part t \<noteq> None"
  using leading_fraction_loop_total [of 0 1 False 0 "tl t"]
  by (cases t) (auto simp: fraction_part_def leading_fraction_def)

lemma parse_component_total: "parse_component orig s \<noteq> None"
proof
  assume "parse_component orig s = None"
  then consider "leading_int s = None" | t where "fraction_part t = None"
    | u unit v where "unit_map u = Some unit" and "\<not> v > TWO_63 div unit" and "u64_checked_mul v unit = None"
    by (auto simp: parse_component_def Let_def split: Option.bind_splits option.splits if_splits)
  then show False
    by cases (use leading_int_loop_total fraction_part_total unit_mul_total unit_map_pos in
      \<open>force simp: leading_int_def\<close>)+
qed

lemma parse_loop_total: "parse_loop orig d s \<noteq> None"
proof (induction orig d s rule: parse_loop.induct)
  case (1 orig d s)
  obtain r where r: "parse_component orig s = Some r" using parse_component_total by blast
  show ?case
  proof (cases r)
    case (Inr vs)
    with 1 r show ?thesis by (subst parse_loop.simps) (cases vs, simp add: Let_def)
  qed (use r in \<open>subst parse_loop.simps, simp\<close>)
qed

lemma parse_duration_result: "\<exists>res. parse_duration s = Some res"
proof -
  have "parse_duration s \<noteq> None"
    by (intro notI) (use parse_loop_total [of s 0] in
      \<open>auto simp: parse_duration_def Let_def simp del: not_None_eq split: if_splits elim!: try_then_None\<close>)
  then show ?thesis by simp
qed

text \<open>C39: the duration parser always returns: for every text it terminates without panicking, with a
  duration or an error message.\<close>

theorem parse_duration_total: "\<exists>res. parse_duration s = Some res"
  by (rule parse_duration_result)

lemma put_front_ok: "length acc < 32 \<Longrightarrow> put_front c acc = Some (c # acc)"
  by (simp add: put_front_def)

lemma unat_div_10 [simp]: "unat ((v :: u64) div 10) = unat v div 10" "unat ((v :: u64) mod 10) = unat v mod 10"
    "unat ((v :: u64) div 60) = unat v div 60" "unat ((v :: u64) mod 60) = unat v mod 60"
  by (simp_all add: unat_div unat_mod)

lemma fmt_int_loop_ok:
  "unat v < 10 ^ k \<Longrightarrow> length acc + k \<le> 32 \<Longrightarrow>
     \<exists>r. fmt_int_loop acc v = Some r \<and> length r \<le> length acc + k"
proof (induction k arbitrary: acc v)
  case 0
  then have "v = 0" by (simp add: unat_eq_zero)
  then show ?case by (simp add: fmt_int_loop.simps)
next
  case (Suc k)
  show ?case
  proof (cases "v = 0")
    case False
    let ?acc = "digit_char (unat (v mod 10)) # acc"
    have p: "put_front (digit_char (unat (v mod 10))) acc = Some ?acc"
      using Suc.prems(2) by (intro put_front_ok) simp
    have "unat (v div 10) < 10 ^ k" using Suc.prems(1) by (simp add: less_mult_imp_div_less mult.commute)
    with Suc.IH [of "v div 10" ?acc] Suc.prems(2) show ?thesis
      unfolding fmt_int_loop.simps [of acc v] p using False by auto
  qed (simp add: fmt_int_loop.simps)
qed

lemma fmt_int_ok:
  assumes "unat v < 10 ^ k" and "0 < k" and "length acc + k \<le> 32"
  shows "\<exists>r. fmt_int acc v = Some r \<and> length r \<le> length acc + k"
  using assms fmt_int_loop_ok [OF assms(1,3)] by (cases "v = 0") (auto simp: fmt_int_def put_front_def)

lemma fmt_frac_loop_ok:
  "length acc + n \<le> 32 \<Longrightarrow> \<exists>acc' v' p. fmt_frac_loop n acc v print = Some (acc', v', p)
     \<and> length acc' \<le> length acc + n \<and> unat v' = unat v div 10 ^ n"
proof (induction n arbitrary: acc v print)
  case (Suc n)
  let ?acc = "if print \<or> v mod 10 \<noteq> 0 then digit_char (unat (v mod 10)) # acc else acc"
  let ?p = "print \<or> v mod 10 \<noteq> 0"
  have step: "fmt_frac_loop (Suc n) acc v print = fmt_frac_loop n ?acc (v div 10) ?p"
    using Suc.prems by (cases ?p) (auto simp: put_front_def Let_def)
  have "length ?acc + n \<le> 32" and len: "length ?acc + n \<le> length acc + Suc n" using Suc.prems by simp_all
  then obtain acc' v' p where "fmt_frac_loop n ?acc (v div 10) ?p = Some (acc', v', p)"
    and "length acc' \<le> length ?acc + n" and "unat v' = unat (v div 10) div 10 ^ n"
    using Suc.IH by blast
  with step len show ?case
    by (intro exI [of _ acc'] exI [of _ v'] exI [of _ p]) (simp add: div_mult2_eq)
qed simp

lemma fmt_frac_ok:
  assumes "length acc + n < 32"
  shows "\<exists>acc' v'. fmt_frac acc v n = Some (acc', v') \<and> length acc' \<le> length acc + n + 1
    \<and> unat v' = unat v div 10 ^ n"
  using fmt_frac_loop_ok [of acc n v False] assms by (auto simp: fmt_frac_def put_front_def)

lemma format_sub_second_ok:
  assumes "u < SECOND"
  shows "\<exists>s. format_sub_second u = Some s \<and> length s \<le> 24"
proof -
  have u: "unat u < 10 ^ 9" using assms by (simp add: SECOND_def word_less_nat_alt)
  have "\<exists>s. (do { (acc, v) \<leftarrow> fmt_frac unit u prec; fmt_int acc v }) = Some s \<and> length s \<le> 24"
    if small: "length unit \<le> 3" "prec \<le> 6" for unit prec
  proof -
    obtain acc v where f: "fmt_frac unit u prec = Some (acc, v)" "length acc \<le> length unit + prec + 1"
      "unat v = unat u div 10 ^ prec" using fmt_frac_ok [of unit prec u] small by auto
    have "unat v < 10 ^ 9" using u f(3) by (metis div_le_dividend le_less_trans)
    then obtain s where "fmt_int acc v = Some s" "length s \<le> length acc + 9"
      using fmt_int_ok [of v 9 acc] f(2) small by auto
    with f small show ?thesis by simp
  qed
  then show ?thesis by (auto simp: format_sub_second_def Let_def)
qed

lemma format_seconds_ok: "\<exists>s. format_seconds u = Some s \<and> length s \<le> 24"
proof -
  obtain a1 secs where a1: "fmt_frac ''s'' u 9 = Some (a1, secs)" "length a1 \<le> 11" "unat secs = unat u div 10 ^ 9"
    using fmt_frac_ok [of "''s''" 9 u] by auto
  obtain a2 where a2: "fmt_int a1 (secs mod 60) = Some a2" "length a2 \<le> 13"
    using fmt_int_ok [of "secs mod 60" 2 a1] a1(2) by (auto simp: mod_less_divisor [THEN less_trans])
  let ?mins = "secs div 60"
  obtain a4 where a4: "fmt_int (CHR ''m'' # a2) (?mins mod 60) = Some a4" "length a4 \<le> 16"
    using fmt_int_ok [of "?mins mod 60" 2 "CHR ''m'' # a2"] a2(2) by (auto simp: mod_less_divisor [THEN less_trans])
  have "unat u < 2 ^ LENGTH(64)" by (rule unsigned_less)
  then have "unat u div 10 ^ 9 div 60 div 60 < 10 ^ 7" by (simp add: less_mult_imp_div_less)
  then have h: "unat (?mins div 60) < 10 ^ 7" by (simp add: a1(3))
  obtain a6 where a6: "fmt_int (CHR ''h'' # a4) (?mins div 60) = Some a6" "length a6 \<le> 24"
    using fmt_int_ok [OF h, of "CHR ''h'' # a4"] a4(2) by auto
  show ?thesis
    using a1 a2 a4 a6 by (auto simp: format_seconds_def put_front_def Let_def)
qed

lemma format_duration_result: "\<exists>s. format_duration d = Some s \<and> length s \<le> 25"
proof -
  let ?u = "i64_unsigned_abs d"
  obtain acc where "(if ?u < SECOND then format_sub_second ?u else format_seconds ?u) = Some acc" "length acc \<le> 24"
    using format_sub_second_ok [of ?u] format_seconds_ok [of ?u] by (metis (no_types))
  then show ?thesis by (auto simp: format_duration_def put_front_def Let_def)
qed

text \<open>Formatting never overruns its 32-byte buffer: every duration is rendered, in at most 25
  bytes.\<close>

lemma format_duration_total: "\<exists>s. format_duration d = Some s \<and> length s \<le> 25"
  by (rule format_duration_result)

section \<open>Whole numbers of a unit\<close>

definition digits_val :: "int \<Rightarrow> string \<Rightarrow> int" where
  "digits_val a ds = foldl (\<lambda>a c. a * 10 + int (of_char c - 48)) a ds"

lemma digits_val_simps [simp]:
  "digits_val a [] = a" "digits_val a (c # ds) = digits_val (a * 10 + int (of_char c - 48)) ds"
  "digits_val a (ds @ es) = digits_val (digits_val a ds) es"
  by (simp_all add: digits_val_def)

lemma digits_val_ge: "0 \<le> a \<Longrightarrow> a \<le> digits_val a ds"
proof (induction ds arbitrary: a)
  case (Cons c ds)
  then show ?case using Cons.IH [of "a * 10 + int (of_char c - 48)"] by fastforce
qed simp

definition stops :: "string \<Rightarrow> bool" where
  "stops s \<longleftrightarrow> s = [] \<or> \<not> is_ascii_digit (hd s)"

lemma leading_int_loop_stop: "stops s \<Longrightarrow> leading_int_loop x i s = Some (x, i, False)"
  by (cases s) (auto simp: stops_def)

lemma leading_int_loop_digits:
  assumes "list_all is_ascii_digit ds" and "stops s" and "uint x \<le> 2 ^ 63"
  shows "\<exists>k. leading_int_loop x i (ds @ s) =
    (if digits_val (uint x) ds \<le> 2 ^ 63 then Some (word_of_int (digits_val (uint x) ds), i + length ds, False)
     else Some (0, k, True))"
  using assms(1,3)
proof (induction ds arbitrary: x i)
  case Nil
  then show ?case by (simp add: leading_int_loop_stop assms(2))
next
  case (Cons c ds)
  have c: "is_ascii_digit c" "list_all is_ascii_digit ds" using Cons.prems by simp_all
  note dv = uint_digit_val [OF c(1)]
  show ?case
  proof (cases "x > TWO_63 div 10")
    case True
    then have "2 ^ 63 < uint x * 10" by (simp add: word_less_def)
    also have "\<dots> \<le> digits_val (uint x * 10 + int (of_char c - 48)) ds"
      by (rule order_trans [OF _ digits_val_ge]) simp_all
    finally show ?thesis using True c by simp
  next
    case False
    then have "uint x \<le> 922337203685477580" by (simp add: word_less_def not_less)
    then obtain y z where z: "u64_checked_mul x 10 = Some y" "u64_checked_add y (digit_val c) = Some z"
      "uint z = uint x * 10 + int (of_char c - 48)"
      using push_digit c(1) dv(1) by metis
    show ?thesis
    proof (cases "z > TWO_63")
      case True
      then have "2 ^ 63 < uint z" by (simp add: word_less_def)
      also have "\<dots> \<le> digits_val (uint z) ds" by (rule digits_val_ge) simp
      finally show ?thesis using True False c z by simp
    next
      case le: False
      then have "uint z \<le> 2 ^ 63" by (simp add: word_less_def)
      from Cons.IH [OF c(2) this, of "i + 1"] show ?thesis using False le c z by (simp cong: if_cong)
    qed
  qed
qed

lemma digit_char_digit: "d < 10 \<Longrightarrow> is_ascii_digit (digit_char d) \<and> of_char (digit_char d) - 48 = d"
  by (simp add: digit_char_def is_ascii_digit_def)

lemma show_nat_digits: "list_all is_ascii_digit (show_nat n) \<and> digits_val 0 (show_nat n) = int n \<and> show_nat n \<noteq> []"
proof (induction n rule: show_nat.induct)
  case (1 n)
  show ?case
  proof (cases "n < 10")
    case True
    then show ?thesis using digit_char_digit [of n] by (subst (1 2 3) show_nat.simps) simp
  next
    case False
    have "n mod 10 < 10" by simp
    with False 1 digit_char_digit [of "n mod 10"] show ?thesis
      by (subst (1 2 3) show_nat.simps) (simp add: zdiv_int zmod_int)
  qed
qed

lemma unit_map_chars:
  assumes "unit_map u = Some unit"
  shows "u \<noteq> []" and "list_all is_unit_char u" and "uint unit \<le> 3600000000000"
  using assms
  by (auto simp: unit_map_def NANOSECOND_def MICROSECOND_def MILLISECOND_def SECOND_def MINUTE_def HOUR_def
      is_unit_char_def is_ascii_digit_def split: if_splits)

lemma stops_unit: "list_all is_unit_char u \<Longrightarrow> stops (u @ []) \<and> (u \<noteq> [] \<longrightarrow> hd u \<noteq> CHR ''.'')"
  by (cases u) (auto simp: stops_def is_unit_char_def)

lemma unit_takeWhile: "list_all is_unit_char u \<Longrightarrow> takeWhile is_unit_char u = u \<and> dropWhile is_unit_char u = []"
  by (simp add: list_all_iff)

lemma int_le_div_iff: "0 < (c :: int) \<Longrightarrow> a \<le> b div c \<longleftrightarrow> a * c \<le> b"
proof
  assume c: "0 < c" and "a \<le> b div c"
  then have "a * c \<le> b div c * c" by (intro mult_right_mono) simp_all
  also have "\<dots> \<le> b" using pos_mod_sign [OF c, of b] div_mult_mod_eq [of b c] by linarith
  finally show "a * c \<le> b" .
next
  assume c: "0 < c" and "a * c \<le> b"
  then show "a \<le> b div c" using zdiv_mono1 [of "a * c" b c] by simp
qed

lemma parse_component_whole:
  assumes "unit_map u = Some unit"
  shows "parse_component orig (show_nat n @ u) =
    (if int n * uint unit \<le> 2 ^ 63 then Some (Inr (word_of_int (int n * uint unit), []))
     else Some (Inl (err_invalid orig)))"
proof -
  note u = unit_map_chars [OF assms] and pos = unit_map_pos [OF assms] and d = show_nat_digits [of n]
  have st: "stops u" and dot: "hd u \<noteq> CHR ''.''" using stops_unit [OF u(2)] u(1) by simp_all
  obtain k where li: "leading_int (show_nat n @ u) =
      (if int n \<le> 2 ^ 63 then Some (word_of_int (int n), length (show_nat n), False) else Some (0, k, True))"
    using leading_int_loop_digits [OF _ st, of "show_nat n" 0 0] d by (auto simp: leading_int_def cong: if_cong)
  have hd: "is_ascii_digit (hd (show_nat n @ u))" using d by (cases "show_nat n") auto
  have fr: "fraction_part u = Some (0, 1, False, u)"
    using u(1) dot by (cases u) (auto simp: fraction_part_def)
  show ?thesis
  proof (cases "int n \<le> 2 ^ 63")
    case False
    moreover have "int n \<le> int n * uint unit" using pos by (simp add: mult_le_cancel_left1)
    ultimately have "\<not> int n * uint unit \<le> 2 ^ 63" by linarith
    with False show ?thesis using hd li d by (simp add: parse_component_def)
  next
    case True
    define v where "v = (word_of_int (int n) :: u64)"
    have uv: "uint v = int n" unfolding v_def using True by (intro uint_word_of_int64) simp_all
    have gt: "v > TWO_63 div unit \<longleftrightarrow> \<not> int n * uint unit \<le> 2 ^ 63"
      using int_le_div_iff [OF pos, of "int n" "uint TWO_63"]
      by (simp add: word_less_def uint_div uv not_less [symmetric])
    have mul: "u64_checked_mul v unit = Some (word_of_int (int n * uint unit))" if "int n * uint unit \<le> 2 ^ 63"
      using that uv by (simp add: u64_checked_mul_def) (simp add: v_def)
    show ?thesis
      using hd li [folded v_def] True d u(1) gt mul
      by (simp add: parse_component_def Let_def fr assms unit_takeWhile [OF u(2), THEN conjunct1]
          unit_takeWhile [OF u(2), THEN conjunct2])
  qed
qed

text \<open>A whole number of any unit parses to its exact number of nanoseconds, and is refused when it
  exceeds the range of a duration.\<close>

lemma parse_duration_whole:
  assumes "unit_map u = Some unit"
  shows "parse_duration (show_nat n @ u) =
    (if int n * uint unit < 2 ^ 63 then Some (Inr (word_of_int (int n * uint unit)))
     else Some (Inl (err_invalid (show_nat n @ u))))"
proof -
  let ?s = "show_nat n @ u" and ?d = "int n * uint unit"
  note u = unit_map_chars [OF assms] and d = show_nat_digits [of n]
  have hd: "is_ascii_digit (hd ?s)" and ne: "?s \<noteq> []" using d by (cases "show_nat n"; simp)+
  then have sign: "hd ?s \<noteq> CHR ''-''" "hd ?s \<noteq> CHR ''+''" by (auto simp: is_ascii_digit_def)
  have "length ?s \<ge> 2" using d u(1) by (cases "show_nat n"; cases u) auto
  then have zero: "?s \<noteq> ''0''" by (metis One_nat_def length_Cons list.size(3) not_less_eq_eq numeral_2_eq_2 le_refl)
  have w: "uint (word_of_int ?d :: u64) = ?d" if "?d \<le> 2 ^ 63"
    using that by (intro uint_word_of_int64) simp_all
  have loop: "parse_loop ?s 0 ?s =
      (if ?d \<le> 2 ^ 63 then Some (Inr (word_of_int ?d)) else Some (Inl (err_invalid ?s)))"
    using parse_component_whole [OF assms, of ?s n] ne w
    by (subst parse_loop.simps) (auto simp: parse_loop.simps [of _ _ "[]"] Let_def word_less_def not_less)
  define dw where "dw = (word_of_int ?d :: u64)"
  have gt: "TWO_63 - 1 < dw \<longleftrightarrow> \<not> ?d < 2 ^ 63" if "?d \<le> 2 ^ 63"
    using w [OF that, folded dw_def] by (simp add: word_less_def TWO_63_def) linarith
  show ?thesis
    using ne sign zero gt loop [folded dw_def]
    by (cases "?d \<le> 2 ^ 63") (simp_all add: parse_duration_def Let_def dw_def del: append_is_Nil_conv)
qed

end
