(* ===== verification/Proto.thy ===== *)
theory Proto
  imports Complex_Main Prelude
begin

text \<open>
  The request and response types of the JSON protocol (\<^verbatim>\<open>hsm-core/src/proto.rs\<close>). The mapping to and
  from JSON text is derived by \<^verbatim>\<open>serde\<close>; the decoder and the encoder are parameters of the dispatcher.
  An empty struct is \<open>unit\<close>. Maps are ordered.
\<close>

section \<open>Requests\<close>

record enclave_signing_request =
  ssh_key :: string
  key_id :: string
  principals :: "string list"
  validity :: string
  permissions :: btree
  custom_attributes :: btree
  critical_options :: btree

record init_req =
  ir_mode :: string
  ir_pin :: "string option"
  ir_max_retries :: "u8 option"
  ir_wipe_on_lockout :: "bool option"

record generate_key_req =
  gr_force :: bool

record unlock_req =
  ur_pin :: string

record set_time_req =
  st_unix_seconds :: i64

record change_pin_req =
  cr_current_pin :: string
  cr_new_pin :: string

record add_entropy_req =
  ar_hex :: string

record factory_reset_req =
  fr_confirm :: string
  fr_pin :: "string option"

record reboot_bootloader_req =
  rr_pin :: "string option"

record hsm_request =
  hq_init :: "init_req option"
  hq_generate_key :: "generate_key_req option"
  hq_get_public_key :: "unit option"
  hq_unlock :: "unlock_req option"
  hq_lock :: "unit option"
  hq_set_time :: "set_time_req option"
  hq_status :: "unit option"
  hq_change_pin :: "change_pin_req option"
  hq_add_entropy :: "add_entropy_req option"
  hq_self_test :: "unit option"
  hq_factory_reset :: "factory_reset_req option"
  hq_reboot_bootloader :: "reboot_bootloader_req option"

record request =
  rq_load_key_signer :: "unit option"
  rq_sign_ssh_key :: "enclave_signing_request option"
  rq_ping :: "unit option"
  rq_get_enclave_metrics :: "unit option"
  rq_hsm :: "hsm_request option"

definition hsm_request_default :: hsm_request where
  "hsm_request_default = \<lparr> hq_init = None, hq_generate_key = None, hq_get_public_key = None, hq_unlock = None,
     hq_lock = None, hq_set_time = None, hq_status = None, hq_change_pin = None, hq_add_entropy = None,
     hq_self_test = None, hq_factory_reset = None, hq_reboot_bootloader = None \<rparr>"

definition request_default :: request where
  "request_default = \<lparr> rq_load_key_signer = None, rq_sign_ssh_key = None, rq_ping = None,
     rq_get_enclave_metrics = None, rq_hsm = None \<rparr>"

section \<open>Responses\<close>

record load_key_signer_response =
  ls_success :: bool
  ls_error :: string

record signing_response =
  sg_signed_key :: string
  sg_error :: string

record ping_response =
  pg_signer_loaded :: bool

text \<open>The CPU times are \<^verbatim>\<open>f64\<close> numbers, given by their rational value.\<close>

record enclave_cpu_times =
  cpu_user :: rat
  cpu_nice :: rat
  cpu_system :: rat
  cpu_idle :: rat
  cpu_iowait :: rat
  cpu_irq :: rat
  cpu_softirq :: rat

record enclave_memory_stats =
  mem_total_bytes :: u64
  mem_available_bytes :: u64
  mem_free_bytes :: u64
  mem_buffers_bytes :: u64
  mem_cached_bytes :: u64

record enclave_metrics_response =
  em_cpu :: enclave_cpu_times
  em_memory :: enclave_memory_stats

record hsm_error =
  he_code :: string
  he_message :: string
  he_remaining_attempts :: "u32 option"
  he_backoff_ms :: "u32 option"

record init_resp =
  in_ok :: bool
  in_mode :: string

record generate_key_resp =
  gk_ok :: bool
  gk_public_key :: string

record public_key_resp =
  pk_public_key :: string

record unlock_resp =
  ul_ok :: bool

record ok_resp =
  or_ok :: bool

record set_time_resp =
  tr_ok :: bool
  tr_uptime_ms :: u64
  tr_previous_set :: bool

record status_resp =
  ss_state :: string
  ss_mode :: string
  ss_key_present :: bool
  ss_unlocked :: bool
  ss_clock_set :: bool
  ss_unix_seconds :: "i64 option"
  ss_uptime_ms :: u64
  ss_retry_remaining :: "u32 option"
  ss_fw_version :: string
  ss_serial :: string
  ss_heap_free_bytes :: u64
  ss_otp_secret :: bool
  ss_glitch_armed :: bool
  ss_secure_boot :: bool
  ss_glitch_reset :: bool

record self_test_details =
  sd_ed25519_kat :: string
  sd_sha2_kat :: string
  sd_aead_kat :: string
  sd_drbg_health :: string
  sd_flash_crc :: string
  sd_otp_secret :: string

record self_test_resp =
  sf_ok :: bool
  sf_tests :: self_test_details

record hsm_response =
  hr_error :: "hsm_error option"
  hr_init :: "init_resp option"
  hr_generate_key :: "generate_key_resp option"
  hr_get_public_key :: "public_key_resp option"
  hr_unlock :: "unlock_resp option"
  hr_lock :: "ok_resp option"
  hr_set_time :: "set_time_resp option"
  hr_status :: "status_resp option"
  hr_change_pin :: "ok_resp option"
  hr_add_entropy :: "ok_resp option"
  hr_self_test :: "self_test_resp option"
  hr_factory_reset :: "ok_resp option"
  hr_reboot_bootloader :: "ok_resp option"

record response =
  rs_load_key_signer :: "load_key_signer_response option"
  rs_error :: "string option"
  rs_sign_ssh_key :: "signing_response option"
  rs_pong :: "ping_response option"
  rs_enclave_metrics :: "enclave_metrics_response option"
  rs_hsm :: "hsm_response option"

definition response_default :: response where
  "response_default = \<lparr> rs_load_key_signer = None, rs_error = None, rs_sign_ssh_key = None, rs_pong = None,
     rs_enclave_metrics = None, rs_hsm = None \<rparr>"

definition response_error :: "string \<Rightarrow> response" where
  "response_error msg = response_default\<lparr>rs_error := Some msg\<rparr>"

definition hsm_response_default :: hsm_response where
  "hsm_response_default = \<lparr> hr_error = None, hr_init = None, hr_generate_key = None, hr_get_public_key = None,
     hr_unlock = None, hr_lock = None, hr_set_time = None, hr_status = None, hr_change_pin = None,
     hr_add_entropy = None, hr_self_test = None, hr_factory_reset = None, hr_reboot_bootloader = None \<rparr>"

definition hsm_with :: "(hsm_response \<Rightarrow> hsm_response) \<Rightarrow> hsm_response" where
  "hsm_with f = f hsm_response_default"

definition hsm_err :: "string \<Rightarrow> string \<Rightarrow> hsm_response" where
  "hsm_err code message =
     hsm_response_default\<lparr>hr_error := Some \<lparr> he_code = code, he_message = message,
       he_remaining_attempts = None, he_backoff_ms = None \<rparr>\<rparr>"

text \<open>A response is an error exactly when its error field is set.\<close>

definition is_err :: "hsm_response \<Rightarrow> bool" where
  "is_err r \<longleftrightarrow> hr_error r \<noteq> None"

lemma is_err_simps [simp]: "is_err (hsm_err c m)" "\<not> is_err hsm_response_default"
  by (simp_all add: is_err_def hsm_err_def hsm_response_default_def)

lemma response_default_simps [simp]:
  "rs_load_key_signer response_default = None" "rs_error response_default = None"
  "rs_sign_ssh_key response_default = None" "rs_pong response_default = None"
  "rs_enclave_metrics response_default = None" "rs_hsm response_default = None"
  by (simp_all add: response_default_def)

lemma hsm_response_default_simps [simp]:
  "hr_error hsm_response_default = None" "hr_init hsm_response_default = None"
  "hr_generate_key hsm_response_default = None" "hr_get_public_key hsm_response_default = None"
  "hr_unlock hsm_response_default = None" "hr_lock hsm_response_default = None"
  "hr_set_time hsm_response_default = None" "hr_status hsm_response_default = None"
  "hr_change_pin hsm_response_default = None" "hr_add_entropy hsm_response_default = None"
  "hr_self_test hsm_response_default = None" "hr_factory_reset hsm_response_default = None"
  "hr_reboot_bootloader hsm_response_default = None"
  by (simp_all add: hsm_response_default_def)

lemma hsm_err_simps [simp]:
  "hr_init (hsm_err c m) = None" "hr_generate_key (hsm_err c m) = None" "hr_get_public_key (hsm_err c m) = None"
  "hr_unlock (hsm_err c m) = None" "hr_lock (hsm_err c m) = None" "hr_set_time (hsm_err c m) = None"
  "hr_status (hsm_err c m) = None" "hr_change_pin (hsm_err c m) = None" "hr_add_entropy (hsm_err c m) = None"
  "hr_self_test (hsm_err c m) = None" "hr_factory_reset (hsm_err c m) = None"
  "hr_reboot_bootloader (hsm_err c m) = None"
  by (simp_all add: hsm_err_def)

lemma response_error_simps [simp]:
  "rs_load_key_signer (response_error m) = None" "rs_error (response_error m) = Some m"
  "rs_sign_ssh_key (response_error m) = None" "rs_pong (response_error m) = None"
  "rs_enclave_metrics (response_error m) = None" "rs_hsm (response_error m) = None"
  by (simp_all add: response_error_def)

end
