(* ===== verification/Validate.thy ===== *)
theory Validate
  imports GoDuration Proto SshWire
begin

text \<open>
  Validation of signing requests (\<^verbatim>\<open>hsm-core/src/validate.rs\<close>): field presence, duration, principals,
  key policy and validity bounds, in the order of the source. An error is the message text.
\<close>

definition MAX_PRINCIPALS :: nat where
  "MAX_PRINCIPALS = 100"

definition MAX_VALIDITY_NS :: i64 where
  "MAX_VALIDITY_NS = 24 * 3600 * 1000000000"

definition MIN_RSA_BITS :: u32 where
  "MIN_RSA_BITS = 2048"

definition MAX_RSA_BITS :: u32 where
  "MAX_RSA_BITS = 8192"

record validated =
  v_key :: parsed_key
  v_duration_ns :: i64
  v_extensions :: btree
  v_critical_options :: btree

fun map_key_error :: "key_error \<Rightarrow> string" where
  "map_key_error Parse = ''failed to parse public key: invalid authorized key''"
| "map_key_error Options = ''public key must not carry SSH options''"
| "map_key_error Trailing = ''public key must not carry trailing data''"
| "map_key_error (RejectedKey r) = ''rejected public key: '' @ r"

text \<open>The loop over \<^verbatim>\<open>principals.iter().enumerate()\<close>.\<close>

fun check_principals :: "nat \<Rightarrow> string list \<Rightarrow> string option" where
  "check_principals i [] = None"
| "check_principals i (p # ps) =
     (if trim p = [] then Some (''invalid request: principal at index '' @ show_nat i @ '' cannot be empty'')
      else check_principals (i + 1) ps)"

text \<open>The loop over the custom attribute keys.\<close>

fun check_collision :: "btree \<Rightarrow> string list \<Rightarrow> string option" where
  "check_collision perms [] = None"
| "check_collision perms (k # ks) =
     (if btree_contains_key perms k
      then Some (''invalid request: key '' @ quote k @ '' present in both permissions and custom_attributes'')
      else check_collision perms ks)"

definition validate_request :: "enclave_signing_request \<Rightarrow> (string + i64) option" where
  "validate_request req =
     (if trim (ssh_key req) = [] then Some (Inl ''invalid request: SSH key cannot be empty'')
      else if trim (key_id req) = [] then Some (Inl ''invalid request: KeyID cannot be empty'')
      else if trim (validity req) = [] then Some (Inl ''invalid request: validity duration cannot be empty'')
      else case parse_duration (validity req) of
          None \<Rightarrow> None
        | Some (Inl e) \<Rightarrow> Some (Inl (''invalid request: invalid validity duration format: '' @ e))
        | Some (Inr duration) \<Rightarrow>
            if principals req = [] then Some (Inl ''invalid request: principals cannot be empty'')
            else if length (principals req) > MAX_PRINCIPALS then
              Some (Inl (''invalid request: too many principals: '' @ show_nat (length (principals req))
                @ '' (maximum: '' @ show_nat MAX_PRINCIPALS @ '')''))
            else case check_principals 0 (principals req) of
                Some e \<Rightarrow> Some (Inl e)
              | None \<Rightarrow>
                  (case check_collision (permissions req) (btree_keys (custom_attributes req)) of
                     Some e \<Rightarrow> Some (Inl e)
                   | None \<Rightarrow> Some (Inr duration)))"

fun validate_public_key :: "key_kind \<Rightarrow> string + unit" where
  "validate_public_key (Rsa bits) =
     (if bits < MIN_RSA_BITS then
        Inl (''rejected public key: RSA key too small: '' @ show_nat (unat bits) @ '' bits (minimum ''
          @ show_nat (unat MIN_RSA_BITS) @ '')'')
      else if bits > MAX_RSA_BITS then
        Inl (''rejected public key: RSA key too large: '' @ show_nat (unat bits) @ '' bits (maximum ''
          @ show_nat (unat MAX_RSA_BITS) @ '')'')
      else Inr ())"
| "validate_public_key _ = Inr ()"

definition validate :: "'r externs \<Rightarrow> nat \<Rightarrow> enclave_signing_request \<Rightarrow> (string + validated) option" where
  "validate X W req =
     try_then (validate_request req) (\<lambda>duration_ns.
       try_then (map_option (map_sum map_key_error id) (parse_authorized_key X W (ssh_key req))) (\<lambda>key.
         try_then (Some (validate_public_key (kind key))) (\<lambda>_.
           if sint duration_ns \<le> 0 then
             do { d \<leftarrow> format_duration duration_ns;
                  Some (Inl (''validity duration must be positive (got '' @ d @ '')'')) }
           else if sint duration_ns > sint MAX_VALIDITY_NS then
             do { d \<leftarrow> format_duration duration_ns; m \<leftarrow> format_duration MAX_VALIDITY_NS;
                  Some (Inl (''validity duration '' @ d @ '' exceeds maximum allowed '' @ m)) }
           else
             let ext1 = foldl (\<lambda>m (k, v). btree_insert k v m) [] (permissions req);
                 ext2 = foldl (\<lambda>m (k, v). btree_insert k v m) ext1 (custom_attributes req)
             in Some (Inr \<lparr> v_key = key, v_duration_ns = duration_ns, v_extensions = ext2,
                  v_critical_options = critical_options req \<rparr>))))"

section \<open>What validation establishes\<close>

lemma check_principals_None: "check_principals i ps = None \<longleftrightarrow> (\<forall>p \<in> set ps. trim p \<noteq> [])"
  by (induction i ps rule: check_principals.induct) auto

lemma check_collision_None:
  "check_collision perms ks = None \<longleftrightarrow> (\<forall>k \<in> set ks. \<not> btree_contains_key perms k)"
  by (induction perms ks rule: check_collision.induct) auto

lemma validate_request_ok:
  assumes "validate_request req = Some (Inr d)"
  shows "parse_duration (validity req) = Some (Inr d)" and "trim (key_id req) \<noteq> []" and "principals req \<noteq> []"
    and "length (principals req) \<le> MAX_PRINCIPALS" and "\<forall>p \<in> set (principals req). trim p \<noteq> []"
    and "\<forall>k \<in> set (btree_keys (custom_attributes req)). \<not> btree_contains_key (permissions req) k"
  using assms
  by (auto simp: validate_request_def check_principals_None check_collision_None
      split: if_splits option.splits sum.splits)

lemma validate_ok:
  assumes "validate X W req = Some (Inr v)"
  shows "validate_request req = Some (Inr (v_duration_ns v))"
    and "parse_authorized_key X W (ssh_key req) = Some (Inr (v_key v))"
    and "validate_public_key (kind (v_key v)) = Inr ()"
    and "0 < sint (v_duration_ns v)" and "sint (v_duration_ns v) \<le> sint MAX_VALIDITY_NS"
    and "v_critical_options v = critical_options req"
    and "v_extensions v = foldl (\<lambda>m (k, v). btree_insert k v m)
           (foldl (\<lambda>m (k, v). btree_insert k v m) [] (permissions req)) (custom_attributes req)"
proof -
  obtain d key where d: "validate_request req = Some (Inr d)"
    and p: "parse_authorized_key X W (ssh_key req) = Some (Inr key)" and k: "validate_public_key (kind key) = Inr ()"
    and pos: "0 < sint d" "sint d \<le> sint MAX_VALIDITY_NS"
    and v: "v = \<lparr> v_key = key, v_duration_ns = d, v_extensions = foldl (\<lambda>m (k, v). btree_insert k v m)
           (foldl (\<lambda>m (k, v). btree_insert k v m) [] (permissions req)) (custom_attributes req),
         v_critical_options = critical_options req \<rparr>"
    using assms
    by (auto simp: validate_def map_sum_def Let_def not_le split: if_splits sum.splits Option.bind_splits
        elim!: try_then_Inr)
  from d p k pos show "validate_request req = Some (Inr (v_duration_ns v))"
    and "parse_authorized_key X W (ssh_key req) = Some (Inr (v_key v))"
    and "validate_public_key (kind (v_key v)) = Inr ()"
    and "0 < sint (v_duration_ns v)" and "sint (v_duration_ns v) \<le> sint MAX_VALIDITY_NS"
    and "v_critical_options v = critical_options req"
    and "v_extensions v = foldl (\<lambda>m (k, v). btree_insert k v m)
           (foldl (\<lambda>m (k, v). btree_insert k v m) [] (permissions req)) (custom_attributes req)"
    by (simp_all add: v)
qed

lemma btree_ok_Nil [simp]: "btree_ok []"
  by (simp add: btree_ok_def)

lemma foldl_btree_insert:
  assumes "btree_ok m"
  shows "btree_ok (foldl (\<lambda>m (k, v). btree_insert k v m) m kvs)"
    and "map_of (foldl (\<lambda>m (k, v). btree_insert k v m) m kvs) = map_of m ++ map_of (rev kvs)"
  using assms by (induction kvs arbitrary: m) (auto simp: map_of_btree_insert map_add_def fun_eq_iff split: option.splits)

lemma validate_extensions:
  assumes "validate X W req = Some (Inr v)" and "btree_ok (permissions req)" and "btree_ok (custom_attributes req)"
  shows "btree_ok (v_extensions v)"
    and "map_of (v_extensions v) = map_of (permissions req) ++ map_of (custom_attributes req)"
proof -
  have rev: "map_of (rev m) = map_of m" if "btree_ok m" for m :: btree
    using that by (intro map_of_inject_set [THEN iffD2]) (auto simp: btree_ok_def strict_sorted_iff rev_map [symmetric])
  show "btree_ok (v_extensions v)"
    and "map_of (v_extensions v) = map_of (permissions req) ++ map_of (custom_attributes req)"
    using foldl_btree_insert [of "[]"] foldl_btree_insert [of "foldl (\<lambda>m (k, v). btree_insert k v m) [] (permissions req)"]
    by (simp_all add: validate_ok(7) [OF assms(1)] rev assms(2,3))
qed

text \<open>C26: a request that passes validation satisfies the whole signing policy: a key ID and one to 100
  principals, none of them blank; a validity that parses to more than zero and at most 24 hours; a
  key accepted by the key parser, an RSA one of 2048 to 8192 bits; and extensions that are the
  disjoint union of the permissions and the custom attributes, with the critical options unchanged.\<close>

theorem validate_sound:
  assumes "validate X W req = Some (Inr v)" and "btree_ok (permissions req)" and "btree_ok (custom_attributes req)"
  shows "trim (key_id req) \<noteq> [] \<and> principals req \<noteq> [] \<and> length (principals req) \<le> 100
    \<and> (\<forall>p \<in> set (principals req). trim p \<noteq> [])
    \<and> parse_duration (validity req) = Some (Inr (v_duration_ns v))
    \<and> 0 < sint (v_duration_ns v) \<and> sint (v_duration_ns v) \<le> 24 * 3600 * 10 ^ 9
    \<and> parse_authorized_key X W (ssh_key req) = Some (Inr (v_key v))
    \<and> (\<forall>bits. kind (v_key v) = Rsa bits \<longrightarrow> 2048 \<le> bits \<and> bits \<le> 8192)
    \<and> dom (map_of (permissions req)) \<inter> dom (map_of (custom_attributes req)) = {}
    \<and> map_of (v_extensions v) = map_of (permissions req) ++ map_of (custom_attributes req)
    \<and> btree_ok (v_extensions v) \<and> v_critical_options v = critical_options req"
proof -
  note v = validate_ok [OF assms(1)] and e = validate_extensions [OF assms]
  note r = validate_request_ok [OF v(1)]
  have "dom (map_of (permissions req)) \<inter> dom (map_of (custom_attributes req)) = {}"
    using r(6) by (force simp: btree_keys_def btree_contains_key_def dom_map_of_conv_image_fst)
  moreover have "2048 \<le> bits \<and> bits \<le> 8192" if "kind (v_key v) = Rsa bits" for bits
    using v(3) that by (auto simp: MIN_RSA_BITS_def MAX_RSA_BITS_def not_less split: if_splits)
  moreover have "sint MAX_VALIDITY_NS = 24 * 3600 * 10 ^ 9" by (simp add: MAX_VALIDITY_NS_def)
  ultimately show ?thesis using v r e by (simp add: MAX_PRINCIPALS_def)
qed

definition sample_request :: enclave_signing_request where
  "sample_request = \<lparr> ssh_key = sample_key_line, key_id = ''alice'', principals = [''root''], validity = ''24h'',
     permissions = [(''permit-pty'', '''')], custom_attributes = [(''team'', ''ops'')], critical_options = [] \<rparr>"

lemma sample_request_valid:
  "validate sample_externs 64 sample_request = Some (Inr \<lparr> v_key = \<lparr> algo = ''ssh-ed25519'',
      cert_algo = ''ssh-ed25519-cert-v01@openssh.com'', key_body = ssh_string (replicate 32 0), kind = Ed25519 \<rparr>,
      v_duration_ns = 86400000000000, v_extensions = [(''permit-pty'', ''''), (''team'', ''ops'')],
      v_critical_options = [] \<rparr>)"
  by code_simp

theorem validate_sound_witness:
  "\<exists>v. validate sample_externs 64 sample_request = Some (Inr v)
     \<and> map_of (v_extensions v) = [''permit-pty'' \<mapsto> ''''] ++ [''team'' \<mapsto> ''ops'']"
  using validate_sound [OF sample_request_valid] sample_request_valid
  by (auto simp: sample_request_def btree_ok_def)

end
