(* ===== verification/DeviceState.thy ===== *)
theory DeviceState
  imports Prelude
begin

text \<open>The states of the device (\<^verbatim>\<open>hsm-core/src/state.rs\<close>).\<close>

datatype device_state = Uninitialized | DevReady | ProdLocked | ProdReady | LockedOut

fun as_str :: "device_state \<Rightarrow> string" where
  "as_str Uninitialized = ''uninitialized''"
| "as_str DevReady = ''devReady''"
| "as_str ProdLocked = ''prodLocked''"
| "as_str ProdReady = ''prodReady''"
| "as_str LockedOut = ''lockedOut''"

fun signer_ready :: "device_state \<Rightarrow> bool" where
  "signer_ready DevReady = True"
| "signer_ready ProdReady = True"
| "signer_ready _ = False"

lemma signer_ready_iff: "signer_ready s \<longleftrightarrow> s = DevReady \<or> s = ProdReady"
  by (cases s) simp_all

end
