(* ===== verification/Metrics.thy ===== *)
theory Metrics
  imports GoDuration Proto
begin

text \<open>The metrics snapshot (\<^verbatim>\<open>hsm-core/src/metrics.rs\<close>).\<close>

definition TOTAL_SRAM_BYTES :: u64 where
  "TOTAL_SRAM_BYTES = 520 * 1024"

text \<open>\<^verbatim>\<open>uptime_us as f64 / 1_000_000.0\<close>: both operations round.\<close>

definition metrics_build :: "u64 \<Rightarrow> u64 \<Rightarrow> enclave_metrics_response" where
  "metrics_build uptime_us heap_free = \<lparr>
     em_cpu = \<lparr> cpu_user = f64_round (f64_of_u64 uptime_us / 1000000), cpu_nice = 0, cpu_system = 0,
       cpu_idle = 0, cpu_iowait = 0, cpu_irq = 0, cpu_softirq = 0 \<rparr>,
     em_memory = \<lparr> mem_total_bytes = TOTAL_SRAM_BYTES, mem_available_bytes = heap_free,
       mem_free_bytes = heap_free, mem_buffers_bytes = 0, mem_cached_bytes = 0 \<rparr> \<rparr>"

end
