(* ===== verification/SelfTest.thy ===== *)
theory SelfTest
  imports Keys Wrap
begin

text \<open>
  The known-answer tests (\<^verbatim>\<open>hsm-core/src/selftest.rs\<close>). They are tests of the cryptographic crates; the
  Ed25519 test passes exactly when the crate maps the RFC 8032 seed to its public key and accepts its
  own signature.
\<close>

definition ED_SEED :: bytes where
  "ED_SEED = [
    0x9d, 0x61, 0xb1, 0x9d, 0xef, 0xfd, 0x5a, 0x60, 0xba, 0x84, 0x4a, 0xf4, 0x92, 0xec, 0x2c, 0xc4,
    0x44, 0x49, 0xc5, 0x69, 0x7b, 0x32, 0x69, 0x19, 0x70, 0x3b, 0xac, 0x03, 0x1c, 0xae, 0x7f, 0x60]"

definition ED_PUB :: bytes where
  "ED_PUB = [
    0xd7, 0x5a, 0x98, 0x01, 0x82, 0xb1, 0x0a, 0xb7, 0xd5, 0x4b, 0xfe, 0xd3, 0xc9, 0x64, 0x07, 0x3a,
    0x0e, 0xe1, 0x72, 0xf3, 0xda, 0xa6, 0x23, 0x25, 0xaf, 0x02, 0x1a, 0x68, 0xf7, 0x07, 0x51, 0x1a]"

definition SHA512_ABC :: bytes where
  "SHA512_ABC = [
    0xdd, 0xaf, 0x35, 0xa1, 0x93, 0x61, 0x7a, 0xba, 0xcc, 0x41, 0x73, 0x49, 0xae, 0x20, 0x41, 0x31,
    0x12, 0xe6, 0xfa, 0x4e, 0x89, 0xa9, 0x7e, 0xa2, 0x0a, 0x9e, 0xee, 0xe6, 0x4b, 0x55, 0xd3, 0x9a,
    0x21, 0x92, 0x99, 0x2a, 0x27, 0x4f, 0xc1, 0xa8, 0x36, 0xba, 0x3c, 0x23, 0xa3, 0xfe, 0xeb, 0xbd,
    0x45, 0x4d, 0x44, 0x23, 0x64, 0x3c, 0xe8, 0x0e, 0x2a, 0x9a, 0xc9, 0x4f, 0xa5, 0x4c, 0xa4, 0x9f]"

definition ed25519_kat :: "'r externs \<Rightarrow> bool" where
  "ed25519_kat X =
     (let ca = ca_from_seed ED_SEED in
      if public_bytes X ca \<noteq> ED_PUB then False
      else
        let msg = as_bytes ''picosignet-selftest''; sig = ca_sign X ca msg in
        if \<not> ed_point X (public_bytes X ca) then False
        else ed_verify X (public_bytes X ca) msg sig)"

definition sha512_kat :: "'r externs \<Rightarrow> bool" where
  "sha512_kat X \<longleftrightarrow> sha512 X (as_bytes ''abc'') = SHA512_ABC"

definition aead_kat :: "'r externs \<Rightarrow> bool" where
  "aead_kat X =
     (let kek = dev_kek X (replicate 32 0xA5);
          seed = replicate 32 0x33;
          pk = replicate 32 0x44;
          blob = wrap_seed X kek seed pk DevKek (replicate 16 0) (replicate 12 0)
      in case unwrap_seed X kek blob of
           Inl _ \<Rightarrow> False
         | Inr s \<Rightarrow>
             if s \<noteq> seed then False
             else
               let blob1 = blob\<lparr>tag := (tag blob)[0 := tag blob ! 0 XOR 0x01]\<rparr>
               in \<not> is_ok (unwrap_seed X kek blob1))"

end
