(* ===== verification/Dispatch.thy ===== *)
theory Dispatch
  imports Pin Clock Cert Wrap Validate DeviceState Metrics SelfTest
begin

text \<open>
  The device session and the request dispatcher (\<^verbatim>\<open>hsm-core/src/dispatch.rs\<close>): the session record,
  boot, every request handler and the transport events, with explicit state passing. A handler that
  can panic returns an option. The HAL and the third-party crates come in through the record
  \<open>platform\<close>; the JSON decoder and encoder are arguments of \<open>process_line\<close>.
\<close>

text \<open>What the generic parameters of \<^verbatim>\<open>Hsm<E, M, F>\<close> provide, the crates, and the width of \<^verbatim>\<open>usize\<close>.\<close>

record ('e, 'm, 'f, 'r) platform =
  px :: "'r externs"
  pe :: "'e entropy_ops"
  pm :: "'m mono_ops"
  pf :: "'f flash_ops"
  pw :: nat

abbreviation crc_of :: "('e, 'm, 'f, 'r) platform \<Rightarrow> bytes \<Rightarrow> u32" where
  "crc_of P \<equiv> crc32 (px P)"

section \<open>Constants\<close>

definition FW_VERSION :: string where
  "FW_VERSION = ''0.3.0''"

definition DEFAULT_ARGON :: argon2_params where
  "DEFAULT_ARGON = \<lparr> m_cost = 256, t_cost = 14, parallelism = 1 \<rparr>"

definition PIN_MIN :: nat where "PIN_MIN = 6"
definition PIN_MAX :: nat where "PIN_MAX = 64"
definition MAX_ENTROPY_HEX :: nat where "MAX_ENTROPY_HEX = 1024"
definition CA_COMMENT :: string where "CA_COMMENT = ''picosignet-ca''"

definition pin_len_ok :: "string \<Rightarrow> bool" where
  "pin_len_ok p \<longleftrightarrow> PIN_MIN \<le> length p \<and> length p \<le> PIN_MAX"

section \<open>Helpers\<close>

definition pin_error :: "string \<Rightarrow> string \<Rightarrow> u32 \<Rightarrow> u32 \<Rightarrow> hsm_response" where
  "pin_error code message remaining backoff =
     hsm_response_default\<lparr>hr_error := Some \<lparr> he_code = code, he_message = message,
       he_remaining_attempts = Some remaining, he_backoff_ms = Some backoff \<rparr>\<rparr>"

text \<open>\<^verbatim>\<open>str::split('.')\<close> and \<^verbatim>\<open>parse::<u8>().unwrap_or(0)\<close>.\<close>

fun split_dot :: "string \<Rightarrow> string \<Rightarrow> string list" where
  "split_dot acc [] = [acc]"
| "split_dot acc (c # s) = (if c = CHR ''.'' then acc # split_dot [] s else split_dot (acc @ [c]) s)"

definition parse_u8 :: "string \<Rightarrow> u8" where
  "parse_u8 s =
     (let ds = (if s \<noteq> [] \<and> hd s = CHR ''+'' then tl s else s);
          v = foldl (\<lambda>a c. a * 10 + (of_char c - 48)) 0 ds :: nat
      in if ds \<noteq> [] \<and> list_all is_ascii_digit ds \<and> v < 256 then of_nat v else 0)"

definition fw_version_triple :: bytes where
  "fw_version_triple =
     (let parts = map parse_u8 (split_dot [] FW_VERSION)
      in take 3 (parts @ [0, 0, 0]))"

section \<open>The session\<close>

record ('e, 'm, 'f, 'r) hsm =
  h_entropy :: 'e
  h_mono :: 'm
  h_flash :: 'f
  h_drbg :: "'r drbg"
  h_clock :: clock
  h_state :: device_state
  h_config :: "device_config option"
  h_ca :: "ca_key option"
  h_ca_pubkey :: "bytes option"
  h_wrap_kek :: "bytes option"
  h_wrap_salt :: "bytes option"
  h_pin_backoff_until_ms :: u64
  h_trusted_time_floor :: "i64 option"
  h_trusted_time_floor_unavailable :: bool
  h_physical_recovery_authorized :: bool
  h_heap_free :: u64
  h_glitch_armed :: bool
  h_secure_boot :: bool
  h_glitch_reset :: bool
  h_reboot_requested :: bool

definition drop_live_secrets :: "('e, 'm, 'f, 'r) hsm \<Rightarrow> ('e, 'm, 'f, 'r) hsm" where
  "drop_live_secrets h = h\<lparr>h_ca := None, h_wrap_kek := None, h_wrap_salt := None\<rparr>"

definition enter_locked_out :: "('e, 'm, 'f, 'r) hsm \<Rightarrow> ('e, 'm, 'f, 'r) hsm" where
  "enter_locked_out h = (drop_live_secrets h)\<lparr>h_state := LockedOut\<rparr>"

definition now_ms :: "('e, 'm, 'f, 'r) platform \<Rightarrow> ('e, 'm, 'f, 'r) hsm \<Rightarrow> u64" where
  "now_ms P h = now_micros (pm P) (h_mono h) div 1000"

text \<open>Two attempts to reset the counter.\<close>

definition reset_pin_counter_best_effort ::
    "('e, 'm, 'f, 'r) platform \<Rightarrow> ('e, 'm, 'f, 'r) hsm \<Rightarrow> ('e, 'm, 'f, 'r) hsm" where
  "reset_pin_counter_best_effort P h =
     (case pin_reset (pf P) (h_flash h) of
        (Inr _, f1) \<Rightarrow> h\<lparr>h_flash := f1, h_pin_backoff_until_ms := 0\<rparr>
      | (Inl _, f1) \<Rightarrow>
          (case pin_reset (pf P) f1 of
             (Inr _, f2) \<Rightarrow> h\<lparr>h_flash := f2, h_pin_backoff_until_ms := 0\<rparr>
           | (Inl _, f2) \<Rightarrow> h\<lparr>h_flash := f2\<rparr>))"

text \<open>The loop of \<^verbatim>\<open>erase_key_verified\<close>, with \<open>n\<close> attempts left.\<close>

primrec erase_key_loop :: "'f flash_ops \<Rightarrow> (bytes \<Rightarrow> u32) \<Rightarrow> nat \<Rightarrow> 'f \<Rightarrow> bool \<times> 'f" where
  "erase_key_loop fo crc 0 f = (False, f)"
| "erase_key_loop fo crc (Suc n) f =
     (let (_, f1) = erase_both fo KEY f in
      case read_latest fo crc KEY f1 of
        (Inr None, f2) \<Rightarrow> (True, f2)
      | (_, f2) \<Rightarrow> erase_key_loop fo crc n f2)"

definition erase_key_verified ::
    "('e, 'm, 'f, 'r) platform \<Rightarrow> ('e, 'm, 'f, 'r) hsm \<Rightarrow> bool \<times> ('e, 'm, 'f, 'r) hsm" where
  "erase_key_verified P h =
     (let (gone, f) = erase_key_loop (pf P) (crc_of P) 2 (h_flash h) in (gone, h\<lparr>h_flash := f\<rparr>))"

definition ensure_seeded ::
    "('e, 'm, 'f, 'r) platform \<Rightarrow> ('e, 'm, 'f, 'r) hsm \<Rightarrow> (hal_error + unit) \<times> ('e, 'm, 'f, 'r) hsm" where
  "ensure_seeded P h =
     (if \<not> seeded (h_drbg h) then
        case drbg_seed (px P) (pe P) (h_drbg h) (h_entropy h) of
          (res, d, e) \<Rightarrow> (res, h\<lparr>h_drbg := d, h_entropy := e\<rparr>)
      else (Inr (), h))"

definition hsm_reseed ::
    "('e, 'm, 'f, 'r) platform \<Rightarrow> ('e, 'm, 'f, 'r) hsm \<Rightarrow> (hal_error + unit) \<times> ('e, 'm, 'f, 'r) hsm" where
  "hsm_reseed P h =
     (case drbg_reseed (px P) (pe P) (h_drbg h) (h_entropy h) of
        (res, d, e) \<Rightarrow> (res, h\<lparr>h_drbg := d, h_entropy := e\<rparr>))"

definition prepare_keygen_entropy ::
    "('e, 'm, 'f, 'r) platform \<Rightarrow> ('e, 'm, 'f, 'r) hsm \<Rightarrow> (hal_error + unit) \<times> ('e, 'm, 'f, 'r) hsm" where
  "prepare_keygen_entropy P h =
     (case ensure_seeded P h of
        (Inl e, h1) \<Rightarrow> (Inl e, h1)
      | (Inr _, h1) \<Rightarrow> hsm_reseed P h1)"

definition hsm_random ::
    "('e, 'm, 'f, 'r) platform \<Rightarrow> nat \<Rightarrow> ('e, 'm, 'f, 'r) hsm \<Rightarrow> bytes \<times> ('e, 'm, 'f, 'r) hsm" where
  "hsm_random P n h = (let (bs, d) = random_array (px P) n (h_drbg h) in (bs, h\<lparr>h_drbg := d\<rparr>))"

text \<open>\<^verbatim>\<open>storage::X.write(&mut self.flash, ..)\<close> on the session.\<close>

definition store ::
    "('e, 'm, 'f, 'r) platform \<Rightarrow> ab_pair \<Rightarrow> bytes \<Rightarrow> ('e, 'm, 'f, 'r) hsm \<Rightarrow> (hal_error + unit) \<times> ('e, 'm, 'f, 'r) hsm" where
  "store P ab payload h = (let (res, f) = ab_write (pf P) (crc_of P) ab (h_flash h) payload in (res, h\<lparr>h_flash := f\<rparr>))"

section \<open>Boot\<close>

definition load_dev ::
    "('e, 'm, 'f, 'r) platform \<Rightarrow> key_blob option \<Rightarrow> ('e, 'm, 'f, 'r) hsm \<Rightarrow> ('e, 'm, 'f, 'r) hsm" where
  "load_dev P keyblob h =
     (let h1 = h\<lparr>h_state := DevReady, h_pin_backoff_until_ms := 0\<rparr> in
      case fs_device_secret (pf P) (h_flash h1) of
        Inl _ \<Rightarrow> h1
      | Inr secret \<Rightarrow>
          let kek = dev_kek (px P) secret;
              h2 = (case keyblob of
                      None \<Rightarrow> h1
                    | Some kb \<Rightarrow>
                        (case unwrap_seed (px P) kek kb of
                           Inr seed \<Rightarrow> h1\<lparr>h_ca := Some (ca_from_seed seed)\<rparr>
                         | Inl _ \<Rightarrow> h1))
          in h2\<lparr>h_wrap_kek := Some kek\<rparr>)"

definition load_prod ::
    "('e, 'm, 'f, 'r) platform \<Rightarrow> key_blob option \<Rightarrow> device_config \<Rightarrow> ('e, 'm, 'f, 'r) hsm \<Rightarrow> ('e, 'm, 'f, 'r) hsm" where
  "load_prod P keyblob c h =
     (let h1 = drop_live_secrets h;
          (cnt, f1) = pin_count (pf P) (h_flash h1);
          attempts = (case cnt of Inr n \<Rightarrow> n | Inl _ \<Rightarrow> 0);
          h2 = h1\<lparr>h_flash := f1,
                 h_pin_backoff_until_ms :=
                   (if attempts > 0
                    then u64_saturating_add (now_ms P h1) (ucast (backoff_ms (of_nat (attempts - 1))))
                    else 0)\<rparr>
      in if keyblob \<noteq> None \<and> attempts \<ge> unat (max_retries c) then enter_locked_out h2
         else h2\<lparr>h_state := ProdLocked\<rparr>)"

definition load_from_flash ::
    "('e, 'm, 'f, 'r) platform \<Rightarrow> ('e, 'm, 'f, 'r) hsm \<Rightarrow> ('e, 'm, 'f, 'r) hsm" where
  "load_from_flash P h =
     (let (cfg_res, f1) = read_latest (pf P) (crc_of P) CONFIG (h_flash h);
          cfg = (case cfg_res of Inr (Some b) \<Rightarrow> device_config_from_bytes b | _ \<Rightarrow> None);
          (key_res, f2) = read_latest (pf P) (crc_of P) KEY f1;
          keyblob = (case key_res of Inr (Some b) \<Rightarrow> key_blob_from_bytes b | _ \<Rightarrow> None);
          (time_res, f3) = read_latest_fail_closed (pf P) (crc_of P) TIME_FLOOR f2;
          (fl, unavailable) =
            (case time_res of
               Inr (Some bytes) \<Rightarrow>
                 (case time_floor_from_bytes bytes of Some t \<Rightarrow> (Some t, False) | None \<Rightarrow> (None, True))
             | Inr None \<Rightarrow> (None, False)
             | Inl _ \<Rightarrow> (None, True));
          h1 = h\<lparr>h_flash := f3, h_trusted_time_floor := fl, h_trusted_time_floor_unavailable := unavailable,
                 h_ca_pubkey := map_option pubkey keyblob, h_wrap_salt := None\<rparr>
      in case cfg of
           None \<Rightarrow> h1\<lparr>h_config := None, h_state := Uninitialized, h_ca := None, h_wrap_kek := None,
                     h_pin_backoff_until_ms := 0\<rparr>
         | Some c \<Rightarrow>
             let h2 = h1\<lparr>h_config := Some c\<rparr> in
             (case mode c of Dev \<Rightarrow> load_dev P keyblob h2 | Prod \<Rightarrow> load_prod P keyblob c h2))"

definition boot :: "('e, 'm, 'f, 'r) platform \<Rightarrow> 'e \<Rightarrow> 'm \<Rightarrow> 'f \<Rightarrow> ('e, 'm, 'f, 'r) hsm" where
  "boot P e m f =
     (let (_, d, e1) = drbg_seed (px P) (pe P) (drbg_new (px P)) e
      in load_from_flash P \<lparr> h_entropy = e1, h_mono = m, h_flash = f, h_drbg = d, h_clock = clock_new,
           h_state = Uninitialized, h_config = None, h_ca = None, h_ca_pubkey = None, h_wrap_kek = None,
           h_wrap_salt = None, h_pin_backoff_until_ms = 0, h_trusted_time_floor = None,
           h_trusted_time_floor_unavailable = False, h_physical_recovery_authorized = False,
           h_heap_free = 0, h_glitch_armed = False, h_secure_boot = False, h_glitch_reset = False,
           h_reboot_requested = False \<rparr>)"

section \<open>Firmware entry points\<close>

definition take_reboot_requested :: "('e, 'm, 'f, 'r) hsm \<Rightarrow> bool \<times> ('e, 'm, 'f, 'r) hsm" where
  "take_reboot_requested h = (h_reboot_requested h, h\<lparr>h_reboot_requested := False\<rparr>)"

definition set_physical_recovery_authorized :: "bool \<Rightarrow> ('e, 'm, 'f, 'r) hsm \<Rightarrow> ('e, 'm, 'f, 'r) hsm" where
  "set_physical_recovery_authorized authorized h = h\<lparr>h_physical_recovery_authorized := authorized\<rparr>"

definition set_heap_free :: "u64 \<Rightarrow> ('e, 'm, 'f, 'r) hsm \<Rightarrow> ('e, 'm, 'f, 'r) hsm" where
  "set_heap_free n h = h\<lparr>h_heap_free := n\<rparr>"

definition set_security_flags :: "bool \<Rightarrow> bool \<Rightarrow> bool \<Rightarrow> ('e, 'm, 'f, 'r) hsm \<Rightarrow> ('e, 'm, 'f, 'r) hsm" where
  "set_security_flags armed secure reset h =
     h\<lparr>h_glitch_armed := armed, h_secure_boot := secure, h_glitch_reset := reset\<rparr>"

definition drbg_should_reseed :: "('e, 'm, 'f, 'r) hsm \<Rightarrow> bool" where
  "drbg_should_reseed h \<longleftrightarrow> since_reseed (h_drbg h) \<ge> RESEED_INTERVAL"

definition mix_entropy :: "('e, 'm, 'f, 'r) platform \<Rightarrow> bytes \<Rightarrow> ('e, 'm, 'f, 'r) hsm \<Rightarrow> ('e, 'm, 'f, 'r) hsm" where
  "mix_entropy P bs h = h\<lparr>h_drbg := mix_host (px P) (h_drbg h) bs\<rparr>"

definition relock_on_transport_reset :: "('e, 'm, 'f, 'r) hsm \<Rightarrow> ('e, 'm, 'f, 'r) hsm" where
  "relock_on_transport_reset h =
     (let production_state = (h_state h = ProdLocked \<or> h_state h = ProdReady \<or> h_state h = LockedOut);
          production_config = (map_option mode (h_config h) = Some Prod)
      in if production_state \<or> production_config then
           let h1 = drop_live_secrets h in
           if h_state h1 = ProdReady then h1\<lparr>h_state := ProdLocked\<rparr> else h1
         else h)"

section \<open>PIN verification\<close>

text \<open>The branch of \<^verbatim>\<open>verify_pin\<close> for a wrong PIN, after \<open>attempts\<close> ticks.\<close>

definition reject_pin ::
    "('e, 'm, 'f, 'r) platform \<Rightarrow> device_config \<Rightarrow> nat \<Rightarrow> ('e, 'm, 'f, 'r) hsm \<Rightarrow> hsm_response \<times> ('e, 'm, 'f, 'r) hsm" where
  "reject_pin P cfg attempts h =
     (let mx = ucast (max_retries cfg) :: u32;
          backoff = backoff_ms (of_nat (attempts - 1));
          h1 = h\<lparr>h_pin_backoff_until_ms := u64_saturating_add (now_ms P h) (ucast backoff)\<rparr>
      in if (of_nat attempts :: u32) \<ge> mx then
           let h2 = enter_locked_out h1 in
           if wipe_on_lockout cfg then
             let (gone, h3) = erase_key_verified P h2 in
             if gone then
               (pin_error ''ERR_LOCKED_OUT'' ''too many attempts; device locked out'' 0 backoff,
                h3\<lparr>h_ca_pubkey := None\<rparr>)
             else
               (pin_error ''ERR_FLASH'' ''lockout reached but key wipe failed; key material may remain'' 0 backoff, h3)
           else (pin_error ''ERR_LOCKED_OUT'' ''too many attempts; device locked out'' 0 backoff, h2)
         else
           (pin_error ''ERR_BAD_PIN'' ''incorrect PIN'' (u32_saturating_sub mx (of_nat attempts)) backoff, h1))"

text \<open>The part of \<^verbatim>\<open>verify_pin\<close> after the tick: read the blob, derive the key, try to unwrap.\<close>

definition check_pin ::
    "('e, 'm, 'f, 'r) platform \<Rightarrow> device_config \<Rightarrow> nat \<Rightarrow> string \<Rightarrow> ('e, 'm, 'f, 'r) hsm
      \<Rightarrow> (hsm_response + bytes \<times> bytes \<times> bytes) \<times> ('e, 'm, 'f, 'r) hsm" where
  "check_pin P cfg attempts pin_str h =
     (case read_latest (pf P) (crc_of P) KEY (h_flash h) of
        (Inl _, f1) \<Rightarrow> (Inl (hsm_err ''ERR_FLASH'' ''key read failed''), h\<lparr>h_flash := f1\<rparr>)
      | (Inr None, f1) \<Rightarrow> (Inl (hsm_err ''ERR_NO_KEY'' ''no CA key present''), h\<lparr>h_flash := f1\<rparr>)
      | (Inr (Some b), f1) \<Rightarrow>
          let h1 = h\<lparr>h_flash := f1\<rparr> in
          (case key_blob_from_bytes b of
             None \<Rightarrow> (Inl (hsm_err ''ERR_INTERNAL'' ''corrupt key blob''), h1)
           | Some blob \<Rightarrow>
               (case fs_device_secret (pf P) (h_flash h1) of
                  Inl _ \<Rightarrow> (Inl (hsm_err ''ERR_INTERNAL'' ''device secret unavailable''), h1)
                | Inr secret \<Rightarrow>
                    (case pin_kek (px P) (as_bytes pin_str) (salt blob) (argon2 cfg) secret of
                       Inl _ \<Rightarrow> (Inl (hsm_err ''ERR_INTERNAL'' ''key derivation failed''), h1)
                     | Inr kek \<Rightarrow>
                         (case unwrap_seed (px P) kek blob of
                            Inr seed \<Rightarrow> (Inr (seed, kek, salt blob), reset_pin_counter_best_effort P h1)
                          | Inl _ \<Rightarrow> (let (resp, h2) = reject_pin P cfg attempts h1 in (Inl resp, h2)))))))"

definition verify_pin ::
    "('e, 'm, 'f, 'r) platform \<Rightarrow> string \<Rightarrow> ('e, 'm, 'f, 'r) hsm
      \<Rightarrow> ((hsm_response + bytes \<times> bytes \<times> bytes) \<times> ('e, 'm, 'f, 'r) hsm) option" where
  "verify_pin P pin_str h =
     (case h_config h of
        None \<Rightarrow> None
      | Some cfg \<Rightarrow> Some
          (case pin_count (pf P) (h_flash h) of
             (Inl _, f1) \<Rightarrow> (Inl (hsm_err ''ERR_FLASH'' ''counter read failed''), h\<lparr>h_flash := f1\<rparr>)
           | (Inr prior_failures, f1) \<Rightarrow>
               let h1 = h\<lparr>h_flash := f1\<rparr> in
               if prior_failures > 0 \<and> now_ms P h1 < h_pin_backoff_until_ms h1 then
                 (Inl (pin_error ''ERR_BUSY'' ''still backing off after a recent failed attempt''
                    (u32_saturating_sub (ucast (max_retries cfg)) (of_nat prior_failures))
                    (ucast (h_pin_backoff_until_ms h1 - now_ms P h1))), h1)
               else
                 (case pin_tick (pf P) (h_flash h1) of
                    (Inl _, f2) \<Rightarrow> (Inl (hsm_err ''ERR_FLASH'' ''counter write failed''), h1\<lparr>h_flash := f2\<rparr>)
                  | (Inr attempts, f2) \<Rightarrow> check_pin P cfg attempts pin_str (h1\<lparr>h_flash := f2\<rparr>))))"

section \<open>Signer path\<close>

definition handle_ping :: "('e, 'm, 'f, 'r) hsm \<Rightarrow> response" where
  "handle_ping h =
     (let signer_loaded = (signer_ready (h_state h) \<and> h_ca h \<noteq> None \<and> clock_is_set (h_clock h))
      in response_default\<lparr>rs_pong := Some \<lparr> pg_signer_loaded = signer_loaded \<rparr>\<rparr>)"

definition handle_metrics :: "('e, 'm, 'f, 'r) platform \<Rightarrow> ('e, 'm, 'f, 'r) hsm \<Rightarrow> response" where
  "handle_metrics P h =
     response_default\<lparr>rs_enclave_metrics := Some (metrics_build (now_micros (pm P) (h_mono h)) (h_heap_free h))\<rparr>"

definition NOT_LOADED :: string where
  "NOT_LOADED = ''CA signer is not initialized; call LoadKeySigner first''"

definition handle_load_key_signer :: "('e, 'm, 'f, 'r) hsm \<Rightarrow> response" where
  "handle_load_key_signer h =
     (if signer_ready (h_state h) \<and> h_ca h \<noteq> None
      then response_default\<lparr>rs_load_key_signer := Some \<lparr> ls_success = True, ls_error = [] \<rparr>\<rparr>
      else response_error NOT_LOADED)"

definition cert_params_of ::
    "enclave_signing_request \<Rightarrow> validated \<Rightarrow> i64 \<Rightarrow> bytes \<Rightarrow> u64 \<Rightarrow> cert_params" where
  "cert_params_of req v now nonce serial =
     (let valid_after = now - 300;
          valid_before = now + i64_div (v_duration_ns v) 1000000000
      in \<lparr> cp_cert_algo = cert_algo (v_key v), cp_key_body = key_body (v_key v), cp_nonce = nonce,
           cp_serial = serial, cp_key_id = key_id req, cp_principals = principals req,
           cp_valid_after = valid_after, cp_valid_before = valid_before,
           cp_critical_options = v_critical_options v, cp_extensions = v_extensions v \<rparr>)"

definition handle_sign ::
    "('e, 'm, 'f, 'r) platform \<Rightarrow> enclave_signing_request \<Rightarrow> ('e, 'm, 'f, 'r) hsm
      \<Rightarrow> (response \<times> ('e, 'm, 'f, 'r) hsm) option" where
  "handle_sign P req h =
     (if \<not> signer_ready (h_state h) \<or> h_ca h = None then Some (response_error NOT_LOADED, h)
      else case now_unix (pm P) (h_mono h) (h_clock h) of
          None \<Rightarrow> None
        | Some None \<Rightarrow> Some (response_error ''device clock not set; send hsm.setTime first'', h)
        | Some (Some now) \<Rightarrow>
            (case validate (px P) (pw P) req of
               None \<Rightarrow> None
             | Some (Inl msg) \<Rightarrow> Some (response_error msg, h)
             | Some (Inr v) \<Rightarrow>
                 (case ensure_seeded P h of
                    (Inl _, h1) \<Rightarrow> Some (response_error ''internal error: entropy unavailable'', h1)
                  | (Inr _, h1) \<Rightarrow>
                      let (nonce, h2) = hsm_random P 32 h1;
                          (serial, d) = drbg_next_u64 (px P) (h_drbg h2);
                          h3 = h2\<lparr>h_drbg := d\<rparr>
                      in case h_ca h3 of
                           None \<Rightarrow> None
                         | Some ca \<Rightarrow>
                             let line = build_certificate (px P) (cert_params_of req v now nonce serial) ca
                             in Some (response_default\<lparr>rs_sign_ssh_key :=
                                  Some \<lparr> sg_signed_key = line, sg_error = [] \<rparr>\<rparr>, h3))))"

section \<open>Management path\<close>

text \<open>The gate of \<^verbatim>\<open>factoryReset\<close> and \<^verbatim>\<open>rebootBootloader\<close>: \<open>Inl\<close> is the refusal. \<open>no_pin\<close> is the message for
  a production device asked without a PIN.\<close>

definition authorize_reset ::
    "('e, 'm, 'f, 'r) platform \<Rightarrow> string option \<Rightarrow> string \<Rightarrow> ('e, 'm, 'f, 'r) hsm
      \<Rightarrow> ((hsm_response + unit) \<times> ('e, 'm, 'f, 'r) hsm) option" where
  "authorize_reset P pin no_pin h =
     (case h_state h of
        LockedOut \<Rightarrow>
          if \<not> h_physical_recovery_authorized h
          then Some (Inl (hsm_err ''ERR_LOCKED_OUT'' ''device locked out; hold physical recovery low during reset''), h)
          else Some (Inr (), h)
      | Uninitialized \<Rightarrow> Some (Inr (), h)
      | DevReady \<Rightarrow> Some (Inr (), h)
      | _ \<Rightarrow>
          if \<not> h_physical_recovery_authorized h then
            (case pin of
               Some p \<Rightarrow>
                 (case verify_pin P p h of
                    None \<Rightarrow> None
                  | Some (Inl resp, h1) \<Rightarrow> Some (Inl resp, h1)
                  | Some (Inr _, h1) \<Rightarrow> Some (Inr (), h1))
             | None \<Rightarrow> Some (Inl (hsm_err ''ERR_BAD_REQUEST'' no_pin), h))
          else Some (Inr (), h))"

definition hsm_reboot_bootloader ::
    "('e, 'm, 'f, 'r) platform \<Rightarrow> reboot_bootloader_req \<Rightarrow> ('e, 'm, 'f, 'r) hsm
      \<Rightarrow> (hsm_response \<times> ('e, 'm, 'f, 'r) hsm) option" where
  "hsm_reboot_bootloader P req h =
     (case authorize_reset P (rr_pin req)
         ''rebooting into the bootloader requires a PIN or physical recovery held low during reset'' h of
        None \<Rightarrow> None
      | Some (Inl resp, h1) \<Rightarrow> Some (resp, h1)
      | Some (Inr _, h1) \<Rightarrow>
          Some (hsm_with (\<lambda>r. r\<lparr>hr_reboot_bootloader := Some \<lparr> or_ok = True \<rparr>\<rparr>), h1\<lparr>h_reboot_requested := True\<rparr>))"

definition init_dev ::
    "('e, 'm, 'f, 'r) platform \<Rightarrow> ('e, 'm, 'f, 'r) hsm \<Rightarrow> hsm_response \<times> ('e, 'm, 'f, 'r) hsm" where
  "init_dev P h =
     (case fs_device_secret (pf P) (h_flash h) of
        Inl _ \<Rightarrow> (hsm_err ''ERR_INTERNAL'' ''device secret unavailable'', h)
      | Inr secret \<Rightarrow>
          let cfg = \<lparr> mode = Dev, argon2 = DEFAULT_ARGON, max_retries = 0, wipe_on_lockout = False,
                fw_version = fw_version_triple \<rparr> in
          (case store P CONFIG (device_config_to_bytes cfg) h of
             (Inl _, h1) \<Rightarrow> (hsm_err ''ERR_FLASH'' ''failed to write config'', h1)
           | (Inr _, h1) \<Rightarrow>
               (hsm_with (\<lambda>r. r\<lparr>hr_init := Some \<lparr> in_ok = True, in_mode = ''dev'' \<rparr>\<rparr>),
                h1\<lparr>h_config := Some cfg, h_state := DevReady, h_wrap_kek := Some (dev_kek (px P) secret)\<rparr>)))"

text \<open>The production branch of \<^verbatim>\<open>hsm_init\<close> from the two flash writes on.\<close>

definition init_prod_commit ::
    "('e, 'm, 'f, 'r) platform \<Rightarrow> key_blob \<Rightarrow> u8 \<Rightarrow> bool \<Rightarrow> bytes \<Rightarrow> ('e, 'm, 'f, 'r) hsm
      \<Rightarrow> hsm_response \<times> ('e, 'm, 'f, 'r) hsm" where
  "init_prod_commit P blob retries wipe pk h =
     (case store P KEY (key_blob_to_bytes blob) h of
        (Inl _, h1) \<Rightarrow> (hsm_err ''ERR_FLASH'' ''failed to write key'', h1)
      | (Inr _, h1) \<Rightarrow>
          let cfg = \<lparr> mode = Prod, argon2 = DEFAULT_ARGON, max_retries = retries, wipe_on_lockout = wipe,
                fw_version = fw_version_triple \<rparr> in
          (case store P CONFIG (device_config_to_bytes cfg) h1 of
             (Inl _, h2) \<Rightarrow> (hsm_err ''ERR_FLASH'' ''failed to write config'', h2)
           | (Inr _, h2) \<Rightarrow>
               let h3 = reset_pin_counter_best_effort P h2 in
               (hsm_with (\<lambda>r. r\<lparr>hr_init := Some \<lparr> in_ok = True, in_mode = ''prod'' \<rparr>\<rparr>),
                h3\<lparr>h_config := Some cfg, h_ca_pubkey := Some pk, h_ca := None, h_wrap_kek := None,
                   h_wrap_salt := None, h_pin_backoff_until_ms := 0, h_state := ProdLocked\<rparr>)))"

definition hsm_generate ::
    "('e, 'm, 'f, 'r) platform \<Rightarrow> ('e, 'm, 'f, 'r) hsm \<Rightarrow> (bytes \<times> ca_key) \<times> ('e, 'm, 'f, 'r) hsm" where
  "hsm_generate P h = (let (sc, d) = ca_generate (px P) (h_drbg h) in (sc, h\<lparr>h_drbg := d\<rparr>))"

definition init_prod ::
    "('e, 'm, 'f, 'r) platform \<Rightarrow> init_req \<Rightarrow> ('e, 'm, 'f, 'r) hsm \<Rightarrow> hsm_response \<times> ('e, 'm, 'f, 'r) hsm" where
  "init_prod P req h =
     (case ir_pin req of
        None \<Rightarrow> (hsm_err ''ERR_BAD_REQUEST'' ''prod mode requires a pin'', h)
      | Some pin \<Rightarrow>
          if \<not> pin_len_ok pin then (hsm_err ''ERR_BAD_REQUEST'' ''pin must be 6..64 bytes'', h)
          else case prepare_keygen_entropy P h of
              (Inl _, h1) \<Rightarrow> (hsm_err ''ERR_ENTROPY'' ''entropy source unhealthy'', h1)
            | (Inr _, h1) \<Rightarrow>
                let (slt, h2) = hsm_random P 16 h1;
                    retries = unwrap_or (ir_max_retries req) 10
                in if retries = 0 then
                     (hsm_err ''ERR_BAD_REQUEST'' ''maxRetries must be between 1 and 255'', h2)
                   else
                     let wipe = unwrap_or (ir_wipe_on_lockout req) False in
                     (case fs_device_secret (pf P) (h_flash h2) of
                        Inl _ \<Rightarrow> (hsm_err ''ERR_INTERNAL'' ''device secret unavailable'', h2)
                      | Inr secret \<Rightarrow>
                          let ((seed, ca), h3) = hsm_generate P h2;
                              pk = public_bytes (px P) ca
                          in (case pin_kek (px P) (as_bytes pin) slt DEFAULT_ARGON secret of
                                Inl _ \<Rightarrow> (hsm_err ''ERR_INTERNAL'' ''key derivation failed'', h3)
                              | Inr kek \<Rightarrow>
                                  let (nonce, h4) = hsm_random P 12 h3;
                                      blob = wrap_seed (px P) kek seed pk PinKek slt nonce
                                  in init_prod_commit P blob retries wipe pk h4)))"

definition hsm_init ::
    "('e, 'm, 'f, 'r) platform \<Rightarrow> init_req \<Rightarrow> ('e, 'm, 'f, 'r) hsm \<Rightarrow> hsm_response \<times> ('e, 'm, 'f, 'r) hsm" where
  "hsm_init P req h =
     (if h_config h \<noteq> None then
        (hsm_err ''ERR_ALREADY_INIT'' ''device already initialized; factory-reset first'', h)
      else if ir_mode req = ''dev'' then init_dev P h
      else if ir_mode req = ''prod'' then init_prod P req h
      else (hsm_err ''ERR_BAD_MODE'' ''mode must be \"dev\" or \"prod\"'', h))"

text \<open>The body of \<^verbatim>\<open>generateKey\<close> in a ready state, once the wrapping key is known.\<close>

definition generate_key_with ::
    "('e, 'm, 'f, 'r) platform \<Rightarrow> wrap_type \<Rightarrow> bytes \<Rightarrow> ('e, 'm, 'f, 'r) hsm \<Rightarrow> hsm_response \<times> ('e, 'm, 'f, 'r) hsm" where
  "generate_key_with P wt kek h =
     (case prepare_keygen_entropy P h of
        (Inl _, h1) \<Rightarrow> (hsm_err ''ERR_ENTROPY'' ''entropy source unhealthy'', h1)
      | (Inr _, h1) \<Rightarrow>
          if wt = PinKek \<and> h_wrap_salt h1 = None then (hsm_err ''ERR_LOCKED'' ''unlock the device first'', h1)
          else
            let pin_salt = (case wt of DevKek \<Rightarrow> None | PinKek \<Rightarrow> h_wrap_salt h1);
                ((seed, ca), h2) = hsm_generate P h1;
                pk = public_bytes (px P) ca;
                (nonce, h3) = hsm_random P 12 h2;
                (slt, h4) = (case pin_salt of Some s \<Rightarrow> (s, h3) | None \<Rightarrow> hsm_random P 16 h3);
                blob = wrap_seed (px P) kek seed pk wt slt nonce
            in (case store P KEY (key_blob_to_bytes blob) h4 of
                  (Inl _, h5) \<Rightarrow> (hsm_err ''ERR_FLASH'' ''failed to write key'', h5)
                | (Inr _, h5) \<Rightarrow>
                    let line = authorized_line (px P) ca CA_COMMENT in
                    (hsm_with (\<lambda>r. r\<lparr>hr_generate_key := Some \<lparr> gk_ok = True, gk_public_key = line \<rparr>\<rparr>),
                     h5\<lparr>h_ca := Some ca, h_ca_pubkey := Some pk\<rparr>)))"

definition hsm_generate_key ::
    "('e, 'm, 'f, 'r) platform \<Rightarrow> generate_key_req \<Rightarrow> ('e, 'm, 'f, 'r) hsm \<Rightarrow> hsm_response \<times> ('e, 'm, 'f, 'r) hsm" where
  "hsm_generate_key P req h =
     (case h_state h of
        Uninitialized \<Rightarrow> (hsm_err ''ERR_NOT_INIT'' ''initialize the device first'', h)
      | ProdLocked \<Rightarrow> (hsm_err ''ERR_LOCKED'' ''unlock the device first'', h)
      | LockedOut \<Rightarrow> (hsm_err ''ERR_LOCKED'' ''unlock the device first'', h)
      | _ \<Rightarrow>
          if h_ca_pubkey h \<noteq> None \<and> \<not> gr_force req then
            (hsm_err ''ERR_KEY_EXISTS'' ''key already exists; pass force=true'', h)
          else case h_config h of
              None \<Rightarrow> (hsm_err ''ERR_NOT_INIT'' ''initialize the device first'', h)
            | Some c \<Rightarrow>
                let wt = (case mode c of Dev \<Rightarrow> DevKek | Prod \<Rightarrow> PinKek) in
                (case h_wrap_kek h of
                   None \<Rightarrow> (hsm_err ''ERR_LOCKED'' ''unlock the device first'', h)
                 | Some kek \<Rightarrow> generate_key_with P wt kek h))"

definition hsm_get_public_key ::
    "('e, 'm, 'f, 'r) platform \<Rightarrow> ('e, 'm, 'f, 'r) hsm \<Rightarrow> hsm_response" where
  "hsm_get_public_key P h =
     (case h_ca_pubkey h of
        Some pk \<Rightarrow> hsm_with (\<lambda>r. r\<lparr>hr_get_public_key :=
          Some \<lparr> pk_public_key = authorized_line_from_pubkey (px P) pk CA_COMMENT \<rparr>\<rparr>)
      | None \<Rightarrow> hsm_err ''ERR_NO_KEY'' ''no CA key present'')"

definition unlock_ok :: hsm_response where
  "unlock_ok = hsm_with (\<lambda>r. r\<lparr>hr_unlock := Some \<lparr> ul_ok = True \<rparr>\<rparr>)"

definition hsm_unlock ::
    "('e, 'm, 'f, 'r) platform \<Rightarrow> unlock_req \<Rightarrow> ('e, 'm, 'f, 'r) hsm \<Rightarrow> (hsm_response \<times> ('e, 'm, 'f, 'r) hsm) option" where
  "hsm_unlock P req h =
     (case h_state h of
        ProdReady \<Rightarrow> Some (unlock_ok, h)
      | ProdLocked \<Rightarrow>
          (case verify_pin P (ur_pin req) h of
             None \<Rightarrow> None
           | Some (Inr (seed, kek, slt), h1) \<Rightarrow>
               Some (unlock_ok, h1\<lparr>h_ca := Some (ca_from_seed seed), h_wrap_kek := Some kek,
                 h_wrap_salt := Some slt, h_state := ProdReady\<rparr>)
           | Some (Inl resp, h1) \<Rightarrow> Some (resp, h1))
      | LockedOut \<Rightarrow> Some (hsm_err ''ERR_LOCKED_OUT'' ''device locked out; factory-reset required'', h)
      | DevReady \<Rightarrow> Some (hsm_err ''ERR_BAD_MODE'' ''device is in dev mode; no unlock required'', h)
      | Uninitialized \<Rightarrow> Some (hsm_err ''ERR_NOT_INIT'' ''initialize the device first'', h))"

definition lock_ok :: hsm_response where
  "lock_ok = hsm_with (\<lambda>r. r\<lparr>hr_lock := Some \<lparr> or_ok = True \<rparr>\<rparr>)"

definition hsm_lock :: "('e, 'm, 'f, 'r) hsm \<Rightarrow> hsm_response \<times> ('e, 'm, 'f, 'r) hsm" where
  "hsm_lock h =
     (case h_state h of
        ProdReady \<Rightarrow> (lock_ok, (drop_live_secrets h)\<lparr>h_state := ProdLocked\<rparr>)
      | ProdLocked \<Rightarrow> (lock_ok, drop_live_secrets h)
      | LockedOut \<Rightarrow> (lock_ok, drop_live_secrets h)
      | DevReady \<Rightarrow> (hsm_err ''ERR_BAD_MODE'' ''dev mode cannot be locked'', h)
      | Uninitialized \<Rightarrow> (hsm_err ''ERR_NOT_INIT'' ''initialize the device first'', h))"

text \<open>The floor \<^verbatim>\<open>setTime\<close> persists next.\<close>

definition next_floor ::
    "('e, 'm, 'f, 'r) platform \<Rightarrow> ('e, 'm, 'f, 'r) hsm \<Rightarrow> clock \<Rightarrow> i64 \<Rightarrow> i64 option" where
  "next_floor P h next_clock unix_seconds =
     (let first_set = (\<not> clock_is_set (h_clock h)); old_floor = h_trusted_time_floor h in
      if first_set \<and> (old_floor = None \<or> h_physical_recovery_authorized h) then Some unix_seconds
      else case (old_floor, trusted_now (pm P) (h_mono h) next_clock) of
          (Some fl, Some tn) \<Rightarrow>
            if sint (i64_saturating_sub tn fl) \<ge> 3600 then Some tn else old_floor
        | _ \<Rightarrow> old_floor)"

definition hsm_set_time ::
    "('e, 'm, 'f, 'r) platform \<Rightarrow> set_time_req \<Rightarrow> ('e, 'm, 'f, 'r) hsm \<Rightarrow> (hsm_response \<times> ('e, 'm, 'f, 'r) hsm) option" where
  "hsm_set_time P req h =
     (if h_trusted_time_floor_unavailable h then
        Some (hsm_err ''ERR_FLASH''
          ''trusted time state is unavailable; reboot or factory-reset after repairing flash'', h)
      else
        let first_set = (\<not> clock_is_set (h_clock h)) in
        if first_set \<and> \<not> h_physical_recovery_authorized h \<and>
           (case h_trusted_time_floor h of Some fl \<Rightarrow> too_far (st_unix_seconds req) fl | None \<Rightarrow> False)
        then Some (hsm_err ''ERR_BAD_REQUEST''
          ''unixSeconds drifts too far from persisted trusted time; use physical recovery to re-anchor'', h)
        else case clock_set (pm P) (h_mono h) (h_clock h) (st_unix_seconds req) of
            (Inl Rejected, _) \<Rightarrow>
              Some (hsm_err ''ERR_BAD_REQUEST''
                ''unixSeconds is implausible or drifts too far from the device's tracked time'', h)
          | (Inr previous_set, next_clock) \<Rightarrow>
              let old_floor = h_trusted_time_floor h;
                  nf = next_floor P h next_clock (st_unix_seconds req)
              in do {
                (res, h1) \<leftarrow>
                  (if nf \<noteq> old_floor
                   then (case nf of
                           None \<Rightarrow> None
                         | Some t \<Rightarrow> Some (store P TIME_FLOOR (time_floor_to_bytes t) h))
                   else Some (Inr (), h));
                (case res of
                   Inl _ \<Rightarrow> Some (hsm_err ''ERR_FLASH'' ''failed to persist trusted time floor'', h1)
                 | Inr _ \<Rightarrow>
                     Some (hsm_with (\<lambda>r. r\<lparr>hr_set_time := Some \<lparr> tr_ok = True, tr_uptime_ms = now_ms P h1,
                             tr_previous_set = previous_set \<rparr>\<rparr>),
                           h1\<lparr>h_clock := next_clock, h_trusted_time_floor := nf\<rparr>))
              })"

definition hsm_status ::
    "('e, 'm, 'f, 'r) platform \<Rightarrow> ('e, 'm, 'f, 'r) hsm \<Rightarrow> (hsm_response \<times> ('e, 'm, 'f, 'r) hsm) option" where
  "hsm_status P h =
     (let md = (case map_option mode (h_config h) of
                  Some Dev \<Rightarrow> ''dev'' | Some Prod \<Rightarrow> ''prod'' | None \<Rightarrow> ''none'');
          (retry_remaining, h1) =
            (case h_config h of
               Some c \<Rightarrow>
                 if mode c = Prod then
                   (let (cnt, f1) = pin_count (pf P) (h_flash h);
                        used = (case cnt of Inr n \<Rightarrow> n | Inl _ \<Rightarrow> 0)
                    in (Some (u32_saturating_sub (ucast (max_retries c)) (of_nat used)), h\<lparr>h_flash := f1\<rparr>))
                 else (None, h)
             | None \<Rightarrow> (None, h))
      in do {
        unix_seconds \<leftarrow> now_unix (pm P) (h_mono h1) (h_clock h1);
        let resp = \<lparr> ss_state = as_str (h_state h1), ss_mode = md, ss_key_present = (h_ca_pubkey h1 \<noteq> None),
              ss_unlocked = (h_ca h1 \<noteq> None), ss_clock_set = clock_is_set (h_clock h1),
              ss_unix_seconds = unix_seconds, ss_uptime_ms = now_ms P h1,
              ss_retry_remaining = retry_remaining, ss_fw_version = FW_VERSION,
              ss_serial = hex_encode (fs_unique_id (pf P) (h_flash h1)), ss_heap_free_bytes = h_heap_free h1,
              ss_otp_secret = is_ok (fs_device_secret (pf P) (h_flash h1)),
              ss_glitch_armed = h_glitch_armed h1, ss_secure_boot = h_secure_boot h1,
              ss_glitch_reset = h_glitch_reset h1 \<rparr>
        in Some (hsm_with (\<lambda>r. r\<lparr>hr_status := Some resp\<rparr>), h1)
      })"

text \<open>The part of \<^verbatim>\<open>changePin\<close> after the current PIN was verified.\<close>

definition rewrap_seed ::
    "('e, 'm, 'f, 'r) platform \<Rightarrow> device_config \<Rightarrow> string \<Rightarrow> bool \<Rightarrow> bytes \<Rightarrow> ('e, 'm, 'f, 'r) hsm
      \<Rightarrow> hsm_response \<times> ('e, 'm, 'f, 'r) hsm" where
  "rewrap_seed P cfg new_pin was_ready seed h =
     (case prepare_keygen_entropy P h of
        (Inl _, h1) \<Rightarrow> (hsm_err ''ERR_ENTROPY'' ''entropy source unhealthy'', h1)
      | (Inr _, h1) \<Rightarrow>
          let (new_salt, h2) = hsm_random P 16 h1 in
          (case fs_device_secret (pf P) (h_flash h2) of
             Inl _ \<Rightarrow> (hsm_err ''ERR_INTERNAL'' ''device secret unavailable'', h2)
           | Inr secret \<Rightarrow>
               (case pin_kek (px P) (as_bytes new_pin) new_salt (argon2 cfg) secret of
                  Inl _ \<Rightarrow> (hsm_err ''ERR_INTERNAL'' ''key derivation failed'', h2)
                | Inr new_kek \<Rightarrow>
                    (case h_ca_pubkey h2 of
                       None \<Rightarrow> (hsm_err ''ERR_NO_KEY'' ''no CA key present'', h2)
                     | Some pk \<Rightarrow>
                         let (nonce, h3) = hsm_random P 12 h2;
                             blob = wrap_seed (px P) new_kek seed pk PinKek new_salt nonce
                         in (case store P KEY (key_blob_to_bytes blob) h3 of
                               (Inl _, h4) \<Rightarrow> (hsm_err ''ERR_FLASH'' ''failed to write key'', h4)
                             | (Inr _, h4) \<Rightarrow>
                                 let h5 = reset_pin_counter_best_effort P h4;
                                     h6 = (if was_ready
                                           then h5\<lparr>h_ca := Some (ca_from_seed seed), h_wrap_kek := Some new_kek,
                                                  h_wrap_salt := Some new_salt, h_state := ProdReady\<rparr>
                                           else h5\<lparr>h_ca := None, h_wrap_kek := None, h_wrap_salt := None,
                                                  h_state := ProdLocked\<rparr>)
                                 in (hsm_with (\<lambda>r. r\<lparr>hr_change_pin := Some \<lparr> or_ok = True \<rparr>\<rparr>), h6))))))"

definition hsm_change_pin ::
    "('e, 'm, 'f, 'r) platform \<Rightarrow> change_pin_req \<Rightarrow> ('e, 'm, 'f, 'r) hsm \<Rightarrow> (hsm_response \<times> ('e, 'm, 'f, 'r) hsm) option" where
  "hsm_change_pin P req h =
     (case h_state h of
        LockedOut \<Rightarrow> Some (hsm_err ''ERR_LOCKED_OUT'' ''device locked out; factory-reset required'', h)
      | DevReady \<Rightarrow> Some (hsm_err ''ERR_BAD_MODE'' ''dev mode has no PIN'', h)
      | Uninitialized \<Rightarrow> Some (hsm_err ''ERR_NOT_INIT'' ''initialize the device first'', h)
      | _ \<Rightarrow>
          if \<not> pin_len_ok (cr_new_pin req) then
            Some (hsm_err ''ERR_BAD_REQUEST'' ''new pin must be 6..64 bytes'', h)
          else
            let was_ready = (h_state h = ProdReady) in
            (case verify_pin P (cr_current_pin req) h of
               None \<Rightarrow> None
             | Some (Inl resp, h1) \<Rightarrow> Some (resp, h1)
             | Some (Inr (seed, _, _), h1) \<Rightarrow>
                 (case h_config h1 of
                    None \<Rightarrow> None
                  | Some cfg \<Rightarrow> Some (rewrap_seed P cfg (cr_new_pin req) was_ready seed h1))))"

definition hsm_add_entropy ::
    "('e, 'm, 'f, 'r) platform \<Rightarrow> add_entropy_req \<Rightarrow> ('e, 'm, 'f, 'r) hsm \<Rightarrow> hsm_response \<times> ('e, 'm, 'f, 'r) hsm" where
  "hsm_add_entropy P req h =
     (case hex_decode (ar_hex req) of
        Some b \<Rightarrow>
          if length b \<le> MAX_ENTROPY_HEX
          then (hsm_with (\<lambda>r. r\<lparr>hr_add_entropy := Some \<lparr> or_ok = True \<rparr>\<rparr>), h\<lparr>h_drbg := mix_host (px P) (h_drbg h) b\<rparr>)
          else (hsm_err ''ERR_BAD_REQUEST'' ''too much entropy (max 1024 bytes)'', h)
      | None \<Rightarrow> (hsm_err ''ERR_BAD_REQUEST'' ''hex must be valid hexadecimal'', h))"

definition pass_fail :: "bool \<Rightarrow> string" where
  "pass_fail b = (if b then ''pass'' else ''fail'')"

definition hsm_self_test ::
    "('e, 'm, 'f, 'r) platform \<Rightarrow> ('e, 'm, 'f, 'r) hsm \<Rightarrow> hsm_response \<times> ('e, 'm, 'f, 'r) hsm" where
  "hsm_self_test P h =
     (let ed = pass_fail (ed25519_kat (px P));
          sha = pass_fail (sha512_kat (px P));
          aead = pass_fail (aead_kat (px P));
          dr = pass_fail (seeded (h_drbg h));
          (res, f1) = read_latest (pf P) (crc_of P) CONFIG (h_flash h);
          h1 = h\<lparr>h_flash := f1\<rparr>;
          fl = pass_fail (is_ok res);
          otp = pass_fail (is_ok (fs_device_secret (pf P) (h_flash h1)));
          ok = (ed = ''pass'' \<and> sha = ''pass'' \<and> aead = ''pass'' \<and> fl = ''pass'' \<and> otp = ''pass'')
      in (hsm_with (\<lambda>r. r\<lparr>hr_self_test := Some \<lparr> sf_ok = ok,
            sf_tests = \<lparr> sd_ed25519_kat = ed, sd_sha2_kat = sha, sd_aead_kat = aead, sd_drbg_health = dr,
              sd_flash_crc = fl, sd_otp_secret = otp \<rparr> \<rparr>\<rparr>), h1))"

text \<open>The erasure of \<^verbatim>\<open>factoryReset\<close>, after the gate.\<close>

definition erase_everything ::
    "('e, 'm, 'f, 'r) platform \<Rightarrow> ('e, 'm, 'f, 'r) hsm \<Rightarrow> hsm_response \<times> ('e, 'm, 'f, 'r) hsm" where
  "erase_everything P h =
     (let h0 = drop_live_secrets h;
          (key_gone, h1) = erase_key_verified P h0;
          (cfg_res, f2) = erase_both (pf P) CONFIG (h_flash h1);
          (time_res, f3) = erase_both (pf P) TIME_FLOOR f2;
          (pin_res, f4) = pin_reset (pf P) f3;
          (cfg_read, f5) = read_latest (pf P) (crc_of P) CONFIG f4;
          (time_read, f6) = read_latest (pf P) (crc_of P) TIME_FLOOR f5;
          h2 = h1\<lparr>h_flash := f6\<rparr>
      in if key_gone \<and> is_ok cfg_res \<and> is_ok time_res \<and> is_ok pin_res \<and> cfg_read = Inr None \<and> time_read = Inr None
         then (hsm_with (\<lambda>r. r\<lparr>hr_factory_reset := Some \<lparr> or_ok = True \<rparr>\<rparr>),
               h2\<lparr>h_ca_pubkey := None, h_config := None, h_trusted_time_floor := None,
                  h_trusted_time_floor_unavailable := False, h_pin_backoff_until_ms := 0,
                  h_state := Uninitialized\<rparr>)
         else (hsm_err ''ERR_FLASH'' (''factory reset incomplete; key material may remain ''
                 @ [CHR 0xE2, CHR 0x80, CHR 0x94] @ '' retry''), load_from_flash P h2))"

definition hsm_factory_reset ::
    "('e, 'm, 'f, 'r) platform \<Rightarrow> factory_reset_req \<Rightarrow> ('e, 'm, 'f, 'r) hsm
      \<Rightarrow> (hsm_response \<times> ('e, 'm, 'f, 'r) hsm) option" where
  "hsm_factory_reset P req h =
     (if fr_confirm req \<noteq> ''ERASE'' then Some (hsm_err ''ERR_BAD_REQUEST'' ''confirm must be \"ERASE\"'', h)
      else case authorize_reset P (fr_pin req)
             ''factory-reset requires a PIN or physical recovery held low during reset'' h of
          None \<Rightarrow> None
        | Some (Inl resp, h1) \<Rightarrow> Some (resp, h1)
        | Some (Inr _, h1) \<Rightarrow> Some (erase_everything P h1))"

section \<open>The dispatcher\<close>

definition count_set :: "bool list \<Rightarrow> nat" where
  "count_set bs = length (filter id bs)"

definition ONE_COMMAND :: hsm_response where
  "ONE_COMMAND = hsm_err ''ERR_BAD_REQUEST'' ''exactly one hsm command expected''"

definition handle_hsm ::
    "('e, 'm, 'f, 'r) platform \<Rightarrow> hsm_request \<Rightarrow> ('e, 'm, 'f, 'r) hsm \<Rightarrow> (hsm_response \<times> ('e, 'm, 'f, 'r) hsm) option" where
  "handle_hsm P q h =
     (let n = count_set [hq_init q \<noteq> None, hq_generate_key q \<noteq> None, hq_get_public_key q \<noteq> None,
                hq_unlock q \<noteq> None, hq_lock q \<noteq> None, hq_set_time q \<noteq> None, hq_status q \<noteq> None,
                hq_change_pin q \<noteq> None, hq_add_entropy q \<noteq> None, hq_self_test q \<noteq> None,
                hq_factory_reset q \<noteq> None, hq_reboot_bootloader q \<noteq> None]
      in if n \<noteq> 1 then Some (ONE_COMMAND, h)
         else case hq_init q of Some r \<Rightarrow> Some (hsm_init P r h) | None \<Rightarrow>
           (case hq_generate_key q of Some r \<Rightarrow> Some (hsm_generate_key P r h) | None \<Rightarrow>
           (if hq_get_public_key q \<noteq> None then Some (hsm_get_public_key P h, h) else
           (case hq_unlock q of Some r \<Rightarrow> hsm_unlock P r h | None \<Rightarrow>
           (if hq_lock q \<noteq> None then Some (hsm_lock h) else
           (case hq_set_time q of Some r \<Rightarrow> hsm_set_time P r h | None \<Rightarrow>
           (if hq_status q \<noteq> None then hsm_status P h else
           (case hq_change_pin q of Some r \<Rightarrow> hsm_change_pin P r h | None \<Rightarrow>
           (case hq_add_entropy q of Some r \<Rightarrow> Some (hsm_add_entropy P r h) | None \<Rightarrow>
           (if hq_self_test q \<noteq> None then Some (hsm_self_test P h) else
           (case hq_factory_reset q of Some r \<Rightarrow> hsm_factory_reset P r h | None \<Rightarrow>
           (case hq_reboot_bootloader q of Some r \<Rightarrow> hsm_reboot_bootloader P r h | None \<Rightarrow>
            Some (ONE_COMMAND, h)))))))))))))"

text \<open>\<^verbatim>\<open>handle\<close> from the decoded request on.\<close>

definition handle_request ::
    "('e, 'm, 'f, 'r) platform \<Rightarrow> request \<Rightarrow> ('e, 'm, 'f, 'r) hsm \<Rightarrow> (response \<times> ('e, 'm, 'f, 'r) hsm) option" where
  "handle_request P q h =
     (let n = count_set [rq_load_key_signer q \<noteq> None, rq_sign_ssh_key q \<noteq> None, rq_ping q \<noteq> None,
                rq_get_enclave_metrics q \<noteq> None, rq_hsm q \<noteq> None]
      in if n > 1 then Some (response_error ''multiple request variants set; expected exactly one'', h)
         else if rq_load_key_signer q \<noteq> None then Some (handle_load_key_signer h, h)
         else case rq_sign_ssh_key q of Some s \<Rightarrow> handle_sign P s h | None \<Rightarrow>
           (if rq_ping q \<noteq> None then Some (handle_ping h, h)
            else if rq_get_enclave_metrics q \<noteq> None then Some (handle_metrics P h, h)
            else case rq_hsm q of
                Some r \<Rightarrow>
                  map_option (\<lambda>(resp, h1). (response_default\<lparr>rs_hsm := Some resp\<rparr>, h1)) (handle_hsm P r h)
              | None \<Rightarrow> Some (response_error ''unexpected command'', h)))"

definition json_ws :: "u8 \<Rightarrow> bool" where
  "json_ws b \<longleftrightarrow> b = 0x20 \<or> b = 0x09 \<or> b = 0x0A \<or> b = 0x0D"

text \<open>\<open>from_slice\<close> is the JSON decoder of the request type.\<close>

definition handle_line ::
    "('e, 'm, 'f, 'r) platform \<Rightarrow> (bytes \<Rightarrow> string + request) \<Rightarrow> bytes \<Rightarrow> ('e, 'm, 'f, 'r) hsm
      \<Rightarrow> (response \<times> ('e, 'm, 'f, 'r) hsm) option" where
  "handle_line P from_slice line h =
     (let first = find (\<lambda>b. \<not> json_ws b) line in
      if first \<noteq> Some 0x7B then
        Some (response_error ''json.Unmarshal failed: request must be a JSON object'', h)
      else case from_slice line of
          Inl e \<Rightarrow> Some (response_error (''json.Unmarshal failed: '' @ e), h)
        | Inr q \<Rightarrow> handle_request P q h)"

text \<open>\<open>to_vec\<close> is the JSON encoder of the response type.\<close>

definition process_line ::
    "('e, 'm, 'f, 'r) platform \<Rightarrow> (bytes \<Rightarrow> string + request) \<Rightarrow> (response \<Rightarrow> bytes option) \<Rightarrow> bytes
      \<Rightarrow> ('e, 'm, 'f, 'r) hsm \<Rightarrow> (bytes \<times> ('e, 'm, 'f, 'r) hsm) option" where
  "process_line P from_slice to_vec line h =
     map_option (\<lambda>(resp, h1).
       (case to_vec resp of Some b \<Rightarrow> b | None \<Rightarrow> as_bytes ''{\"error\":\"internal error\"}'', h1))
       (handle_line P from_slice line h)"

end
