(* ===== verification/Session.thy ===== *)
theory Session
  imports Dispatch
begin

text \<open>
  Frame rules of the session (\<^verbatim>\<open>hsm-core/src/dispatch.rs\<close>): the helpers that talk to the entropy source,
  the generator and the flash leave the rest of the session alone. \<open>same_session\<close> relates two sessions
  that differ at most in those devices and in the PIN backoff deadline; the collection \<open>frames\<close> holds
  the rules.
\<close>

named_theorems frames "helpers that keep the session"
named_theorems flash_frames "helpers that keep the flash"

definition same_session :: "('e, 'm, 'f, 'r) hsm \<Rightarrow> ('e, 'm, 'f, 'r) hsm \<Rightarrow> bool" where
  "same_session h h' \<longleftrightarrow> h_mono h' = h_mono h \<and> h_clock h' = h_clock h \<and> h_state h' = h_state h
     \<and> h_config h' = h_config h \<and> h_ca h' = h_ca h \<and> h_ca_pubkey h' = h_ca_pubkey h \<and> h_wrap_kek h' = h_wrap_kek h
     \<and> h_wrap_salt h' = h_wrap_salt h \<and> h_trusted_time_floor h' = h_trusted_time_floor h
     \<and> h_trusted_time_floor_unavailable h' = h_trusted_time_floor_unavailable h
     \<and> h_physical_recovery_authorized h' = h_physical_recovery_authorized h \<and> h_heap_free h' = h_heap_free h
     \<and> h_glitch_armed h' = h_glitch_armed h \<and> h_secure_boot h' = h_secure_boot h
     \<and> h_glitch_reset h' = h_glitch_reset h \<and> h_reboot_requested h' = h_reboot_requested h"

lemma same_session_refl [simp]: "same_session h h"
  by (simp add: same_session_def)

lemma same_session_trans: "same_session h h1 \<Longrightarrow> same_session h1 h2 \<Longrightarrow> same_session h h2"
  by (simp add: same_session_def)

lemma same_session_devices [simp]:
  "same_session h (h'\<lparr>h_entropy := e\<rparr>) = same_session h h'" "same_session h (h'\<lparr>h_flash := f\<rparr>) = same_session h h'"
  "same_session h (h'\<lparr>h_drbg := d\<rparr>) = same_session h h'"
  "same_session h (h'\<lparr>h_pin_backoff_until_ms := b\<rparr>) = same_session h h'"
  by (simp_all add: same_session_def)

lemmas same_session_fields = same_session_def [THEN iffD1]

lemma ensure_seeded_frame [frames]: "ensure_seeded P h = (res, h') \<Longrightarrow> same_session h h'"
  and ensure_seeded_flash [flash_frames]: "ensure_seeded P h = (res, h') \<Longrightarrow> h_flash h' = h_flash h"
  by (auto simp: ensure_seeded_def split: if_splits prod.splits)

lemma hsm_reseed_frame [frames]: "hsm_reseed P h = (res, h') \<Longrightarrow> same_session h h'"
  and hsm_reseed_flash [flash_frames]: "hsm_reseed P h = (res, h') \<Longrightarrow> h_flash h' = h_flash h"
  by (auto simp: hsm_reseed_def split: prod.splits)

lemma prepare_keygen_entropy_frame [frames]: "prepare_keygen_entropy P h = (res, h') \<Longrightarrow> same_session h h'"
  and prepare_keygen_entropy_flash [flash_frames]: "prepare_keygen_entropy P h = (res, h') \<Longrightarrow> h_flash h' = h_flash h"
proof -
  assume "prepare_keygen_entropy P h = (res, h')"
  then show "same_session h h'" and "h_flash h' = h_flash h"
    by (auto simp: prepare_keygen_entropy_def dest: frames flash_frames intro: same_session_trans
        split: prod.splits sum.splits) (metis ensure_seeded_flash hsm_reseed_flash)
qed

lemma hsm_random_frame [frames]: "hsm_random P n h = (bs, h') \<Longrightarrow> same_session h h'"
  and hsm_random_flash [flash_frames]: "hsm_random P n h = (bs, h') \<Longrightarrow> h_flash h' = h_flash h"
  by (auto simp: hsm_random_def split: prod.splits)

lemma hsm_generate_frame [frames]: "hsm_generate P h = (sc, h') \<Longrightarrow> same_session h h'"
  and hsm_generate_flash [flash_frames]: "hsm_generate P h = (sc, h') \<Longrightarrow> h_flash h' = h_flash h"
  by (auto simp: hsm_generate_def split: prod.splits)

lemma store_frame [frames]: "store P ab payload h = (res, h') \<Longrightarrow> same_session h h'"
  by (auto simp: store_def split: prod.splits)

lemma erase_key_verified_frame [frames]: "erase_key_verified P h = (gone, h') \<Longrightarrow> same_session h h'"
  by (auto simp: erase_key_verified_def split: prod.splits)

lemma reset_pin_counter_frame [simp]: "same_session h (reset_pin_counter_best_effort P h') = same_session h h'"
  by (auto simp: reset_pin_counter_best_effort_def split: prod.splits sum.splits)

lemma reset_pin_counter_fields [simp]:
  "h_state (reset_pin_counter_best_effort P h) = h_state h" "h_config (reset_pin_counter_best_effort P h) = h_config h"
  "h_ca (reset_pin_counter_best_effort P h) = h_ca h" "h_wrap_kek (reset_pin_counter_best_effort P h) = h_wrap_kek h"
  "h_wrap_salt (reset_pin_counter_best_effort P h) = h_wrap_salt h" "h_mono (reset_pin_counter_best_effort P h) = h_mono h"
  "h_clock (reset_pin_counter_best_effort P h) = h_clock h" "h_ca_pubkey (reset_pin_counter_best_effort P h) = h_ca_pubkey h"
  "h_physical_recovery_authorized (reset_pin_counter_best_effort P h) = h_physical_recovery_authorized h"
  by (simp_all add: reset_pin_counter_best_effort_def split: prod.splits sum.splits)

lemmas err_defs = is_err_def hsm_with_def

lemma hr_error_err [simp]:
  "hr_error (hsm_err c m) = Some \<lparr> he_code = c, he_message = m, he_remaining_attempts = None, he_backoff_ms = None \<rparr>"
  "hr_error (pin_error c m n b) =
     Some \<lparr> he_code = c, he_message = m, he_remaining_attempts = Some n, he_backoff_ms = Some b \<rparr>"
  by (simp_all add: hsm_err_def pin_error_def)

section \<open>PIN verification\<close>

text \<open>A wrong PIN either leaves the session alone or locks it out.\<close>

definition locked_session :: "('e, 'm, 'f, 'r) hsm \<Rightarrow> ('e, 'm, 'f, 'r) hsm \<Rightarrow> bool" where
  "locked_session h h' \<longleftrightarrow> same_session (enter_locked_out h) h'
     \<or> same_session ((enter_locked_out h)\<lparr>h_ca_pubkey := None\<rparr>) h'"

lemma locked_session_fields:
  assumes "locked_session h h'"
  shows "h_state h' = LockedOut" "h_config h' = h_config h" "h_ca h' = None" "h_wrap_kek h' = None" "h_wrap_salt h' = None"
    "h_mono h' = h_mono h" "h_clock h' = h_clock h" "h_physical_recovery_authorized h' = h_physical_recovery_authorized h"
    "h_trusted_time_floor h' = h_trusted_time_floor h"
    "h_trusted_time_floor_unavailable h' = h_trusted_time_floor_unavailable h"
    "h_reboot_requested h' = h_reboot_requested h"
  using assms by (auto simp: locked_session_def same_session_def enter_locked_out_def drop_live_secrets_def)

lemma locked_session_same:
  "same_session h h1 \<Longrightarrow> locked_session h1 h2 \<Longrightarrow> locked_session h h2"
  by (auto simp: locked_session_def same_session_def enter_locked_out_def drop_live_secrets_def)

lemma locked_session_simps [simp]:
  "locked_session h (h'\<lparr>h_flash := f\<rparr>) = locked_session h h'"
  "locked_session h (enter_locked_out (h\<lparr>h_pin_backoff_until_ms := b\<rparr>))"
  by (simp_all add: locked_session_def enter_locked_out_def drop_live_secrets_def same_session_def)

lemma locked_session_forget_key:
  "same_session (enter_locked_out h) h' \<Longrightarrow> locked_session h (h'\<lparr>h_ca_pubkey := None\<rparr>)"
  by (simp add: locked_session_def same_session_def)

lemma enter_locked_out_backoff:
  "same_session (enter_locked_out (h\<lparr>h_pin_backoff_until_ms := b\<rparr>)) h' = same_session (enter_locked_out h) h'"
  by (simp add: same_session_def enter_locked_out_def drop_live_secrets_def)

lemma reject_pin_frame:
  assumes "reject_pin P cfg n h = (resp, h')"
  shows "if (of_nat n :: u32) \<ge> ucast (max_retries cfg) then locked_session h h' else same_session h h'"
proof -
  let ?b = "u64_saturating_add (now_ms P h) (ucast (backoff_ms (of_nat (n - Suc 0))))"
  let ?h1 = "h\<lparr>h_pin_backoff_until_ms := ?b\<rparr>"
  obtain gone h3 where e: "erase_key_verified P (enter_locked_out ?h1) = (gone, h3)" by fastforce
  have "same_session (enter_locked_out h) h3"
    using erase_key_verified_frame [OF e] by (simp add: enter_locked_out_backoff)
  moreover from this have "locked_session h h3" by (simp add: locked_session_def)
  ultimately show ?thesis
    using assms by (auto simp: reject_pin_def Let_def e locked_session_forget_key split: if_splits)
qed

lemma check_pin_frame:
  assumes "check_pin P cfg n pin h = (res, h')"
  shows "same_session h h' \<or> (\<exists>resp. res = Inl resp) \<and> locked_session h h'"
proof (cases "same_session h h'")
  case False
  with assms obtain f resp where r: "reject_pin P cfg n (h\<lparr>h_flash := f\<rparr>) = (resp, h')" and "res = Inl resp"
    by (auto simp: check_pin_def Let_def split: prod.splits sum.splits option.splits)
  moreover have "same_session h (h\<lparr>h_flash := f\<rparr>)" by simp
  ultimately show ?thesis
    using reject_pin_frame [OF r] False same_session_trans locked_session_same by (metis (no_types, lifting))
qed simp

lemma verify_pin_frame:
  assumes "verify_pin P pin h = Some (res, h')"
  shows "same_session h h' \<or> (\<exists>resp. res = Inl resp) \<and> locked_session h h'"
proof (cases "same_session h h'")
  case False
  with assms obtain cfg n f where c: "check_pin P cfg n pin (h\<lparr>h_flash := f\<rparr>) = (res, h')"
    by (auto simp: verify_pin_def Let_def split: prod.splits sum.splits option.splits if_splits)
  have "same_session h (h\<lparr>h_flash := f\<rparr>)" by simp
  then show ?thesis
    using check_pin_frame [OF c] False same_session_trans locked_session_same by (metis (no_types, lifting))
qed simp

lemma verify_pin_total: "h_config h \<noteq> None \<Longrightarrow> \<exists>res h'. verify_pin P pin h = Some (res, h')"
  by (auto simp: verify_pin_def)

section \<open>The session invariant\<close>

text \<open>Which configuration a state comes with, and which secrets it may hold.\<close>

fun mode_ok :: "device_state \<Rightarrow> device_config option \<Rightarrow> bool" where
  "mode_ok Uninitialized c \<longleftrightarrow> c = None"
| "mode_ok DevReady c \<longleftrightarrow> map_option mode c = Some Dev"
| "mode_ok _ c \<longleftrightarrow> map_option mode c = Some Prod"

fun secrets_ok :: "device_state \<Rightarrow> ca_key option \<Rightarrow> bytes option \<Rightarrow> bytes option \<Rightarrow> bool" where
  "secrets_ok DevReady ca kek slt \<longleftrightarrow> (ca \<noteq> None \<longrightarrow> kek \<noteq> None) \<and> slt = None"
| "secrets_ok ProdReady ca kek slt \<longleftrightarrow> ca \<noteq> None \<and> kek \<noteq> None \<and> slt \<noteq> None"
| "secrets_ok _ ca kek slt \<longleftrightarrow> ca = None \<and> kek = None \<and> slt = None"

definition hsm_inv :: "('e, 'm, 'f, 'r) platform \<Rightarrow> ('e, 'm, 'f, 'r) hsm \<Rightarrow> bool" where
  "hsm_inv P h \<longleftrightarrow> mode_ok (h_state h) (h_config h)
     \<and> secrets_ok (h_state h) (h_ca h) (h_wrap_kek h) (h_wrap_salt h)
     \<and> clock_inv (now_micros (pm P) (h_mono h)) (h_clock h)"

lemma hsm_inv_same: "same_session h h' \<Longrightarrow> hsm_inv P h' = hsm_inv P h"
  by (simp add: hsm_inv_def same_session_def)

lemma hsm_inv_locked:
  "locked_session h h' \<Longrightarrow> hsm_inv P h \<Longrightarrow> h_state h \<in> {ProdLocked, ProdReady} \<Longrightarrow> hsm_inv P h'"
  by (auto simp: hsm_inv_def locked_session_fields)

lemma hsm_inv_config: "hsm_inv P h \<Longrightarrow> h_state h \<noteq> Uninitialized \<Longrightarrow> h_config h \<noteq> None"
  by (cases "h_state h") (auto simp: hsm_inv_def)

lemma verify_pin_inv:
  assumes "verify_pin P pin h = Some (res, h')" and "hsm_inv P h" and "h_state h \<in> {ProdLocked, ProdReady}"
  shows "hsm_inv P h'"
  using verify_pin_frame [OF assms(1)] hsm_inv_same hsm_inv_locked assms(2,3) by blast

lemma load_dev_inv:
  assumes "clock_inv (now_micros (pm P) (h_mono h)) (h_clock h)" and "h_ca h = None" and "h_wrap_salt h = None"
    and "map_option mode (h_config h) = Some Dev"
  shows "hsm_inv P (load_dev P kb h)"
  using assms by (auto simp: load_dev_def hsm_inv_def Let_def split: sum.splits option.splits)

lemma load_prod_fields:
  "h_config (load_prod P kb c h) = h_config h" "h_clock (load_prod P kb c h) = h_clock h" "h_mono (load_prod P kb c h) = h_mono h"
  "h_ca (load_prod P kb c h) = None" "h_wrap_kek (load_prod P kb c h) = None" "h_wrap_salt (load_prod P kb c h) = None"
  "h_state (load_prod P kb c h) = LockedOut \<or> h_state (load_prod P kb c h) = ProdLocked"
  by (simp_all add: load_prod_def enter_locked_out_def drop_live_secrets_def Let_def split: prod.splits)

lemma load_prod_inv:
  assumes "clock_inv (now_micros (pm P) (h_mono h)) (h_clock h)" and "map_option mode (h_config h) = Some Prod"
  shows "hsm_inv P (load_prod P kb c h)"
  using assms load_prod_fields(7) [of P kb c h] by (auto simp: hsm_inv_def load_prod_fields(1-6))

lemma load_from_flash_inv:
  assumes "clock_inv (now_micros (pm P) (h_mono h)) (h_clock h)" and "h_ca h = None"
  shows "hsm_inv P (load_from_flash P h)"
proof -
  obtain cr f1 where c: "read_latest (pf P) (crc_of P) CONFIG (h_flash h) = (cr, f1)" by fastforce
  obtain kr f2 where k: "read_latest (pf P) (crc_of P) KEY f1 = (kr, f2)" by fastforce
  obtain tr f3 where t: "read_latest_fail_closed (pf P) (crc_of P) TIME_FLOOR f2 = (tr, f3)" by fastforce
  show ?thesis
    unfolding load_from_flash_def c k t Let_def prod.case
    using assms
    by (auto intro!: load_dev_inv load_prod_inv split: prod.split option.split mode.split) (simp add: hsm_inv_def)
qed

lemma boot_inv: "hsm_inv P (boot P e m f)"
  unfolding boot_def by (auto intro!: load_from_flash_inv split: prod.splits)

end
