(* ===== verification/Device.thy ===== *)
theory Device
  imports Session
begin

text \<open>
  The device as a transition system: every request line, transport event, firmware call, passage of
  time and power cycle (\<^verbatim>\<open>hsm-core/src/dispatch.rs\<close>, driven by \<^verbatim>\<open>hsm-fw/src/usb.rs\<close>), the invariant of its
  reachable sessions, and the answers it gives to every request.
\<close>

section \<open>Every handler keeps the invariant\<close>

lemma init_dev_inv:
  assumes "init_dev P h = (resp, h')" and "hsm_inv P h" and "h_config h = None"
  shows "hsm_inv P h'"
proof -
  have u: "h_state h = Uninitialized" using assms(2,3) by (cases "h_state h") (auto simp: hsm_inv_def)
  show ?thesis
    using assms(1,2) u
    by (auto simp: init_dev_def Let_def hsm_inv_def same_session_def dest!: store_frame split: sum.splits prod.splits)
qed

lemma init_prod_commit_inv:
  assumes "init_prod_commit P blob r w pk h = (resp, h')" and "hsm_inv P h"
  shows "hsm_inv P h'"
  using assms
  by (auto simp: init_prod_commit_def Let_def hsm_inv_def same_session_def dest!: store_frame split: sum.splits prod.splits)

lemma init_prod_inv:
  assumes "init_prod P req h = (resp, h')" and "hsm_inv P h"
  shows "hsm_inv P h'"
  using assms
  by (auto simp: init_prod_def Let_def hsm_inv_same dest!: frames dest: init_prod_commit_inv
      split: sum.splits prod.splits option.splits if_splits)

lemma hsm_init_inv:
  assumes "hsm_init P req h = (resp, h')" and "hsm_inv P h"
  shows "hsm_inv P h'"
  using assms by (auto simp: hsm_init_def dest: init_dev_inv init_prod_inv split: if_splits)

text \<open>Giving a ready device a new CA key keeps the invariant.\<close>

lemma hsm_inv_new_key:
  "hsm_inv P h \<Longrightarrow> h_state h = DevReady \<or> h_state h = ProdReady \<Longrightarrow> h_wrap_kek h \<noteq> None \<Longrightarrow> same_session h h'
    \<Longrightarrow> hsm_inv P (h'\<lparr>h_ca := Some ca, h_ca_pubkey := pk\<rparr>)"
  by (auto simp: hsm_inv_def same_session_def)

lemma generate_key_with_frame:
  assumes "generate_key_with P wt kek h = (resp, h')"
  shows "same_session h h' \<or> (\<exists>h1 ca pk. h' = h1\<lparr>h_ca := Some ca, h_ca_pubkey := pk\<rparr> \<and> same_session h h1)"
proof -
  obtain r1 h1 where 1: "prepare_keygen_entropy P h = (r1, h1)" by fastforce
  obtain seed ca h2 where 2: "hsm_generate P h1 = ((seed, ca), h2)" by (metis prod.exhaust)
  obtain nonce h3 where 3: "hsm_random P 12 h2 = (nonce, h3)" by fastforce
  define ps where "ps = (case wt of DevKek \<Rightarrow> None | PinKek \<Rightarrow> h_wrap_salt h1)"
  obtain slt h4 where 4: "(case ps of Some s \<Rightarrow> (s, h3) | None \<Rightarrow> hsm_random P 16 h3) = (slt, h4)" by fastforce
  obtain r5 h5 where 5: "store P KEY (key_blob_to_bytes (wrap_seed (px P) kek seed (public_bytes (px P) ca) wt slt nonce)) h4
      = (r5, h5)" by fastforce
  have "same_session h h1" "same_session h1 h2" "same_session h2 h3" "same_session h4 h5"
    using 1 2 3 5 by (auto dest: frames)
  moreover have "same_session h3 h4" using 4 by (auto dest: frames split: option.splits)
  ultimately have "same_session h h1" "same_session h h5" by (blast intro: same_session_trans)+
  with assms show ?thesis
    by (auto simp: generate_key_with_def 1 2 3 4 5 ps_def [symmetric] Let_def split: sum.splits if_splits)
qed

lemma generate_key_with_inv:
  assumes "generate_key_with P wt kek h = (resp, h')" and "hsm_inv P h"
    and "h_state h = DevReady \<or> h_state h = ProdReady" and "h_wrap_kek h \<noteq> None"
  shows "hsm_inv P h'"
  using generate_key_with_frame [OF assms(1)] hsm_inv_new_key [OF assms(2-4)] hsm_inv_same assms(2) by blast

lemma hsm_generate_key_inv:
  assumes "hsm_generate_key P req h = (resp, h')" and "hsm_inv P h"
  shows "hsm_inv P h'"
  using assms
  by (auto simp: hsm_generate_key_def Let_def dest!: generate_key_with_inv
      split: device_state.splits if_splits option.splits mode.splits)

lemma hsm_unlock_inv:
  assumes "hsm_unlock P req h = Some (resp, h')" and "hsm_inv P h"
  shows "hsm_inv P h'"
proof (cases "h_state h = ProdLocked")
  case True
  then obtain res h1 where v: "verify_pin P (ur_pin req) h = Some (res, h1)"
    using assms(1) by (auto simp: hsm_unlock_def split: option.splits)
  have "hsm_inv P h1" using verify_pin_inv [OF v assms(2)] True by simp
  moreover have "h_config h1 = h_config h" if "res = Inr r" for r
    using verify_pin_frame [OF v] that by (auto simp: same_session_def)
  ultimately show ?thesis
    using assms True v by (auto simp: hsm_unlock_def hsm_inv_def split: sum.splits)
next
  case False
  with assms show ?thesis by (auto simp: hsm_unlock_def split: device_state.splits)
qed

lemma hsm_inv_drop: "hsm_inv P h \<Longrightarrow> h_state h \<in> {ProdLocked, LockedOut} \<Longrightarrow> hsm_inv P (drop_live_secrets h)"
  by (auto simp: hsm_inv_def drop_live_secrets_def)

lemma hsm_inv_relock: "hsm_inv P h \<Longrightarrow> h_state h = ProdReady \<Longrightarrow> hsm_inv P ((drop_live_secrets h)\<lparr>h_state := ProdLocked\<rparr>)"
  by (auto simp: hsm_inv_def drop_live_secrets_def)

lemma hsm_lock_inv: "hsm_lock h = (resp, h') \<Longrightarrow> hsm_inv P h \<Longrightarrow> hsm_inv P h'"
  by (auto simp: hsm_lock_def intro!: hsm_inv_drop hsm_inv_relock split: device_state.splits)

lemma relock_inv: "hsm_inv P h \<Longrightarrow> hsm_inv P (relock_on_transport_reset h)"
proof -
  assume inv: "hsm_inv P h"
  then have "map_option mode (h_config h) \<noteq> Some Prod" if "h_state h \<in> {Uninitialized, DevReady}"
    using that by (auto simp: hsm_inv_def)
  then show ?thesis
    using inv hsm_inv_drop [OF inv] hsm_inv_relock [OF inv]
    by (cases "h_state h") (auto simp: relock_on_transport_reset_def drop_live_secrets_def Let_def)
qed

text \<open>A \<^verbatim>\<open>setTime\<close> request either changes nothing but the flash, or sets the clock and the floor.\<close>

lemma hsm_set_time_error:
  assumes "hsm_set_time P req h = Some (resp, h')" and "is_err resp"
  shows "same_session h h'"
proof -
  obtain res c where "clock_set (pm P) (h_mono h) (h_clock h) (st_unix_seconds req) = (res, c)" by fastforce
  with assms show ?thesis
    by (auto simp: hsm_set_time_def err_defs Let_def dest: store_frame split: if_splits sum.splits rejected.splits option.splits
        prod.splits Option.bind_splits)
qed

lemma hsm_set_time_guards:
  assumes "hsm_set_time P req h = Some (resp, h')" and "\<not> is_err resp"
  shows "\<not> h_trusted_time_floor_unavailable h"
    and "clock_is_set (h_clock h) \<or> h_physical_recovery_authorized h
        \<or> (\<forall>fl. h_trusted_time_floor h = Some fl \<longrightarrow> \<not> too_far (st_unix_seconds req) fl)"
    and "\<exists>had c. clock_set (pm P) (h_mono h) (h_clock h) (st_unix_seconds req) = (Inr had, c)"
proof -
  show "\<not> h_trusted_time_floor_unavailable h" "clock_is_set (h_clock h) \<or> h_physical_recovery_authorized h
        \<or> (\<forall>fl. h_trusted_time_floor h = Some fl \<longrightarrow> \<not> too_far (st_unix_seconds req) fl)"
    using assms by (auto simp: hsm_set_time_def err_defs Let_def split: if_splits option.splits)
  obtain res c where c: "clock_set (pm P) (h_mono h) (h_clock h) (st_unix_seconds req) = (res, c)" by fastforce
  then show "\<exists>had c. clock_set (pm P) (h_mono h) (h_clock h) (st_unix_seconds req) = (Inr had, c)"
    using assms by (cases res) (auto simp: hsm_set_time_def err_defs Let_def split: if_splits rejected.splits)
qed

lemma hsm_set_time_cases:
  assumes "hsm_set_time P req h = Some (resp, h')"
  obtains (refused) "is_err resp" "same_session h h'"
  | (accepted) had c where "clock_set (pm P) (h_mono h) (h_clock h) (st_unix_seconds req) = (Inr had, c)"
      "same_session (h\<lparr>h_clock := c, h_trusted_time_floor := next_floor P h c (st_unix_seconds req)\<rparr>) h'"
      "\<not> h_trusted_time_floor_unavailable h"
      "clock_is_set (h_clock h) \<or> h_physical_recovery_authorized h
        \<or> (\<forall>fl. h_trusted_time_floor h = Some fl \<longrightarrow> \<not> too_far (st_unix_seconds req) fl)"
      "if next_floor P h c (st_unix_seconds req) = h_trusted_time_floor h then h_flash h' = h_flash h
       else \<exists>t h1. next_floor P h c (st_unix_seconds req) = Some t
         \<and> store P TIME_FLOOR (time_floor_to_bytes t) h = (Inr (), h1) \<and> h_flash h' = h_flash h1"
proof -
  let ?u = "st_unix_seconds req"
  show thesis
  proof (cases "is_err resp")
    case True
    with hsm_set_time_error [OF assms] show thesis by (blast intro: refused)
  next
    case False
    note g = hsm_set_time_guards [OF assms False]
    then obtain had c where c: "clock_set (pm P) (h_mono h) (h_clock h) ?u = (Inr had, c)" by blast
    let ?nf = "next_floor P h c ?u"
    have guards: "\<not> (\<not> clock_is_set (h_clock h) \<and> \<not> h_physical_recovery_authorized h
        \<and> (case h_trusted_time_floor h of None \<Rightarrow> False | Some fl \<Rightarrow> too_far ?u fl))"
      using g(2) by (auto split: option.split)
    note run = hsm_set_time_def g(1) guards c Let_def
    show thesis
    proof (cases "?nf = h_trusted_time_floor h")
      case True
      with assms have h': "h' = h\<lparr>h_clock := c\<rparr>" by (auto simp: run)
      with True c g show thesis by (intro accepted [of had c]) (simp_all add: same_session_def)
    next
      case nf: False
      then obtain t where t: "?nf = Some t"
        using assms by (cases ?nf) (simp_all add: run)
      obtain r h1 where st: "store P TIME_FLOOR (time_floor_to_bytes t) h = (r, h1)" by fastforce
      have r: "r = Inr ()"
        using assms False nf by (cases r) (auto simp: run t st err_defs)
      have h': "h' = h1\<lparr>h_clock := c, h_trusted_time_floor := ?nf\<rparr>"
        using assms nf by (simp add: run t st r)
      have "same_session (h\<lparr>h_clock := c, h_trusted_time_floor := ?nf\<rparr>) h'"
        using store_frame [OF st] by (simp add: h' same_session_def)
      with c g show thesis
        by (rule_tac accepted [of had c]) (use nf t st r h' in auto)
    qed
  qed
qed

lemma hsm_set_time_inv:
  assumes "hsm_set_time P req h = Some (resp, h')" and "hsm_inv P h"
  shows "hsm_inv P h'"
  using assms(1)
proof (cases rule: hsm_set_time_cases)
  case (accepted had c)
  then show ?thesis using assms(2) clock_set_inv [OF _ accepted(1)] by (auto simp: hsm_inv_def same_session_def)
qed (use assms(2) hsm_inv_same in blast)

lemma hsm_status_frame: "hsm_status P h = Some (resp, h') \<Longrightarrow> same_session h h'"
  by (auto simp: hsm_status_def Let_def split: option.splits prod.splits if_splits Option.bind_splits)

lemma hsm_self_test_frame: "hsm_self_test P h = (resp, h') \<Longrightarrow> same_session h h'"
  by (auto simp: hsm_self_test_def Let_def split: prod.splits)

lemma hsm_add_entropy_frame: "hsm_add_entropy P req h = (resp, h') \<Longrightarrow> same_session h h'"
  by (auto simp: hsm_add_entropy_def split: option.splits if_splits)

lemma rewrap_seed_inv:
  assumes "rewrap_seed P cfg pin ready seed h = (resp, h')" and "hsm_inv P h"
    and "h_state h \<in> {ProdLocked, ProdReady}"
  shows "hsm_inv P h'"
proof -
  obtain r1 h1 where 1: "prepare_keygen_entropy P h = (r1, h1)" by fastforce
  obtain slt h2 where 2: "hsm_random P 16 h1 = (slt, h2)" by fastforce
  obtain nonce h3 where 3: "hsm_random P 12 h2 = (nonce, h3)" by fastforce
  have ss: "same_session h h1" "same_session h1 h2" "same_session h2 h3"
    using 1 2 3 by (auto dest: frames)
  then have s: "same_session h h1" "same_session h h2" "same_session h h3" by (blast intro: same_session_trans)+
  have "hsm_inv P h' \<or> (\<exists>bs r4 h4. store P KEY bs h3 = (r4, h4) \<and> (h' = h4 \<or>
      (\<exists>ca kek sl. h' = reset_pin_counter_best_effort P h4\<lparr>h_ca := Some ca, h_wrap_kek := Some kek,
         h_wrap_salt := Some sl, h_state := ProdReady\<rparr>) \<or>
      h' = reset_pin_counter_best_effort P h4\<lparr>h_ca := None, h_wrap_kek := None, h_wrap_salt := None,
         h_state := ProdLocked\<rparr>))"
    using assms(1,2) s
    by (auto simp: rewrap_seed_def 1 2 3 Let_def hsm_inv_same split: sum.splits option.splits if_splits prod.splits) blast+
  moreover have "same_session h h4" if "store P KEY bs h3 = (r4, h4)" for bs r4 h4
    using that s by (blast dest: store_frame intro: same_session_trans)
  ultimately show ?thesis
    using assms(2,3) by (auto simp: hsm_inv_def same_session_def)
qed

lemma hsm_change_pin_inv:
  assumes "hsm_change_pin P req h = Some (resp, h')" and "hsm_inv P h"
  shows "hsm_inv P h'"
proof (cases "h_state h \<in> {ProdLocked, ProdReady} \<and> pin_len_ok (cr_new_pin req)")
  case True
  then obtain res h1 where v: "verify_pin P (cr_current_pin req) h = Some (res, h1)"
    using assms(1) by (auto simp: hsm_change_pin_def split: option.splits device_state.splits)
  have i: "hsm_inv P h1" using verify_pin_inv [OF v assms(2)] True by blast
  have st: "h_state h1 = h_state h" if "res = Inr r" for r
    using verify_pin_frame [OF v] that by (auto simp: same_session_def)
  show ?thesis
  proof (cases res)
    case (Inr r)
    obtain cfg seed where "rewrap_seed P cfg (cr_new_pin req) (h_state h = ProdReady) seed h1 = (resp, h')"
      using assms(1) True v Inr
      by (cases "h_state h"; cases r) (auto simp: hsm_change_pin_def split: option.splits)
    then show ?thesis using rewrap_seed_inv [OF _ i] st [OF Inr] True by auto
  qed (use assms(1) True v i in \<open>cases "h_state h"; auto simp: hsm_change_pin_def\<close>)
next
  case False
  with assms show ?thesis by (cases "h_state h") (auto simp: hsm_change_pin_def)
qed

lemma authorize_reset_inv:
  assumes "authorize_reset P pin msg h = Some (res, h')" and "hsm_inv P h"
  shows "hsm_inv P h'"
  using assms
  by (cases "h_state h") (auto simp: authorize_reset_def dest: verify_pin_inv split: if_splits option.splits sum.splits prod.splits)

lemma erase_everything_inv:
  assumes "erase_everything P h = (resp, h')" and "hsm_inv P h"
  shows "hsm_inv P h'"
proof -
  obtain gone h1 where 1: "erase_key_verified P (drop_live_secrets h) = (gone, h1)" by fastforce
  obtain r2 f2 where 2: "erase_both (pf P) CONFIG (h_flash h1) = (r2, f2)" by fastforce
  obtain r3 f3 where 3: "erase_both (pf P) TIME_FLOOR f2 = (r3, f3)" by fastforce
  obtain r4 f4 where 4: "pin_reset (pf P) f3 = (r4, f4)" by fastforce
  obtain r5 f5 where 5: "read_latest (pf P) (crc_of P) CONFIG f4 = (r5, f5)" by fastforce
  obtain r6 f6 where 6: "read_latest (pf P) (crc_of P) TIME_FLOOR f5 = (r6, f6)" by fastforce
  have s: "clock_inv (now_micros (pm P) (h_mono h1)) (h_clock h1)" "h_ca h1 = None" "h_wrap_kek h1 = None"
    "h_wrap_salt h1 = None"
    using erase_key_verified_frame [OF 1] assms(2) by (simp_all add: same_session_def drop_live_secrets_def hsm_inv_def)
  have "hsm_inv P (load_from_flash P (h1\<lparr>h_flash := f6\<rparr>))"
    by (rule load_from_flash_inv) (simp_all add: s)
  with assms(1) s show ?thesis
    by (auto simp: erase_everything_def 1 2 3 4 5 6 Let_def hsm_inv_def split: if_splits)
qed

lemma hsm_factory_reset_inv:
  assumes "hsm_factory_reset P req h = Some (resp, h')" and "hsm_inv P h"
  shows "hsm_inv P h'"
  using assms
  by (auto simp: hsm_factory_reset_def dest: authorize_reset_inv erase_everything_inv
      split: if_splits option.splits sum.splits prod.splits)

lemma hsm_inv_flags [simp]:
  "hsm_inv P (h\<lparr>h_reboot_requested := b\<rparr>) = hsm_inv P h" "hsm_inv P (h\<lparr>h_physical_recovery_authorized := b\<rparr>) = hsm_inv P h"
  "hsm_inv P (h\<lparr>h_heap_free := n\<rparr>) = hsm_inv P h" "hsm_inv P (h\<lparr>h_glitch_armed := b\<rparr>) = hsm_inv P h"
  "hsm_inv P (h\<lparr>h_secure_boot := b\<rparr>) = hsm_inv P h" "hsm_inv P (h\<lparr>h_glitch_reset := b\<rparr>) = hsm_inv P h"
  "hsm_inv P (h\<lparr>h_drbg := d\<rparr>) = hsm_inv P h"
  by (simp_all add: hsm_inv_def)

lemma hsm_reboot_bootloader_inv:
  assumes "hsm_reboot_bootloader P req h = Some (resp, h')" and "hsm_inv P h"
  shows "hsm_inv P h'"
  using assms
  by (auto simp: hsm_reboot_bootloader_def dest: authorize_reset_inv split: option.splits sum.splits prod.splits)

lemma handle_sign_frame:
  assumes "handle_sign P req h = Some (resp, h')"
  shows "same_session h h'" and "h_flash h' = h_flash h"
proof -
  obtain r1 h1 where 1: "ensure_seeded P h = (r1, h1)" by fastforce
  obtain nonce h2 where 2: "hsm_random P 32 h1 = (nonce, h2)" by fastforce
  have "same_session h h1" "same_session h1 h2" "h_flash h2 = h_flash h" "h_flash h1 = h_flash h"
    using ensure_seeded_frame [OF 1] ensure_seeded_flash [OF 1] hsm_random_frame [OF 2] hsm_random_flash [OF 2] by simp_all
  moreover from this have "same_session h h2" by (blast intro: same_session_trans)
  ultimately show "same_session h h'" and "h_flash h' = h_flash h"
    using assms by (auto simp: handle_sign_def 1 2 Let_def split: if_splits option.splits sum.splits prod.splits)
qed

lemmas handler_invs = hsm_init_inv hsm_generate_key_inv hsm_unlock_inv hsm_lock_inv hsm_set_time_inv
  hsm_change_pin_inv hsm_factory_reset_inv hsm_reboot_bootloader_inv
lemmas handler_frames = hsm_status_frame hsm_add_entropy_frame hsm_self_test_frame handle_sign_frame(1)

text \<open>A management request reaches at most one of the twelve handlers.\<close>

lemma handle_hsm_cases:
  assumes "handle_hsm P q h = x"
  obtains (bad) "x = Some (ONE_COMMAND, h)"
  | (init) r where "hq_init q = Some r" "x = Some (hsm_init P r h)"
  | (generate_key) r where "x = Some (hsm_generate_key P r h)"
  | (get_public_key) "x = Some (hsm_get_public_key P h, h)"
  | (unlock) r where "hq_init q = None" "hq_unlock q = Some r" "x = hsm_unlock P r h"
  | (lock) "hq_init q = None" "hq_unlock q = None" "hq_lock q \<noteq> None" "x = Some (hsm_lock h)"
  | (set_time) r where "x = hsm_set_time P r h"
  | (status) "x = hsm_status P h"
  | (change_pin) r where "hq_init q = None" "hq_unlock q = None" "\<not> hq_lock q \<noteq> None" "hq_change_pin q = Some r"
      "x = hsm_change_pin P r h"
  | (add_entropy) r where "x = Some (hsm_add_entropy P r h)"
  | (self_test) "x = Some (hsm_self_test P h)"
  | (factory_reset) r where "hq_init q = None" "hq_unlock q = None" "\<not> hq_lock q \<noteq> None" "hq_change_pin q = None"
      "hq_factory_reset q = Some r" "x = hsm_factory_reset P r h"
  | (reboot_bootloader) r where "hq_init q = None" "hq_unlock q = None" "\<not> hq_lock q \<noteq> None" "hq_change_pin q = None"
      "hq_factory_reset q = None" "hq_reboot_bootloader q = Some r" "x = hsm_reboot_bootloader P r h"
  using assms unfolding handle_hsm_def Let_def
  by (simp only: split: if_splits option.splits; blast)

lemma handle_hsm_inv:
  assumes "handle_hsm P q h = Some (resp, h')" and "hsm_inv P h"
  shows "hsm_inv P h'"
  using assms(1)
proof (cases rule: handle_hsm_cases)
  case status then show ?thesis using assms(2) hsm_inv_same handler_frames(1) by metis
next
  case (add_entropy r) then show ?thesis using assms(2) hsm_inv_same handler_frames(2) by (metis option.inject)
next
  case self_test then show ?thesis using assms(2) hsm_inv_same handler_frames(3) by (metis option.inject)
qed (use assms(2) handler_invs in \<open>metis option.inject prod.inject\<close>)+

lemma handle_request_inv:
  assumes "handle_request P q h = Some (resp, h')" and "hsm_inv P h"
  shows "hsm_inv P h'"
  using assms handle_sign_frame(1) [of P _ h _ h'] hsm_inv_same [of h h' P]
  by (auto simp: handle_request_def Let_def dest: handle_hsm_inv split: if_splits option.splits)

lemma process_line_cases:
  assumes "process_line P from_slice to_vec line h = Some (out, h')"
  obtains "h' = h" | q resp where "from_slice line = Inr q" "handle_request P q h = Some (resp, h')"
  using assms by (auto simp: process_line_def handle_line_def Let_def split: if_splits sum.splits)

lemma process_line_inv:
  assumes "process_line P from_slice to_vec line h = Some (out, h')" and "hsm_inv P h"
  shows "hsm_inv P h'"
  using assms(1) by (cases rule: process_line_cases) (use assms(2) handle_request_inv in blast)+

section \<open>Every request is answered\<close>

lemma validate_request_result: "\<exists>res. validate_request req = Some res"
  using parse_duration_result [of "validity req"]
  by (auto simp: validate_request_def split: sum.splits option.splits)

lemma validate_panics:
  assumes "validate X W req = None"
  shows "parse_authorized_key X W (ssh_key req) = None"
proof (rule ccontr)
  assume "parse_authorized_key X W (ssh_key req) \<noteq> None"
  then obtain k where k: "parse_authorized_key X W (ssh_key req) = Some k" by blast
  obtain v where v: "validate_request req = Some v" using validate_request_result by blast
  have f: "format_duration d \<noteq> None" for d using format_duration_result [of d] by auto
  from assms k v show False
    by (auto simp del: not_None_eq dest!: f [THEN notE] simp: validate_def try_then_def map_sum_def Let_def split: sum.splits if_splits Option.bind_splits)
qed

lemma handle_sign_panics:
  assumes "handle_sign P req h = None" and "hsm_inv P h"
  shows "parse_authorized_key (px P) (pw P) (ssh_key req) = None"
proof -
  have "now_unix (pm P) (h_mono h) (h_clock h) \<noteq> None"
    by (rule now_unix_total) (use assms(2) in \<open>simp add: hsm_inv_def\<close>)
  moreover have "h_ca h3 \<noteq> None" if "h_ca h \<noteq> None" "ensure_seeded P h = (r, h1)" "hsm_random P 32 h1 = (n, h3)" for r h1 n h3
    using that by (auto dest!: frames simp: same_session_def)
  ultimately show ?thesis
    using assms(1) by (fastforce simp: handle_sign_def Let_def dest!: validate_panics split: if_splits option.splits sum.splits prod.splits)
qed

lemma verify_pin_answers: "hsm_inv P h \<Longrightarrow> h_state h \<noteq> Uninitialized \<Longrightarrow> verify_pin P pin h \<noteq> None"
  using hsm_inv_config [of P h] by (auto simp: verify_pin_def)

lemma next_floor_None: "next_floor P h c u = None \<Longrightarrow> h_trusted_time_floor h = None"
  by (auto simp: next_floor_def Let_def split: if_splits option.splits)

lemma hsm_set_time_answers: "hsm_set_time P req h \<noteq> None"
  using next_floor_None [of P h]
  by (auto simp: hsm_set_time_def Let_def simp del: not_None_eq
      split: if_splits sum.splits rejected.splits option.splits prod.splits Option.bind_splits)

lemma hsm_status_answers:
  assumes "hsm_inv P h"
  shows "hsm_status P h \<noteq> None"
proof -
  have "now_unix (pm P) (h_mono h) (h_clock h) \<noteq> None"
    by (rule now_unix_total) (use assms in \<open>simp add: hsm_inv_def\<close>)
  then show ?thesis
    by (auto simp: hsm_status_def Let_def split: option.splits prod.splits)
qed

lemma hsm_unlock_answers: "hsm_inv P h \<Longrightarrow> hsm_unlock P req h \<noteq> None"
  using verify_pin_answers [of P h "ur_pin req"]
  by (auto simp: hsm_unlock_def split: device_state.splits option.splits sum.splits)

lemma hsm_change_pin_answers:
  assumes "hsm_inv P h"
  shows "hsm_change_pin P req h \<noteq> None"
proof -
  have "h_config h1 \<noteq> None" if "verify_pin P (cr_current_pin req) h = Some (res, h1)" "h_state h \<noteq> Uninitialized" for res h1
    using verify_pin_frame [OF that(1)] hsm_inv_config [OF assms that(2)] by (auto simp: same_session_def locked_session_fields)
  then show ?thesis
    using verify_pin_answers [OF assms, of "cr_current_pin req"]
    by (cases "h_state h") (auto simp: hsm_change_pin_def Let_def split: option.splits sum.splits)
qed

lemma authorize_reset_answers: "hsm_inv P h \<Longrightarrow> authorize_reset P pin msg h \<noteq> None"
  using verify_pin_answers [of P h "the pin"]
  by (cases "h_state h"; cases pin) (auto simp: authorize_reset_def split: option.splits sum.splits)

lemma hsm_factory_reset_answers: "hsm_inv P h \<Longrightarrow> hsm_factory_reset P req h \<noteq> None"
  by (auto simp: hsm_factory_reset_def simp del: not_None_eq dest: notE [OF authorize_reset_answers]
      split: option.splits sum.splits if_splits)

lemma hsm_reboot_bootloader_answers: "hsm_inv P h \<Longrightarrow> hsm_reboot_bootloader P req h \<noteq> None"
  using authorize_reset_answers [of P h "rr_pin req"
    "''rebooting into the bootloader requires a PIN or physical recovery held low during reset''"]
  by (auto simp: hsm_reboot_bootloader_def split: option.splits sum.splits)

lemmas handler_answers = hsm_set_time_answers hsm_status_answers hsm_unlock_answers hsm_change_pin_answers
  hsm_factory_reset_answers hsm_reboot_bootloader_answers

lemma handle_hsm_answers: "hsm_inv P h \<Longrightarrow> handle_hsm P q h \<noteq> None"
  using handle_hsm_cases [OF refl, of P q h "handle_hsm P q h \<noteq> None"] handler_answers
  by (smt (verit, best) option.distinct(1))

text \<open>The only panic of the dispatcher is the one of the key parser.\<close>

lemma process_line_panics:
  assumes "process_line P from_slice to_vec line h = None" and "hsm_inv P h"
  obtains q s where "from_slice line = Inr q" "rq_sign_ssh_key q = Some s"
    "parse_authorized_key (px P) (pw P) (ssh_key s) = None"
proof -
  obtain q where q: "from_slice line = Inr q" "handle_request P q h = None"
    using assms(1) by (auto simp: process_line_def handle_line_def Let_def split: if_splits sum.splits)
  then obtain s where s: "rq_sign_ssh_key q = Some s" "handle_sign P s h = None"
    using handle_hsm_answers [OF assms(2)]
    by (auto simp: handle_request_def Let_def simp del: not_None_eq split: if_splits option.splits)
  show thesis using that [OF q(1) s(1)] handle_sign_panics [OF s(2) assms(2)] .
qed

section \<open>Reachable sessions\<close>

text \<open>
  The events of a device: a request line, the transport events and firmware calls of
  \<^verbatim>\<open>hsm-fw/src/usb.rs\<close>, the passage of time, and a power cycle.
\<close>

inductive device_step :: "('e, 'm, 'f, 'r) platform \<Rightarrow> (bytes \<Rightarrow> string + request) \<Rightarrow> (response \<Rightarrow> bytes option)
    \<Rightarrow> ('e, 'm, 'f, 'r) hsm \<Rightarrow> ('e, 'm, 'f, 'r) hsm \<Rightarrow> bool" for P from_slice to_vec where
  serve: "process_line P from_slice to_vec line h = Some (out, h') \<Longrightarrow> device_step P from_slice to_vec h h'"
| transport_reset: "device_step P from_slice to_vec h (relock_on_transport_reset h)"
| reseed: "hsm_reseed P h = (res, h') \<Longrightarrow> device_step P from_slice to_vec h h'"
| mix: "device_step P from_slice to_vec h (mix_entropy P bs h)"
| reboot_taken: "take_reboot_requested h = (b, h') \<Longrightarrow> device_step P from_slice to_vec h h'"
| recovery: "device_step P from_slice to_vec h (set_physical_recovery_authorized b h)"
| heap: "device_step P from_slice to_vec h (set_heap_free n h)"
| security: "device_step P from_slice to_vec h (set_security_flags a s g h)"
| time_passes: "now_micros (pm P) (h_mono h) \<le> now_micros (pm P) m \<Longrightarrow> device_step P from_slice to_vec h (h\<lparr>h_mono := m\<rparr>)"
| power_cycle: "device_step P from_slice to_vec h (boot P e m (h_flash h))"

inductive device_run :: "('e, 'm, 'f, 'r) platform \<Rightarrow> (bytes \<Rightarrow> string + request) \<Rightarrow> (response \<Rightarrow> bytes option)
    \<Rightarrow> ('e, 'm, 'f, 'r) hsm \<Rightarrow> bool" for P from_slice to_vec where
  booted: "device_run P from_slice to_vec (boot P e m f)"
| stepped: "device_run P from_slice to_vec h \<Longrightarrow> device_step P from_slice to_vec h h' \<Longrightarrow> device_run P from_slice to_vec h'"

lemma device_step_inv:
  assumes "device_step P from_slice to_vec h h'" and "hsm_inv P h"
  shows "hsm_inv P h'"
  using assms
proof (induction rule: device_step.induct)
  case (time_passes h m)
  then show ?case by (auto simp: hsm_inv_def intro: clock_inv_mono)
qed (auto intro: process_line_inv relock_inv boot_inv dest: hsm_reseed_frame
  simp: hsm_inv_same mix_entropy_def take_reboot_requested_def set_physical_recovery_authorized_def set_heap_free_def
    set_security_flags_def)

lemma device_run_inv: "device_run P from_slice to_vec h \<Longrightarrow> hsm_inv P h"
  by (induction rule: device_run.induct) (auto intro: boot_inv device_step_inv)

end
