(* ===== verification/PinGate.thy ===== *)
theory PinGate
  imports Device
begin

text \<open>
  The PIN gate over a flash that keeps its contract: what a successful verification proves, what a
  failed one costs, and which sectors the other requests may change.
\<close>

section \<open>The stored key and the PIN that opens it\<close>

text \<open>The key blob the flash holds, and that a PIN opens it.\<close>

definition stored_blob :: "('e, 'm, 'f, 'r) platform \<Rightarrow> (region \<Rightarrow> bytes) \<Rightarrow> key_blob option" where
  "stored_blob P c = Option.bind (ab_latest (crc_of P) KEY c) key_blob_from_bytes"

definition opens :: "('e, 'm, 'f, 'r) platform \<Rightarrow> device_config \<Rightarrow> bytes \<Rightarrow> string \<Rightarrow> key_blob \<Rightarrow> bytes \<Rightarrow> bytes \<Rightarrow> bool" where
  "opens P cfg secret pin blob kek seed \<longleftrightarrow>
     pin_kek (px P) (as_bytes pin) (salt blob) (argon2 cfg) secret = Inr kek \<and> unwrap_seed (px P) kek blob = Inr seed"

locale hsm_flash = flash_store "pf P" content
  for P :: "('e, 'm, 'f, 'r) platform" and content

locale hsm_reliable = reliable_flash "pf P" content healthy
  for P :: "('e, 'm, 'f, 'r) platform" and content and healthy

sublocale hsm_reliable \<subseteq> hsm_flash
  by unfold_locales

context hsm_flash
begin

abbreviation flash_of where
  "flash_of h \<equiv> content (h_flash h)"

lemma stored_blob_read:
  assumes "read_latest (pf P) (crc_of P) KEY f = (Inr (Some b), f')" and "key_blob_from_bytes b = Some blob"
  shows "stored_blob P (content f) = Some blob"
  using read_latest_spec(3) [OF assms(1) refl, symmetric] assms(2) by (simp add: stored_blob_def)

lemma store_ok:
  assumes "store P ab payload h = (Inr u, h')"
  shows "content (h_flash h') = (flash_of h)
      (ab_target (crc_of P) ab (flash_of h) := record_sector (crc_of P) (ab_max_seq (crc_of P) ab (flash_of h) + 1) payload)"
    and "fs_device_secret (pf P) (h_flash h') = fs_device_secret (pf P) (h_flash h)"
  using assms by (auto simp: store_def dest: ab_write_ok split: prod.splits)

lemma reset_pin_counter_flash:
  shows "r \<noteq> PinCounter \<Longrightarrow> content (h_flash (reset_pin_counter_best_effort P h)) r = flash_of h r"
    and "fs_device_secret (pf P) (h_flash (reset_pin_counter_best_effort P h)) = fs_device_secret (pf P) (h_flash h)"
  using pin_reset_frame
  by (fastforce simp: reset_pin_counter_best_effort_def split: prod.splits sum.splits)+

text \<open>A PIN is accepted only if it opens the stored blob.\<close>

lemma check_pin_Inr:
  assumes "check_pin P cfg n pin h = (Inr (seed, kek, slt), h')"
  shows "\<exists>blob secret. stored_blob P (flash_of h) = Some blob \<and> slt = salt blob
    \<and> fs_device_secret (pf P) (h_flash h) = Inr secret \<and> opens P cfg secret pin blob kek seed"
proof -
  obtain res f1 where r: "read_latest (pf P) (crc_of P) KEY (h_flash h) = (res, f1)" by fastforce
  note sec = read_latest_spec(2) [OF r]
  show ?thesis
    using assms stored_blob_read [of "h_flash h"] sec
    by (auto simp: check_pin_def r opens_def Let_def split: sum.splits option.splits prod.splits)
qed

lemma stored_blob_cong:
  "(\<And>r. r \<in> {KeyA, KeyB} \<Longrightarrow> c r = c' r) \<Longrightarrow> stored_blob P c = stored_blob P c'"
  by (simp add: stored_blob_def KEY_def ab_defs)

lemma erase_key_loop_frame:
  assumes "erase_key_loop (pf P) (crc_of P) n f = (gone, f')"
  shows "r \<notin> {KeyA, KeyB} \<Longrightarrow> content f' r = content f r"
    and "fs_device_secret (pf P) f' = fs_device_secret (pf P) f"
    and "gone \<Longrightarrow> ab_latest (crc_of P) KEY (content f') = None"
proof -
  have "(r \<notin> {KeyA, KeyB} \<longrightarrow> content f' r = content f r) \<and> fs_device_secret (pf P) f' = fs_device_secret (pf P) f
    \<and> (gone \<longrightarrow> ab_latest (crc_of P) KEY (content f') = None)"
    using assms
  proof (induction n arbitrary: f)
    case (Suc n)
    obtain er f1 where 1: "erase_both (pf P) KEY f = (er, f1)" by fastforce
    obtain rr f2 where 2: "read_latest (pf P) (crc_of P) KEY f1 = (rr, f2)" by fastforce
    note frame = erase_both_frame [OF 1] read_latest_spec(1,2) [OF 2]
    show ?case
    proof (cases "rr = Inr None")
      case True
      then have "ab_latest (crc_of P) KEY (content f1) = None" using read_latest_spec(3) [OF 2] by metis
      with True Suc.prems 1 2 frame show ?thesis by (auto simp: KEY_def)
    next
      case False
      then have "erase_key_loop (pf P) (crc_of P) n f2 = (gone, f')"
        using Suc.prems 1 2 by (auto split: sum.splits option.splits)
      from Suc.IH [OF this] frame show ?thesis by (auto simp: KEY_def)
    qed
  qed simp
  then show "r \<notin> {KeyA, KeyB} \<Longrightarrow> content f' r = content f r" "fs_device_secret (pf P) f' = fs_device_secret (pf P) f"
    "gone \<Longrightarrow> ab_latest (crc_of P) KEY (content f') = None" by blast+
qed

lemma reject_pin_flash:
  assumes "reject_pin P cfg n h = (resp, h')"
  shows "r \<notin> {KeyA, KeyB} \<Longrightarrow> flash_of h' r = flash_of h r"
    and "fs_device_secret (pf P) (h_flash h') = fs_device_secret (pf P) (h_flash h)"
  using assms erase_key_loop_frame(1,2) [of 2 "h_flash h"]
  by (auto simp: reject_pin_def erase_key_verified_def enter_locked_out_def drop_live_secrets_def Let_def
      split: if_splits prod.splits)

end

text \<open>The answers that tell a guesser that the PIN was wrong.\<close>

definition rejected_pin :: "hsm_response \<Rightarrow> bool" where
  "rejected_pin resp = (case hr_error resp of None \<Rightarrow> False
     | Some e \<Rightarrow> he_backoff_ms e \<noteq> None \<and> he_code e \<noteq> ''ERR_BUSY'')"

lemma rejected_pin_simps [simp]:
  "\<not> rejected_pin (hsm_err c m)" "rejected_pin (pin_error c m n b) \<longleftrightarrow> c \<noteq> ''ERR_BUSY''" "\<not> rejected_pin unlock_ok"
  by (simp_all add: rejected_pin_def unlock_ok_def hsm_with_def)

lemma check_pin_rejected:
  assumes "check_pin P cfg n pin h = (Inl resp, h')" and "rejected_pin resp"
  obtains b f blob where "read_latest (pf P) (crc_of P) KEY (h_flash h) = (Inr (Some b), f)"
    "key_blob_from_bytes b = Some blob" "reject_pin P cfg n (h\<lparr>h_flash := f\<rparr>) = (resp, h')"
  using assms by (auto simp: check_pin_def Let_def split: prod.splits sum.splits option.splits)

lemma verify_pin_rejected:
  assumes "verify_pin P pin h = Some (Inl resp, h')" and "rejected_pin resp"
  obtains cfg k f1 n f2 where "h_config h = Some cfg" "pin_count (pf P) (h_flash h) = (Inr k, f1)"
    "pin_tick (pf P) f1 = (Inr n, f2)" "check_pin P cfg n pin (h\<lparr>h_flash := f2\<rparr>) = (Inl resp, h')"
  using assms by (auto simp: verify_pin_def Let_def split: prod.splits sum.splits option.splits if_splits)

context hsm_flash
begin

lemma stored_blob_tick:
  assumes "pin_count (pf P) f = (res, f1)" and "pin_tick (pf P) f1 = (res', f2)"
  shows "stored_blob P (content f2) = stored_blob P (content f)"
  by (rule stored_blob_cong) (use pin_tick_frame(1) [OF assms(2)] pin_count_spec(1) [OF assms(1)] in auto)

text \<open>Checking a PIN without accepting it leaves the counter as it was charged.\<close>

lemma check_pin_Inl_counter:
  assumes "check_pin P cfg n pin h = (Inl resp, h')"
  shows "flash_of h' PinCounter = flash_of h PinCounter"
proof -
  obtain res f where r: "read_latest (pf P) (crc_of P) KEY (h_flash h) = (res, f)" by fastforce
  have "flash_of h' PinCounter = content f PinCounter"
    using assms reject_pin_flash(1) [of cfg n "h\<lparr>h_flash := f\<rparr>" _ _ PinCounter]
    by (auto simp: check_pin_def r Let_def split: sum.splits option.splits prod.splits)
  then show ?thesis using read_latest_spec(1) [OF r] by simp
qed

text \<open>A rejected PIN was charged to the counter before it was looked at.\<close>

lemma verify_pin_charged:
  assumes "verify_pin P pin h = Some (Inl resp, h')" and "rejected_pin resp"
  obtains cfg n where "h_config h = Some cfg" "n = (if used (h_flash h) < SECTOR_LEN then Suc (used (h_flash h)) else SECTOR_LEN)"
    "n \<le> used (h_flash h')" "stored_blob P (flash_of h) \<noteq> None"
    "if n < unat (max_retries cfg) then same_session h h' else locked_session h h'"
    "\<And>r. r \<notin> {KeyA, KeyB, PinCounter} \<Longrightarrow> flash_of h' r = flash_of h r"
proof -
  obtain cfg k f1 n f2 where v: "h_config h = Some cfg" "pin_count (pf P) (h_flash h) = (Inr k, f1)"
    "pin_tick (pf P) f1 = (Inr n, f2)" "check_pin P cfg n pin (h\<lparr>h_flash := f2\<rparr>) = (Inl resp, h')"
    using verify_pin_rejected [OF assms] .
  obtain b f3 blob where c: "read_latest (pf P) (crc_of P) KEY f2 = (Inr (Some b), f3)" "key_blob_from_bytes b = Some blob"
    "reject_pin P cfg n (h\<lparr>h_flash := f3\<rparr>) = (resp, h')"
    using check_pin_rejected [OF v(4) assms(2)] by auto
  note f1 = pin_count_spec(1) [OF v(2)] and f3 = read_latest_spec(1) [OF c(1)]
  note t = pin_tick_ok [OF v(3)] and tf = pin_tick_frame(1) [OF v(3)] and rf = reject_pin_flash(1) [OF c(3)]
  have le: "used f1 \<le> SECTOR_LEN" using count_used_le [of "content f1 PinCounter"] by (simp add: content_length)
  have n: "n = (if used (h_flash h) < SECTOR_LEN then Suc (used (h_flash h)) else SECTOR_LEN)"
    using t(1,2) f1 le by auto
  have "n \<le> used (h_flash h')" using t(3) f3 rf [of PinCounter] by simp
  moreover have "stored_blob P (flash_of h) = Some blob"
    using stored_blob_read [OF c(1,2)] stored_blob_tick [OF v(2,3)] by simp
  moreover have "flash_of h' r = flash_of h r" if "r \<notin> {KeyA, KeyB, PinCounter}" for r
    using that rf [of r] tf [of r] f1 f3 by auto
  moreover have "if n < unat (max_retries cfg) then same_session h h' else locked_session h h'"
  proof -
    have "n \<le> SECTOR_LEN" using n by auto
    then have "n < 2 ^ 32" by (simp add: SECTOR_LEN_def)
    then have "unat (of_nat n :: u32) = n" by (rule unat_of_nat_u32)
    moreover have "unat (ucast (max_retries cfg) :: u32) = unat (max_retries cfg)" by (rule unat_ucast_u8_u32)
    ultimately have "(of_nat n :: u32) \<ge> ucast (max_retries cfg) \<longleftrightarrow> \<not> n < unat (max_retries cfg)"
      by (simp add: word_le_nat_alt not_less)
    moreover have "same_session h (h\<lparr>h_flash := f3\<rparr>)" by simp
    ultimately show ?thesis
      using reject_pin_frame [OF c(3)] same_session_trans locked_session_same by (metis (no_types, lifting))
  qed
  ultimately show thesis using v(1) n that by simp
qed

lemma verify_pin_Inr:
  assumes "verify_pin P pin h = Some (Inr (seed, kek, slt), h')"
  obtains cfg blob secret where "h_config h = Some cfg" "stored_blob P (flash_of h) = Some blob" "slt = salt blob"
    "fs_device_secret (pf P) (h_flash h) = Inr secret" "opens P cfg secret pin blob kek seed"
proof -
  obtain cfg k f1 n f2 where v: "h_config h = Some cfg" "pin_count (pf P) (h_flash h) = (Inr k, f1)"
    "pin_tick (pf P) f1 = (Inr n, f2)" "check_pin P cfg n pin (h\<lparr>h_flash := f2\<rparr>) = (Inr (seed, kek, slt), h')"
    using assms by (auto simp: verify_pin_def Let_def split: prod.splits sum.splits option.splits if_splits)
  have "stored_blob P (content f2) = stored_blob P (flash_of h)" by (rule stored_blob_tick [OF v(2,3)])
  moreover have "fs_device_secret (pf P) f2 = fs_device_secret (pf P) (h_flash h)"
    using pin_tick_frame(2) [OF v(3)] pin_count_spec(2) [OF v(2)] by simp
  ultimately show thesis using check_pin_Inr [OF v(4)] v(1) that by auto
qed

end

text \<open>An unlock request unlocks only through an accepted PIN.\<close>

lemma hsm_unlock_verified:
  assumes "hsm_unlock P req h = Some (resp, h')" and "h_state h \<noteq> ProdReady" and "h_state h' = ProdReady"
  obtains seed kek slt h1 where "h_state h = ProdLocked" "verify_pin P (ur_pin req) h = Some (Inr (seed, kek, slt), h1)"
    "h' = h1\<lparr>h_ca := Some (ca_from_seed seed), h_wrap_kek := Some kek, h_wrap_salt := Some slt, h_state := ProdReady\<rparr>"
proof -
  have s: "h_state h = ProdLocked" using assms by (cases "h_state h") (auto simp: hsm_unlock_def)
  obtain v h1 where v: "verify_pin P (ur_pin req) h = Some (v, h1)"
    using assms(1) s by (auto simp: hsm_unlock_def split: option.splits)
  have "h_state h1 \<noteq> ProdReady" if "v = Inl r" for r
    using v that s verify_pin_frame [of P "ur_pin req" h "Inl r" h1] locked_session_fields(1)
    by (fastforce simp: same_session_def)
  then obtain x where "v = Inr x" using assms(1,3) s v by (cases v) (auto simp: hsm_unlock_def)
  with v s show thesis using assms(1) that by (cases x) (auto simp: hsm_unlock_def)
qed

section \<open>Booting a production device\<close>

definition stored_config :: "('e, 'm, 'f, 'r) platform \<Rightarrow> (region \<Rightarrow> bytes) \<Rightarrow> device_config option" where
  "stored_config P c = Option.bind (ab_latest (crc_of P) CONFIG c) device_config_from_bytes"

text \<open>The persisted time floor, and whether it is unavailable.\<close>

definition stored_floor :: "('e, 'm, 'f, 'r) platform \<Rightarrow> (region \<Rightarrow> bytes) \<Rightarrow> i64 option \<times> bool" where
  "stored_floor P c = (case ab_latest (crc_of P) TIME_FLOOR c of
      Some b \<Rightarrow> (case time_floor_from_bytes b of Some t \<Rightarrow> (Some t, False) | None \<Rightarrow> (None, True))
    | None \<Rightarrow> (None, \<not> (c TimeA = erased_sector \<and> c TimeB = erased_sector)))"

context hsm_reliable
begin

lemma load_from_flash_reliable:
  assumes "healthy (h_flash h)"
  obtains f where "healthy f" "content f = flash_of h" "fs_device_secret (pf P) f = fs_device_secret (pf P) (h_flash h)"
    "load_from_flash P h =
       (let kb = stored_blob P (flash_of h);
            h1 = h\<lparr>h_flash := f, h_trusted_time_floor := fst (stored_floor P (flash_of h)),
                   h_trusted_time_floor_unavailable := snd (stored_floor P (flash_of h)),
                   h_ca_pubkey := map_option pubkey kb, h_wrap_salt := None\<rparr>
        in case stored_config P (flash_of h) of
             None \<Rightarrow> h1\<lparr>h_config := None, h_state := Uninitialized, h_ca := None, h_wrap_kek := None,
                       h_pin_backoff_until_ms := 0\<rparr>
           | Some c \<Rightarrow> (case mode c of Dev \<Rightarrow> load_dev P kb (h1\<lparr>h_config := Some c\<rparr>)
                      | Prod \<Rightarrow> load_prod P kb c (h1\<lparr>h_config := Some c\<rparr>)))"
proof -
  obtain f1 where 1: "read_latest (pf P) (crc_of P) CONFIG (h_flash h) = (Inr (ab_latest (crc_of P) CONFIG (flash_of h)), f1)"
    "healthy f1" using read_latest_healthy [OF assms] by blast
  obtain f2 where 2: "read_latest (pf P) (crc_of P) KEY f1 = (Inr (ab_latest (crc_of P) KEY (content f1)), f2)"
    "healthy f2" using read_latest_healthy [OF 1(2)] by blast
  note s1 = read_latest_spec(1,2) [OF 1(1)] and s2 = read_latest_spec(1,2) [OF 2(1)]
  obtain tr f3 where tr: "tr = (case ab_latest (crc_of P) TIME_FLOOR (flash_of h) of Some p \<Rightarrow> Inr (Some p)
      | None \<Rightarrow> if flash_of h TimeA = erased_sector \<and> flash_of h TimeB = erased_sector then Inr None else Inl Flash)"
    and 3: "read_latest_fail_closed (pf P) (crc_of P) TIME_FLOOR f2 = (tr, f3)" "healthy f3"
    using read_latest_fail_closed_healthy [OF 2(2), of "crc_of P" TIME_FLOOR] s1 s2
    by (auto simp: TIME_FLOOR_def cong: option.case_cong)
  note s3 = read_latest_fail_closed_spec(1,2) [OF 3(1)]
  obtain fl un where fu: "stored_floor P (flash_of h) = (fl, un)" by fastforce
  have t: "(case tr of Inl _ \<Rightarrow> (None, True) | Inr None \<Rightarrow> (None, False)
      | Inr (Some bytes) \<Rightarrow> (case time_floor_from_bytes bytes of Some t \<Rightarrow> (Some t, False) | None \<Rightarrow> (None, True)))
    = (fl, un)"
    using fu by (auto simp: tr stored_floor_def split: option.splits)
  have b: "(case Inr x of Inr (Some b) \<Rightarrow> g b | _ \<Rightarrow> None) = Option.bind x g" for x :: "'x option" and g :: "'x \<Rightarrow> 'y option"
    by (cases x) simp_all
  show thesis
    by (rule that [of f3])
      (simp_all add: load_from_flash_def 1(1) 2(1) 3 s1 s2 s3 t fu stored_blob_def stored_config_def b Let_def
        cong: option.case_cong mode.case_cong split: option.split)
qed

lemma load_prod_reliable:
  assumes "healthy (h_flash h)"
  shows "healthy (h_flash (load_prod P kb c h))" and "flash_of (load_prod P kb c h) = flash_of h"
    and "fs_device_secret (pf P) (h_flash (load_prod P kb c h)) = fs_device_secret (pf P) (h_flash h)"
    and "h_state (load_prod P kb c h) =
       (if kb \<noteq> None \<and> unat (max_retries c) \<le> used (h_flash h) then LockedOut else ProdLocked)"
    and "used (h_flash h) = 0 \<Longrightarrow> h_pin_backoff_until_ms (load_prod P kb c h) = 0"
proof -
  obtain f1 where p: "pin_count (pf P) (h_flash h) = (Inr (used (h_flash h)), f1)" "healthy f1" "content f1 = flash_of h"
    using pin_count_healthy [OF assms] by blast
  note s = pin_count_spec(2) [OF p(1)]
  note lp = load_prod_def drop_live_secrets_def enter_locked_out_def p s Let_def
  show "healthy (h_flash (load_prod P kb c h))" "flash_of (load_prod P kb c h) = flash_of h"
    "fs_device_secret (pf P) (h_flash (load_prod P kb c h)) = fs_device_secret (pf P) (h_flash h)"
    "h_state (load_prod P kb c h) =
       (if kb \<noteq> None \<and> unat (max_retries c) \<le> used (h_flash h) then LockedOut else ProdLocked)"
    "used (h_flash h) = 0 \<Longrightarrow> h_pin_backoff_until_ms (load_prod P kb c h) = 0"
    by (simp_all add: lp)
qed

lemma boot_prod_reliable:
  assumes "healthy f" and "stored_config P (content f) = Some c" and "mode c = Prod"
  shows "healthy (h_flash (boot P e m f))" "flash_of (boot P e m f) = content f"
    "fs_device_secret (pf P) (h_flash (boot P e m f)) = fs_device_secret (pf P) f" "h_config (boot P e m f) = Some c"
    "h_state (boot P e m f) =
       (if stored_blob P (content f) \<noteq> None \<and> unat (max_retries c) \<le> used f then LockedOut else ProdLocked)"
    "h_ca_pubkey (boot P e m f) = map_option pubkey (stored_blob P (content f))"
    "used f = 0 \<Longrightarrow> h_pin_backoff_until_ms (boot P e m f) = 0"
proof -
  obtain x dr e1 where s: "drbg_seed (px P) (pe P) (drbg_new (px P)) e = (x, dr, e1)" by (metis prod.exhaust)
  obtain h where bt: "boot P e m f = load_from_flash P h" and hf: "h_flash h = f" by (auto simp: boot_def s Let_def)
  from assms(1) hf have "healthy (h_flash h)" by simp
  then obtain g fl un where g: "healthy g" "content g = content f" "fs_device_secret (pf P) g = fs_device_secret (pf P) f"
    "boot P e m f = load_prod P (stored_blob P (content f)) c (h\<lparr>h_flash := g, h_trusted_time_floor := fl,
       h_trusted_time_floor_unavailable := un, h_ca_pubkey := map_option pubkey (stored_blob P (content f)),
       h_wrap_salt := None, h_config := Some c\<rparr>)"
    by (rule load_from_flash_reliable) (auto simp: bt hf assms Let_def)
  have pk: "h_ca_pubkey (load_prod P kb c h') = h_ca_pubkey h'" for kb h'
    by (simp add: load_prod_def drop_live_secrets_def enter_locked_out_def Let_def split: prod.splits)
  let ?h = "h\<lparr>h_flash := g, h_trusted_time_floor := fl, h_trusted_time_floor_unavailable := un,
    h_ca_pubkey := map_option pubkey (stored_blob P (content f)), h_wrap_salt := None, h_config := Some c\<rparr>"
  have "healthy (h_flash ?h)" using g(1) by simp
  note lp = load_prod_reliable [OF this, of "stored_blob P (content f)" c]
  show "healthy (h_flash (boot P e m f))" "flash_of (boot P e m f) = content f"
    "fs_device_secret (pf P) (h_flash (boot P e m f)) = fs_device_secret (pf P) f" "h_config (boot P e m f) = Some c"
    "h_state (boot P e m f) =
       (if stored_blob P (content f) \<noteq> None \<and> unat (max_retries c) \<le> used f then LockedOut else ProdLocked)"
    "h_ca_pubkey (boot P e m f) = map_option pubkey (stored_blob P (content f))"
    "used f = 0 \<Longrightarrow> h_pin_backoff_until_ms (boot P e m f) = 0"
    using lp g(2,3) by (simp_all add: g(4) load_prod_fields(1) pk)
qed

end

section \<open>Rejections on a working flash\<close>

context hsm_reliable
begin

lemma healthy_ops:
  assumes "healthy f"
  shows "pin_count (pf P) f = (a, f1) \<Longrightarrow> healthy f1" "pin_tick (pf P) f = (a, f1) \<Longrightarrow> healthy f1"
    "pin_reset (pf P) f = (b, f1) \<Longrightarrow> healthy f1" "read_latest (pf P) crc ab f = (d, f1) \<Longrightarrow> healthy f1"
    "erase_both (pf P) ab f = (b, f1) \<Longrightarrow> healthy f1"
  using pin_count_healthy [OF assms] pin_tick_healthy [OF assms] pin_reset_healthy [OF assms]
    read_latest_healthy [OF assms] erase_both_healthy [OF assms] by (metis prod.inject)+

lemma erase_key_loop_healthy: "healthy f \<Longrightarrow> erase_key_loop (pf P) crc n f = (gone, f') \<Longrightarrow> healthy f'"
proof (induction n arbitrary: f)
  case (Suc n)
  obtain er f1 where 1: "erase_both (pf P) KEY f = (er, f1)" by fastforce
  obtain rr f2 where 2: "read_latest (pf P) crc KEY f1 = (rr, f2)" by fastforce
  have "healthy f2" using healthy_ops Suc.prems(1) 1 2 by blast
  with Suc 1 2 show ?case by (auto split: sum.splits option.splits)
qed simp

lemma reject_pin_healthy: "healthy (h_flash h) \<Longrightarrow> reject_pin P cfg n h = (resp, h') \<Longrightarrow> healthy (h_flash h')"
  by (auto simp: reject_pin_def erase_key_verified_def enter_locked_out_def drop_live_secrets_def Let_def
      dest: erase_key_loop_healthy split: if_splits prod.splits)

lemma verify_pin_rejected_healthy:
  assumes "verify_pin P pin h = Some (Inl resp, h')" and "rejected_pin resp" and "healthy (h_flash h)"
  shows "healthy (h_flash h')"
proof -
  obtain cfg k f1 n f2 where v: "pin_count (pf P) (h_flash h) = (Inr k, f1)" "pin_tick (pf P) f1 = (Inr n, f2)"
    "check_pin P cfg n pin (h\<lparr>h_flash := f2\<rparr>) = (Inl resp, h')"
    using verify_pin_rejected [OF assms(1,2)] by metis
  obtain b f3 blob where c: "read_latest (pf P) (crc_of P) KEY f2 = (Inr (Some b), f3)"
    "reject_pin P cfg n (h\<lparr>h_flash := f3\<rparr>) = (resp, h')"
    by (rule check_pin_rejected [OF v(3) assms(2)]) auto
  have "healthy f3" using assms(3) v(1,2) c(1) healthy_ops by blast
  then show ?thesis using reject_pin_healthy [OF _ c(2)] by simp
qed

text \<open>An answer that is neither an acceptance nor a rejection changes nothing but the counter.\<close>

lemma verify_pin_other:
  assumes "verify_pin P pin h = Some (Inl resp, h')" and "\<not> rejected_pin resp" and "healthy (h_flash h)"
  shows "same_session h h'" and "healthy (h_flash h')" and "used (h_flash h) \<le> used (h_flash h')"
    and "r \<noteq> PinCounter \<Longrightarrow> flash_of h' r = flash_of h r"
proof -
  obtain k f1 where 1: "pin_count (pf P) (h_flash h) = (Inr k, f1)" "healthy f1" "content f1 = flash_of h"
    using pin_count_healthy [OF assms(3)] by blast
  obtain n f2 where 2: "pin_tick (pf P) f1 = (Inr n, f2)" "healthy f2" using pin_tick_healthy [OF 1(2)] by blast
  obtain rr f3 where 3: "read_latest (pf P) (crc_of P) KEY f2 = (rr, f3)" by fastforce
  have 4: "rejected_pin r" if "reject_pin P cfg n h1 = (r, h2)" for cfg h1 r h2
    using that by (auto simp: reject_pin_def Let_def split: if_splits prod.splits)
  have h': "h' = h\<lparr>h_flash := f1\<rparr> \<or> h' = h\<lparr>h_flash := f3\<rparr>"
    using assms(1,2) 4
    by (auto simp: verify_pin_def check_pin_def 1 2 3 Let_def split: prod.splits sum.splits option.splits if_splits)
  have f3: "healthy f3" "content f3 = content f2" using healthy_ops(4) [OF 2(2) 3] read_latest_spec(1) [OF 3] by blast+
  have "used f1 \<le> used f2"
    using pin_tick_ok(1-3) [OF 2(1)] by (cases "used f1 < SECTOR_LEN") auto
  with h' f3 1 2 pin_tick_frame(1) [OF 2(1)]
  show "same_session h h'" "healthy (h_flash h')" "used (h_flash h) \<le> used (h_flash h')"
    "r \<noteq> PinCounter \<Longrightarrow> flash_of h' r = flash_of h r" by auto
qed

lemma stored_config_cong:
  "(\<And>r. r \<in> {ConfigA, ConfigB} \<Longrightarrow> c r = c' r) \<Longrightarrow> stored_config P c = stored_config P c'"
  by (simp add: stored_config_def CONFIG_def ab_defs)

lemma rejected_is_err: "rejected_pin resp \<Longrightarrow> is_err resp"
  by (auto simp: rejected_pin_def is_err_def split: option.splits)

end

section \<open>What a request leaves in flash\<close>

context hsm_flash
begin

lemma hsm_status_flash: "hsm_status P h = Some (resp, h') \<Longrightarrow> flash_of h' = flash_of h"
  by (auto simp: hsm_status_def Let_def dest: pin_count_spec(1) split: option.splits prod.splits if_splits Option.bind_splits)

lemma hsm_self_test_flash: "hsm_self_test P h = (resp, h') \<Longrightarrow> flash_of h' = flash_of h"
  by (auto simp: hsm_self_test_def Let_def dest: read_latest_spec(1) split: prod.splits)

lemma hsm_add_entropy_flash: "hsm_add_entropy P req h = (resp, h') \<Longrightarrow> h_flash h' = h_flash h"
  by (auto simp: hsm_add_entropy_def split: option.splits if_splits)

lemma store_frame_flash:
  assumes "store P ab payload h = (res, h')" and "r \<noteq> ab_a ab" and "r \<noteq> ab_b ab"
  shows "flash_of h' r = flash_of h r"
proof -
  obtain f where w: "ab_write (pf P) (crc_of P) ab (h_flash h) payload = (res, f)" and "h' = h\<lparr>h_flash := f\<rparr>"
    using assms(1) by (auto simp: store_def split: prod.splits)
  then show ?thesis using ab_write_frame(1) [OF w, of r] assms(2,3) ab_target_cases [of "crc_of P" ab "flash_of h"] by auto
qed

lemma hsm_set_time_flash:
  assumes "hsm_set_time P req h = Some (resp, h')" and "r \<notin> {TimeA, TimeB}"
  shows "flash_of h' r = flash_of h r"
proof -
  have s: "flash_of h1 r = flash_of h r" if "store P TIME_FLOOR p h = (res, h1)" for p res h1
    using store_frame_flash [OF that] assms(2) by (simp add: TIME_FLOOR_def)
  show ?thesis
    using assms(1)
    by (auto simp: hsm_set_time_def Let_def dest!: s
        split: if_splits sum.splits rejected.splits option.splits prod.splits Option.bind_splits)
qed

end

section \<open>Verification on a working flash\<close>

context hsm_reliable
begin

lemma verify_pin_forward:
  assumes "healthy (h_flash h)" and "h_config h = Some cfg"
    and "used (h_flash h) = 0 \<or> h_pin_backoff_until_ms h \<le> now_ms P h"
    and "stored_blob P (flash_of h) = Some blob" and "fs_device_secret (pf P) (h_flash h) = Inr secret"
    and "pin_kek (px P) (as_bytes pin) (salt blob) (argon2 cfg) secret = Inr kek"
  obtains n f where "healthy f" "\<And>r. r \<noteq> PinCounter \<Longrightarrow> content f r = flash_of h r"
    "fs_device_secret (pf P) f = Inr secret"
    "n = (if used (h_flash h) < SECTOR_LEN then Suc (used (h_flash h)) else SECTOR_LEN)"
    "verify_pin P pin h = Some (case unwrap_seed (px P) kek blob of
        Inr seed \<Rightarrow> (Inr (seed, kek, salt blob), reset_pin_counter_best_effort P (h\<lparr>h_flash := f\<rparr>))
      | Inl _ \<Rightarrow> (let (resp, h2) = reject_pin P cfg n (h\<lparr>h_flash := f\<rparr>) in (Inl resp, h2)))"
proof -
  obtain f1 where 1: "pin_count (pf P) (h_flash h) = (Inr (used (h_flash h)), f1)" "healthy f1" "content f1 = flash_of h"
    using pin_count_healthy [OF assms(1)] by blast
  obtain n f2 where 2: "pin_tick (pf P) f1 = (Inr n, f2)" "healthy f2" using pin_tick_healthy [OF 1(2)] by blast
  obtain f3 where 3: "read_latest (pf P) (crc_of P) KEY f2 = (Inr (ab_latest (crc_of P) KEY (content f2)), f3)" "healthy f3"
    using read_latest_healthy [OF 2(2)] by blast
  note f3 = read_latest_spec(1,2) [OF 3(1)]
  have "stored_blob P (content f2) = Some blob" using stored_blob_tick [OF 1(1) 2(1)] assms(4) by simp
  then obtain b where b: "ab_latest (crc_of P) KEY (content f2) = Some b" "key_blob_from_bytes b = Some blob"
    by (auto simp: stored_blob_def bind_eq_Some_conv)
  have sec: "fs_device_secret (pf P) f3 = Inr secret"
    using f3(2) pin_tick_frame(2) [OF 2(1)] pin_count_spec(2) [OF 1(1)] assms(5) by simp
  have le: "used f1 \<le> SECTOR_LEN" using count_used_le [of "content f1 PinCounter"] by (simp add: content_length)
  have n: "n = (if used (h_flash h) < SECTOR_LEN then Suc (used (h_flash h)) else SECTOR_LEN)"
    using pin_tick_ok(1,2) [OF 2(1)] 1(3) le by auto
  have nb: "\<not> (0 < used (h_flash h) \<and> now_ms P (h\<lparr>h_flash := f1\<rparr>) < h_pin_backoff_until_ms h)"
    using assms(3) by (auto simp: now_ms_def)
  have fr: "content f3 r = flash_of h r" if "r \<noteq> PinCounter" for r
    using that f3(1) pin_tick_frame(1) [OF 2(1) that] 1(3) by simp
  have "verify_pin P pin h = Some (case unwrap_seed (px P) kek blob of
        Inr seed \<Rightarrow> (Inr (seed, kek, salt blob), reset_pin_counter_best_effort P (h\<lparr>h_flash := f3\<rparr>))
      | Inl _ \<Rightarrow> (let (resp, h2) = reject_pin P cfg n (h\<lparr>h_flash := f3\<rparr>) in (Inl resp, h2)))"
    using nb by (auto simp: verify_pin_def check_pin_def assms(2,6) 1 2 3 b sec Let_def)
  then show thesis using that 3(2) fr sec n by blast
qed

lemma reset_pin_counter_healthy:
  assumes "healthy (h_flash h)"
  obtains f where "reset_pin_counter_best_effort P h = h\<lparr>h_flash := f, h_pin_backoff_until_ms := 0\<rparr>" "healthy f"
    "content f = (flash_of h)(PinCounter := erased_sector)" "fs_device_secret (pf P) f = fs_device_secret (pf P) (h_flash h)"
  using pin_reset_healthy [OF assms] pin_reset_frame(2) by (fastforce simp: reset_pin_counter_best_effort_def)

end

end
