(* ===== verification/Provisioning.thy ===== *)
theory Provisioning
  imports PinGate
begin

text \<open>
  The life of the CA key over a working flash: initialisation, unlocking, PIN change, key generation
  in development mode and factory reset, each with what a later boot or unlock finds.
\<close>

lemma length_random:
  "lengths_ok X \<Longrightarrow> length (fst (random_array X n d)) = n"
  by (simp add: random_array_def drbg_fill_bytes_def lengths_ok_def Let_def split: prod.splits) (metis fst_conv)

lemma hsm_random_length: "lengths_ok (px P) \<Longrightarrow> hsm_random P n h = (bs, h') \<Longrightarrow> length bs = n"
  using length_random [of "px P" n "h_drbg h"] by (auto simp: hsm_random_def split: prod.splits)

lemma hsm_generate_ok:
  assumes "hsm_generate P h = ((seed, ca), h')" and "lengths_ok (px P)"
  shows "ca = ca_from_seed seed" and "length seed = 32" and "length (public_bytes (px P) ca) = 32"
  using assms length_random [of "px P" 32 "h_drbg h"]
  by (auto simp: hsm_generate_def ca_generate_def random_array_def public_bytes_def lengths_ok_def Let_def split: prod.splits)

context hsm_reliable
begin

text \<open>Storing a well-formed key blob or configuration makes it the stored one.\<close>

lemma store_key:
  assumes "healthy (h_flash h)" and "key_blob_ok blob" and "ab_max_seq (crc_of P) KEY (flash_of h) \<noteq> - 1"
  obtains h' where "store P KEY (key_blob_to_bytes blob) h = (Inr (), h')" "healthy (h_flash h')" "same_session h h'"
    "stored_blob P (flash_of h') = Some blob" "\<And>r. r \<notin> {KeyA, KeyB} \<Longrightarrow> flash_of h' r = flash_of h r"
    "fs_device_secret (pf P) (h_flash h') = fs_device_secret (pf P) (h_flash h)"
    "h_pin_backoff_until_ms h' = h_pin_backoff_until_ms h"
proof -
  obtain f where w: "ab_write (pf P) (crc_of P) KEY (h_flash h) (key_blob_to_bytes blob) = (Inr (), f)" "healthy f"
    using ab_write_healthy [OF assms(1) key_codec.enc_fits [OF assms(2)]] by blast
  then have st: "store P KEY (key_blob_to_bytes blob) h = (Inr (), h\<lparr>h_flash := f\<rparr>)" by (simp add: store_def)
  have "ab_latest (crc_of P) KEY (content f) = Some (key_blob_to_bytes blob)"
    using ab_write_latest(1) [OF w(1) _ assms(3)] by simp
  then have "stored_blob P (content f) = Some blob" using key_codec.dec_enc [OF assms(2)] by (simp add: stored_blob_def)
  moreover have "content f r = flash_of h r" if "r \<notin> {KeyA, KeyB}" for r
    using store_frame_flash [OF st, of r] that by (simp add: KEY_def)
  ultimately show thesis using that [OF st] w store_ok(2) [OF st] by simp
qed

lemma store_config:
  assumes "healthy (h_flash h)" and "device_config_ok c" and "ab_max_seq (crc_of P) CONFIG (flash_of h) \<noteq> - 1"
  obtains h' where "store P CONFIG (device_config_to_bytes c) h = (Inr (), h')" "healthy (h_flash h')" "same_session h h'"
    "stored_config P (flash_of h') = Some c" "\<And>r. r \<notin> {ConfigA, ConfigB} \<Longrightarrow> flash_of h' r = flash_of h r"
    "fs_device_secret (pf P) (h_flash h') = fs_device_secret (pf P) (h_flash h)"
    "h_pin_backoff_until_ms h' = h_pin_backoff_until_ms h"
proof -
  obtain f where w: "ab_write (pf P) (crc_of P) CONFIG (h_flash h) (device_config_to_bytes c) = (Inr (), f)" "healthy f"
    using ab_write_healthy [OF assms(1) config_codec.enc_fits [OF assms(2)]] by blast
  then have st: "store P CONFIG (device_config_to_bytes c) h = (Inr (), h\<lparr>h_flash := f\<rparr>)" by (simp add: store_def)
  have "ab_latest (crc_of P) CONFIG (content f) = Some (device_config_to_bytes c)"
    using ab_write_latest(1) [OF w(1) _ assms(3)] by simp
  then have "stored_config P (content f) = Some c" using config_codec.dec_enc [OF assms(2)] by (simp add: stored_config_def)
  moreover have "content f r = flash_of h r" if "r \<notin> {ConfigA, ConfigB}" for r
    using store_frame_flash [OF st, of r] that by (simp add: CONFIG_def)
  ultimately show thesis using that [OF st] w store_ok(2) [OF st] by simp
qed

end

text \<open>A device whose key a given PIN opens: what initialisation and PIN change establish.\<close>

definition keyed :: "('e, 'm, 'f, 'r) platform \<Rightarrow> ('f \<Rightarrow> region \<Rightarrow> bytes) \<Rightarrow> ('f \<Rightarrow> bool) \<Rightarrow> ('e, 'm, 'f, 'r) hsm
    \<Rightarrow> string \<Rightarrow> bytes \<Rightarrow> bool" where
  "keyed P content healthy h pin seed \<longleftrightarrow> healthy (h_flash h) \<and> count_used (content (h_flash h) PinCounter) = 0
     \<and> length seed = 32 \<and> h_ca_pubkey h = Some (public_bytes (px P) (ca_from_seed seed))
     \<and> (\<exists>cfg secret blob kek. h_config h = Some cfg \<and> mode cfg = Prod \<and> max_retries cfg \<noteq> 0
          \<and> stored_config P (content (h_flash h)) = Some cfg \<and> stored_blob P (content (h_flash h)) = Some blob
          \<and> fs_device_secret (pf P) (h_flash h) = Inr secret \<and> opens P cfg secret pin blob kek seed
          \<and> pubkey blob = public_bytes (px P) (ca_from_seed seed))"

lemma opens_wrapped:
  assumes "aead_correct (px P)" and "pin_kek (px P) (as_bytes pin) slt (argon2 cfg) secret = Inr kek"
  shows "opens P cfg secret pin (wrap_seed (px P) kek seed pk t slt nonce) kek seed"
  using assms unwrap_wrap by (simp add: opens_def)

text \<open>Sessions that differ at most in the entropy source and the generator.\<close>

definition flash_same :: "('e, 'm, 'f, 'r) hsm \<Rightarrow> ('e, 'm, 'f, 'r) hsm \<Rightarrow> bool" where
  "flash_same h h' \<longleftrightarrow> same_session h h' \<and> h_flash h' = h_flash h"

lemma flash_same_trans: "flash_same h h1 \<Longrightarrow> flash_same h1 h2 \<Longrightarrow> flash_same h h2"
  by (auto simp: flash_same_def intro: same_session_trans)

lemma flash_same_ops:
  "prepare_keygen_entropy P h = (res, h') \<Longrightarrow> flash_same h h'" "hsm_random P n h = (bs, h') \<Longrightarrow> flash_same h h'"
  "hsm_generate P h = (sc, h') \<Longrightarrow> flash_same h h'"
  by (auto simp: flash_same_def dest: frames flash_frames)

context hsm_reliable
begin

lemma rewrap_seed_ok:
  assumes "rewrap_seed P cfg pin ready seed h = (resp, h')" and "\<not> is_err resp"
    and "healthy (h_flash h)" and "lengths_ok (px P)" and "aead_correct (px P)"
    and "length seed = 32" and "h_ca_pubkey h = Some pk" and "length pk = 32"
    and "ab_max_seq (crc_of P) KEY (flash_of h) \<noteq> - 1"
  obtains blob kek secret where "stored_blob P (flash_of h') = Some blob" "pubkey blob = pk"
    "fs_device_secret (pf P) (h_flash h') = Inr secret" "opens P cfg secret pin blob kek seed" "healthy (h_flash h')"
    "\<And>r. r \<notin> {KeyA, KeyB, PinCounter} \<Longrightarrow> flash_of h' r = flash_of h r" "flash_of h' PinCounter = erased_sector"
    "h_state h' = (if ready then ProdReady else ProdLocked)" "h_config h' = h_config h" "h_ca_pubkey h' = h_ca_pubkey h"
    "h_ca h' = (if ready then Some (ca_from_seed seed) else None)"
proof -
  obtain r1 h1 where 1: "prepare_keygen_entropy P h = (r1, h1)" by fastforce
  obtain slt h2 where 2: "hsm_random P 16 h1 = (slt, h2)" by fastforce
  obtain nonce h3 where 3: "hsm_random P 12 h2 = (nonce, h3)" by fastforce
  have "flash_same h h1" "flash_same h1 h2" "flash_same h2 h3" using 1 2 3 flash_same_ops by blast+
  then have s: "flash_same h h2" "flash_same h h3" by (blast intro: flash_same_trans)+
  have pk: "h_ca_pubkey h2 = Some pk" using s(1) assms(7) by (simp add: flash_same_def same_session_def)
  obtain secret kek where k: "fs_device_secret (pf P) (h_flash h2) = Inr secret"
    "pin_kek (px P) (as_bytes pin) slt (argon2 cfg) secret = Inr kek" "is_ok r1"
    using assms(1,2) by (auto simp: rewrap_seed_def 1 2 pk err_defs Let_def is_ok_iff split: sum.splits)
  let ?blob = "wrap_seed (px P) kek seed pk PinKek slt nonce"
  have kb: "key_blob_ok ?blob"
    using wrap_seed_ok assms(4,6,8) hsm_random_length [OF assms(4) 2] hsm_random_length [OF assms(4) 3] by blast
  have h3: "healthy (h_flash h3)" "ab_max_seq (crc_of P) KEY (flash_of h3) \<noteq> - 1"
    using s(2) assms(3,9) by (simp_all add: flash_same_def)
  obtain h4 where 4: "store P KEY (key_blob_to_bytes ?blob) h3 = (Inr (), h4)" "healthy (h_flash h4)"
    "same_session h3 h4" "stored_blob P (flash_of h4) = Some ?blob" "\<And>r. r \<notin> {KeyA, KeyB} \<Longrightarrow> flash_of h4 r = flash_of h3 r"
    "fs_device_secret (pf P) (h_flash h4) = fs_device_secret (pf P) (h_flash h3)"
    by (rule store_key [OF h3(1) kb h3(2)]) blast
  obtain f where 5: "reset_pin_counter_best_effort P h4 = h4\<lparr>h_flash := f, h_pin_backoff_until_ms := 0\<rparr>" "healthy f"
    "content f = (flash_of h4)(PinCounter := erased_sector)" "fs_device_secret (pf P) f = fs_device_secret (pf P) (h_flash h4)"
    using reset_pin_counter_healthy [OF 4(2)] .
  have h': "h' = (if ready then h4\<lparr>h_flash := f, h_pin_backoff_until_ms := 0, h_ca := Some (ca_from_seed seed), h_wrap_kek := Some kek,
        h_wrap_salt := Some slt, h_state := ProdReady\<rparr>
      else h4\<lparr>h_flash := f, h_pin_backoff_until_ms := 0, h_ca := None, h_wrap_kek := None, h_wrap_salt := None, h_state := ProdLocked\<rparr>)"
    using assms(1) k by (auto simp: rewrap_seed_def 1 2 3 pk 4(1) 5(1) is_ok_iff Let_def split: sum.splits)
  have "stored_blob P (content f) = stored_blob P (flash_of h4)" by (rule stored_blob_cong) (auto simp: 5(3))
  moreover have "fs_device_secret (pf P) f = Inr secret" using 4(6) 5(4) s k(1) by (simp add: flash_same_def)
  moreover have "content f r = flash_of h r" if "r \<notin> {KeyA, KeyB, PinCounter}" for r
    using that 4(5) [of r] 5(3) s(2) by (auto simp: flash_same_def)
  moreover have "same_session h h4" using s(2) 4(3) by (auto simp: flash_same_def intro: same_session_trans)
  ultimately show thesis
    using 4(4) 5(2,3) opens_wrapped [OF assms(5) k(2), of seed pk PinKek nonce]
    by (intro that [of ?blob secret kek]) (auto simp: h' same_session_def)
qed

lemma init_prod_commit_ok:
  assumes "init_prod_commit P blob retries wipe pk h = (resp, h')" and "\<not> is_err resp"
    and "healthy (h_flash h)" and "key_blob_ok blob" and "ab_max_seq (crc_of P) KEY (flash_of h) \<noteq> - 1"
    and "ab_max_seq (crc_of P) CONFIG (flash_of h) \<noteq> - 1"
  obtains cfg where "cfg = \<lparr> mode = Prod, argon2 = DEFAULT_ARGON, max_retries = retries, wipe_on_lockout = wipe,
      fw_version = fw_version_triple \<rparr>" "h_config h' = Some cfg" "stored_config P (flash_of h') = Some cfg"
    "stored_blob P (flash_of h') = Some blob" "healthy (h_flash h')" "flash_of h' PinCounter = erased_sector"
    "fs_device_secret (pf P) (h_flash h') = fs_device_secret (pf P) (h_flash h)" "h_state h' = ProdLocked"
    "h_ca_pubkey h' = Some pk"
proof -
  let ?cfg = "\<lparr> mode = Prod, argon2 = DEFAULT_ARGON, max_retries = retries, wipe_on_lockout = wipe,
      fw_version = fw_version_triple \<rparr>"
  have ok: "device_config_ok ?cfg" by (simp add: device_config_ok_def fw_version_triple_def Let_def)
  obtain h1 where 1: "store P KEY (key_blob_to_bytes blob) h = (Inr (), h1)" "healthy (h_flash h1)"
    "stored_blob P (flash_of h1) = Some blob" "\<And>r. r \<notin> {KeyA, KeyB} \<Longrightarrow> flash_of h1 r = flash_of h r"
    "fs_device_secret (pf P) (h_flash h1) = fs_device_secret (pf P) (h_flash h)"
    by (rule store_key [OF assms(3-5)]) blast
  have "ab_max_seq (crc_of P) CONFIG (flash_of h1) = ab_max_seq (crc_of P) CONFIG (flash_of h)"
    using 1(4) by (simp add: CONFIG_def ab_defs)
  with assms(6) have sq: "ab_max_seq (crc_of P) CONFIG (flash_of h1) \<noteq> - 1" by simp
  obtain h2 where 2: "store P CONFIG (device_config_to_bytes ?cfg) h1 = (Inr (), h2)" "healthy (h_flash h2)"
    "stored_config P (flash_of h2) = Some ?cfg" "\<And>r. r \<notin> {ConfigA, ConfigB} \<Longrightarrow> flash_of h2 r = flash_of h1 r"
    "fs_device_secret (pf P) (h_flash h2) = fs_device_secret (pf P) (h_flash h1)"
    by (rule store_config [OF 1(2) ok sq]) blast
  obtain f where 3: "reset_pin_counter_best_effort P h2 = h2\<lparr>h_flash := f, h_pin_backoff_until_ms := 0\<rparr>" "healthy f"
    "content f = (flash_of h2)(PinCounter := erased_sector)" "fs_device_secret (pf P) f = fs_device_secret (pf P) (h_flash h2)"
    using reset_pin_counter_healthy [OF 2(2)] .
  have h': "h' = h2\<lparr>h_flash := f, h_config := Some ?cfg, h_ca_pubkey := Some pk, h_ca := None, h_wrap_kek := None,
      h_wrap_salt := None, h_pin_backoff_until_ms := 0, h_state := ProdLocked\<rparr>"
    using assms(1) by (simp add: init_prod_commit_def 1(1) 2(1) 3(1) Let_def)
  have "stored_blob P (content f) = stored_blob P (flash_of h1)"
    by (rule stored_blob_cong) (use 2(4) 3(3) in auto)
  moreover have "stored_config P (content f) = stored_config P (flash_of h2)"
    by (rule stored_config_cong) (use 3(3) in auto)
  ultimately show thesis using 1 2 3 by (intro that [of ?cfg]) (simp_all add: h')
qed

lemma init_prod_keyed:
  assumes "init_prod P req h = (resp, h')" and "\<not> is_err resp" and "healthy (h_flash h)"
    and "lengths_ok (px P)" and "aead_correct (px P)"
    and "ab_max_seq (crc_of P) KEY (flash_of h) \<noteq> - 1" and "ab_max_seq (crc_of P) CONFIG (flash_of h) \<noteq> - 1"
  obtains pin seed where "ir_pin req = Some pin" "keyed P content healthy h' pin seed" "h_state h' = ProdLocked"
proof -
  obtain pin where pin: "ir_pin req = Some pin" "pin_len_ok pin"
    using assms(1,2) by (auto simp: init_prod_def err_defs split: option.splits if_splits)
  obtain r1 h1 where 1: "prepare_keygen_entropy P h = (r1, h1)" by fastforce
  obtain slt h2 where 2: "hsm_random P 16 h1 = (slt, h2)" by fastforce
  obtain seed ca h3 where 3: "hsm_generate P h2 = ((seed, ca), h3)" by (metis prod.exhaust)
  obtain nonce h4 where 4: "hsm_random P 12 h3 = (nonce, h4)" by fastforce
  have "flash_same h h1" "flash_same h1 h2" "flash_same h2 h3" "flash_same h3 h4" using 1 2 3 4 flash_same_ops by blast+
  then have s: "flash_same h h2" "flash_same h h4" by (blast intro: flash_same_trans)+
  let ?retries = "unwrap_or (ir_max_retries req) 10" and ?wipe = "unwrap_or (ir_wipe_on_lockout req) False"
  let ?pk = "public_bytes (px P) ca"
  note g = hsm_generate_ok [OF 3 assms(4)]
  obtain secret kek where k: "fs_device_secret (pf P) (h_flash h2) = Inr secret"
    "pin_kek (px P) (as_bytes pin) slt DEFAULT_ARGON secret = Inr kek" "?retries \<noteq> 0" "is_ok r1"
    using assms(1,2)
    by (auto simp: init_prod_def pin 1 2 3 err_defs Let_def is_ok_iff split: sum.splits if_splits)
  let ?blob = "wrap_seed (px P) kek seed ?pk PinKek slt nonce"
  have c: "init_prod_commit P ?blob ?retries ?wipe ?pk h4 = (resp, h')"
    using assms(1) k pin by (auto simp: init_prod_def 1 2 3 4 is_ok_iff Let_def split: sum.splits)
  have kb: "key_blob_ok ?blob"
    using wrap_seed_ok [OF assms(4) g(2,3)] hsm_random_length [OF assms(4) 2] hsm_random_length [OF assms(4) 4] by simp
  have h4: "healthy (h_flash h4)" "ab_max_seq (crc_of P) KEY (flash_of h4) \<noteq> - 1" "ab_max_seq (crc_of P) CONFIG (flash_of h4) \<noteq> - 1"
    using s(2) assms(3,6,7) by (simp_all add: flash_same_def)
  obtain cfg where cfg: "cfg = \<lparr> mode = Prod, argon2 = DEFAULT_ARGON, max_retries = ?retries, wipe_on_lockout = ?wipe,
      fw_version = fw_version_triple \<rparr>" "h_config h' = Some cfg" "stored_config P (flash_of h') = Some cfg"
    "stored_blob P (flash_of h') = Some ?blob" "healthy (h_flash h')" "flash_of h' PinCounter = erased_sector"
    "fs_device_secret (pf P) (h_flash h') = fs_device_secret (pf P) (h_flash h4)" "h_state h' = ProdLocked"
    "h_ca_pubkey h' = Some ?pk"
    using init_prod_commit_ok [OF c assms(2) h4(1) kb h4(2,3)] .
  have "opens P cfg secret pin ?blob kek seed" by (rule opens_wrapped [OF assms(5)]) (use k(2) in \<open>simp add: cfg(1)\<close>)
  moreover have "fs_device_secret (pf P) (h_flash h') = Inr secret" using cfg(7) s k(1) by (simp add: flash_same_def)
  moreover have "mode cfg = Prod" "max_retries cfg \<noteq> 0" using k(3) by (simp_all add: cfg(1))
  ultimately have "keyed P content healthy h' pin seed" using cfg(2-9) g by (auto simp: keyed_def)
  then show thesis using that pin(1) cfg(8) by blast
qed

lemma keyed_boot:
  assumes "keyed P content healthy h pin seed"
  shows "keyed P content healthy (boot P e m (h_flash h)) pin seed" and "h_state (boot P e m (h_flash h)) = ProdLocked"
proof -
  obtain cfg secret blob kek where k: "healthy (h_flash h)" "used (h_flash h) = 0" "length seed = 32" "mode cfg = Prod"
    "max_retries cfg \<noteq> 0" "stored_config P (flash_of h) = Some cfg" "stored_blob P (flash_of h) = Some blob"
    "fs_device_secret (pf P) (h_flash h) = Inr secret" "opens P cfg secret pin blob kek seed"
    "pubkey blob = public_bytes (px P) (ca_from_seed seed)"
    using assms by (auto simp: keyed_def)
  note b = boot_prod_reliable [OF k(1,6,4), of e m]
  have "0 < unat (max_retries cfg)" using k(5) by (simp add: unat_gt_0)
  then show "h_state (boot P e m (h_flash h)) = ProdLocked" using b(5) k(2) by simp
  show "keyed P content healthy (boot P e m (h_flash h)) pin seed"
    using b k by (auto simp: keyed_def)
qed

lemma keyed_verify_pin:
  assumes "keyed P content healthy h pin seed"
  obtains kek slt h1 where "verify_pin P pin h = Some (Inr (seed, kek, slt), h1)" "same_session h h1"
    "keyed P content healthy h1 pin seed" "\<And>r. r \<noteq> PinCounter \<Longrightarrow> flash_of h1 r = flash_of h r"
proof -
  obtain cfg secret blob kek where k: "healthy (h_flash h)" "used (h_flash h) = 0" "h_config h = Some cfg"
    "stored_config P (flash_of h) = Some cfg" "stored_blob P (flash_of h) = Some blob"
    "fs_device_secret (pf P) (h_flash h) = Inr secret" "opens P cfg secret pin blob kek seed"
    "pubkey blob = public_bytes (px P) (ca_from_seed seed)"
    using assms by (auto simp: keyed_def)
  have pk: "pin_kek (px P) (as_bytes pin) (salt blob) (argon2 cfg) secret = Inr kek" and un: "unwrap_seed (px P) kek blob = Inr seed"
    using k(7) by (simp_all add: opens_def)
  obtain n f where f: "healthy f" "\<And>r. r \<noteq> PinCounter \<Longrightarrow> content f r = flash_of h r" "fs_device_secret (pf P) f = Inr secret"
    "verify_pin P pin h = Some (Inr (seed, kek, salt blob), reset_pin_counter_best_effort P (h\<lparr>h_flash := f\<rparr>))"
    by (rule verify_pin_forward [OF k(1,3) disjI1 [OF k(2)] k(5,6) pk]) (simp add: un)
  have "healthy (h_flash (h\<lparr>h_flash := f\<rparr>))" using f(1) by simp
  then obtain g where g: "reset_pin_counter_best_effort P (h\<lparr>h_flash := f\<rparr>) = h\<lparr>h_flash := g, h_pin_backoff_until_ms := 0\<rparr>"
    "healthy g" "content g = (content f)(PinCounter := erased_sector)" "fs_device_secret (pf P) g = fs_device_secret (pf P) f"
    by (rule reset_pin_counter_healthy) auto
  have same: "content g r = flash_of h r" if "r \<noteq> PinCounter" for r using that f(2) g(3) by simp
  have "stored_blob P (content g) = stored_blob P (flash_of h)" by (rule stored_blob_cong) (use same in auto)
  moreover have "stored_config P (content g) = stored_config P (flash_of h)" by (rule stored_config_cong) (use same in auto)
  moreover have "used g = 0" using g(3) by simp
  ultimately have "keyed P content healthy (h\<lparr>h_flash := g, h_pin_backoff_until_ms := 0\<rparr>) pin seed"
    using assms k f(3) g(2,4) by (auto simp: keyed_def)
  then show thesis using f(4) g(1) same by (intro that [of kek "salt blob" "h\<lparr>h_flash := g, h_pin_backoff_until_ms := 0\<rparr>"]) simp_all
qed

lemma keyed_unlock:
  assumes "keyed P content healthy h pin seed" and "h_state h = ProdLocked"
  shows "\<exists>h'. hsm_unlock P \<lparr> ur_pin = pin \<rparr> h = Some (unlock_ok, h') \<and> h_state h' = ProdReady
    \<and> h_ca h' = Some (ca_from_seed seed) \<and> keyed P content healthy h' pin seed"
proof -
  obtain kek slt h1 where v: "verify_pin P pin h = Some (Inr (seed, kek, slt), h1)" "keyed P content healthy h1 pin seed"
    using keyed_verify_pin [OF assms(1)] by metis
  then show ?thesis using assms(2) by (auto simp: hsm_unlock_def keyed_def)
qed

lemma keyed_change_pin:
  assumes "keyed P content healthy h pin seed" and "hsm_change_pin P \<lparr> cr_current_pin = pin, cr_new_pin = new \<rparr> h = Some (resp, h')"
    and "\<not> is_err resp" and "lengths_ok (px P)" and "aead_correct (px P)" and "ab_max_seq (crc_of P) KEY (flash_of h) \<noteq> - 1"
  shows "keyed P content healthy h' new seed" and "h_state h' = h_state h"
proof -
  obtain kek slt h1 where v: "verify_pin P pin h = Some (Inr (seed, kek, slt), h1)" "same_session h h1"
    "keyed P content healthy h1 pin seed" "\<And>r. r \<noteq> PinCounter \<Longrightarrow> flash_of h1 r = flash_of h r"
    using keyed_verify_pin [OF assms(1)] by metis
  obtain cfg where k: "healthy (h_flash h1)" "length seed = 32" "h_ca_pubkey h1 = Some (public_bytes (px P) (ca_from_seed seed))"
    "h_config h1 = Some cfg" "mode cfg = Prod" "max_retries cfg \<noteq> 0" "stored_config P (flash_of h1) = Some cfg"
    using v(3) by (auto simp: keyed_def)
  have st: "h_state h = ProdReady \<or> h_state h = ProdLocked"
    using assms(2,3) by (cases "h_state h") (auto simp: hsm_change_pin_def err_defs)
  have len: "length (public_bytes (px P) (ca_from_seed seed)) = 32" using assms(4) by (simp add: public_bytes_def lengths_ok_def)
  have sq: "ab_max_seq (crc_of P) KEY (flash_of h1) \<noteq> - 1" using v(4) assms(6) by (simp add: KEY_def ab_defs)
  have r: "rewrap_seed P cfg new (h_state h = ProdReady) seed h1 = (resp, h')"
    using assms(2,3) st v(1) k(4) by (auto simp: hsm_change_pin_def err_defs split: if_splits)
  obtain blob kek' secret where w: "stored_blob P (flash_of h') = Some blob" "pubkey blob = public_bytes (px P) (ca_from_seed seed)"
    "fs_device_secret (pf P) (h_flash h') = Inr secret" "opens P cfg secret new blob kek' seed" "healthy (h_flash h')"
    "\<And>r. r \<notin> {KeyA, KeyB, PinCounter} \<Longrightarrow> flash_of h' r = flash_of h1 r" "flash_of h' PinCounter = erased_sector"
    "h_state h' = (if h_state h = ProdReady then ProdReady else ProdLocked)" "h_config h' = h_config h1" "h_ca_pubkey h' = h_ca_pubkey h1"
    by (rule rewrap_seed_ok [OF r assms(3) k(1) assms(4,5) k(2,3) len sq]) blast
  have "stored_config P (flash_of h') = stored_config P (flash_of h1)" by (rule stored_config_cong) (use w(6) in auto)
  then show "keyed P content healthy h' new seed" using w k by (auto simp: keyed_def)
  show "h_state h' = h_state h" using w(8) st by auto
qed

end

section \<open>Factory reset\<close>

lemma verify_pin_err: "verify_pin P pin h = Some (Inl resp, h') \<Longrightarrow> is_err resp"
  by (auto simp: verify_pin_def check_pin_def reject_pin_def err_defs Let_def
      split: option.splits prod.splits sum.splits if_splits)

context hsm_flash
begin

lemma erase_everything_ok:
  assumes "erase_everything P h = (resp, h')" and "\<not> is_err resp"
  shows "ab_latest (crc_of P) KEY (flash_of h') = None" "ab_latest (crc_of P) CONFIG (flash_of h') = None"
    "ab_latest (crc_of P) TIME_FLOOR (flash_of h') = None"
    "\<And>r. r \<in> {ConfigA, ConfigB, TimeA, TimeB, PinCounter} \<Longrightarrow> flash_of h' r = erased_sector"
    "h_state h' = Uninitialized" "h_config h' = None" "h_ca h' = None" "h_wrap_kek h' = None" "h_wrap_salt h' = None"
    "h_ca_pubkey h' = None" "h_trusted_time_floor h' = None"
proof -
  obtain gone h1 where 1: "erase_key_verified P (drop_live_secrets h) = (gone, h1)" by fastforce
  obtain r2 f2 where 2: "erase_both (pf P) CONFIG (h_flash h1) = (r2, f2)" by fastforce
  obtain r3 f3 where 3: "erase_both (pf P) TIME_FLOOR f2 = (r3, f3)" by fastforce
  obtain r4 f4 where 4: "pin_reset (pf P) f3 = (r4, f4)" by fastforce
  obtain r5 f5 where 5: "read_latest (pf P) (crc_of P) CONFIG f4 = (r5, f5)" by fastforce
  obtain r6 f6 where 6: "read_latest (pf P) (crc_of P) TIME_FLOOR f5 = (r6, f6)" by fastforce
  have ok: "gone" "is_ok r4" "r5 = Inr None" "r6 = Inr None" "is_ok r2" "is_ok r3"
    and h': "h' = h1\<lparr>h_flash := f6, h_ca_pubkey := None, h_config := None, h_trusted_time_floor := None,
      h_trusted_time_floor_unavailable := False, h_pin_backoff_until_ms := 0, h_state := Uninitialized\<rparr>"
    using assms by (auto simp: erase_everything_def 1 2 3 4 5 6 err_defs Let_def split: if_splits)
  have f6: "content f6 = content f4" using read_latest_spec(1) [OF 5] read_latest_spec(1) [OF 6] by simp
  obtain f1 where l: "erase_key_loop (pf P) (crc_of P) 2 (h_flash h) = (gone, f1)" "h_flash h1 = f1"
    using 1 by (auto simp: erase_key_verified_def drop_live_secrets_def split: prod.splits)
  have "content f4 r = content f1 r" if "r \<in> {KeyA, KeyB}" for r
    using that erase_both_frame(1) [OF 2, of r] erase_both_frame(1) [OF 3, of r] pin_reset_frame(1) [OF 4, of r] l(2)
    by (auto simp: CONFIG_def TIME_FLOOR_def)
  then show "ab_latest (crc_of P) KEY (flash_of h') = None"
    using erase_key_loop_frame(3) [OF l(1) ok(1)] f6 by (simp add: h' KEY_def ab_defs)
  show "ab_latest (crc_of P) CONFIG (flash_of h') = None" "ab_latest (crc_of P) TIME_FLOOR (flash_of h') = None"
    using read_latest_spec [OF 5] read_latest_spec [OF 6] ok(3,4) f6 by (simp_all add: h')
  show "flash_of h' r = erased_sector" if "r \<in> {ConfigA, ConfigB, TimeA, TimeB, PinCounter}" for r
    using that pin_reset_ok 4 erase_both_ok 2 3 ok(2,5,6) f6 by (auto simp: h' is_ok_iff CONFIG_def TIME_FLOOR_def)
  show "h_ca h' = None" "h_wrap_kek h' = None" "h_wrap_salt h' = None"
    using erase_key_verified_frame [OF 1] by (simp_all add: h' same_session_def drop_live_secrets_def)
  show "h_state h' = Uninitialized" "h_config h' = None" "h_ca_pubkey h' = None" "h_trusted_time_floor h' = None"
    by (simp_all add: h')
qed

text \<open>The reset is carried out only for the holder of the PIN or of the device.\<close>

lemma hsm_factory_reset_ok:
  assumes "hsm_factory_reset P req h = Some (resp, h')" and "\<not> is_err resp"
  obtains h1 where "erase_everything P h1 = (resp, h')" "fr_confirm req = ''ERASE''"
    "h_state h \<in> {Uninitialized, DevReady} \<or> h_physical_recovery_authorized h
     \<or> h_state h \<noteq> LockedOut \<and> (\<exists>pin seed kek slt. fr_pin req = Some pin \<and> verify_pin P pin h = Some (Inr (seed, kek, slt), h1))"
proof -
  obtain r h1 where a: "authorize_reset P (fr_pin req)
      ''factory-reset requires a PIN or physical recovery held low during reset'' h = Some (r, h1)" "fr_confirm req = ''ERASE''"
    "r = Inr ()" "erase_everything P h1 = (resp, h')"
  proof -
    have e: "is_err x" if "authorize_reset P p m h = Some (Inl x, g)" for p m x g
    proof -
      note v = verify_pin_err [of P _ h]
      from v that show ?thesis
        by (cases "h_state h") (auto simp: authorize_reset_def err_defs split: if_splits option.splits sum.splits prod.splits)
    qed
    show thesis
      using assms that by (auto simp: hsm_factory_reset_def err_defs dest: e split: if_splits option.splits sum.splits prod.splits)
  qed
  have "h_state h \<in> {Uninitialized, DevReady} \<or> h_physical_recovery_authorized h
     \<or> h_state h \<noteq> LockedOut \<and> (\<exists>pin seed kek slt. fr_pin req = Some pin \<and> verify_pin P pin h = Some (Inr (seed, kek, slt), h1))"
    using a(1,3) by (cases "h_state h") (auto simp: authorize_reset_def split: if_splits option.splits sum.splits prod.splits)
  then show thesis using that a by blast
qed

end

section \<open>Initialisation succeeds on a working device\<close>

context hsm_reliable
begin

lemma init_prod_commit_succeeds:
  assumes "healthy (h_flash h)" and "key_blob_ok blob" and "ab_max_seq (crc_of P) KEY (flash_of h) \<noteq> - 1"
    and "ab_max_seq (crc_of P) CONFIG (flash_of h) \<noteq> - 1"
  shows "\<exists>resp h'. init_prod_commit P blob retries wipe pk h = (resp, h') \<and> \<not> is_err resp"
proof -
  let ?cfg = "\<lparr> mode = Prod, argon2 = DEFAULT_ARGON, max_retries = retries, wipe_on_lockout = wipe,
      fw_version = fw_version_triple \<rparr>"
  have ok: "device_config_ok ?cfg" by (simp add: device_config_ok_def fw_version_triple_def Let_def)
  obtain h1 where 1: "store P KEY (key_blob_to_bytes blob) h = (Inr (), h1)" "healthy (h_flash h1)"
    "\<And>r. r \<notin> {KeyA, KeyB} \<Longrightarrow> flash_of h1 r = flash_of h r"
    by (rule store_key [OF assms(1-3)]) blast
  have sq: "ab_max_seq (crc_of P) CONFIG (flash_of h1) \<noteq> - 1" using 1(3) assms(4) by (simp add: CONFIG_def ab_defs)
  obtain h2 where "store P CONFIG (device_config_to_bytes ?cfg) h1 = (Inr (), h2)"
    by (rule store_config [OF 1(2) ok sq]) blast
  then show ?thesis by (simp add: init_prod_commit_def 1(1) Let_def err_defs)
qed

lemma init_prod_succeeds:
  assumes "healthy (h_flash h)" and "lengths_ok (px P)" and "fst (prepare_keygen_entropy P h) = Inr ()"
    and "fs_device_secret (pf P) (h_flash h) = Inr secret"
    and "\<And>slt. \<exists>kek. pin_kek (px P) (as_bytes pin) slt DEFAULT_ARGON secret = Inr kek"
    and "ir_pin req = Some pin" and "pin_len_ok pin" and "unwrap_or (ir_max_retries req) 10 \<noteq> 0"
    and "ab_max_seq (crc_of P) KEY (flash_of h) \<noteq> - 1" and "ab_max_seq (crc_of P) CONFIG (flash_of h) \<noteq> - 1"
  shows "\<exists>resp h'. init_prod P req h = (resp, h') \<and> \<not> is_err resp"
proof -
  obtain h1 where 1: "prepare_keygen_entropy P h = (Inr (), h1)" using assms(3) by (metis prod.collapse)
  obtain slt h2 where 2: "hsm_random P 16 h1 = (slt, h2)" by fastforce
  obtain seed ca h3 where 3: "hsm_generate P h2 = ((seed, ca), h3)" by (metis prod.exhaust)
  obtain nonce h4 where 4: "hsm_random P 12 h3 = (nonce, h4)" by fastforce
  have "flash_same h h1" "flash_same h1 h2" "flash_same h2 h3" "flash_same h3 h4" using 1 2 3 4 flash_same_ops by blast+
  then have s: "flash_same h h2" "flash_same h h4" by (blast intro: flash_same_trans)+
  obtain kek where k: "pin_kek (px P) (as_bytes pin) slt DEFAULT_ARGON secret = Inr kek" using assms(5) by blast
  let ?pk = "public_bytes (px P) ca"
  let ?blob = "wrap_seed (px P) kek seed ?pk PinKek slt nonce"
  note g = hsm_generate_ok [OF 3 assms(2)]
  have kb: "key_blob_ok ?blob"
    using wrap_seed_ok [OF assms(2) g(2,3)] hsm_random_length [OF assms(2) 2] hsm_random_length [OF assms(2) 4] by simp
  have h4: "healthy (h_flash h4)" "ab_max_seq (crc_of P) KEY (flash_of h4) \<noteq> - 1" "ab_max_seq (crc_of P) CONFIG (flash_of h4) \<noteq> - 1"
    using s(2) assms(1,9,10) by (simp_all add: flash_same_def)
  have "fs_device_secret (pf P) (h_flash h2) = Inr secret" using s(1) assms(4) by (simp add: flash_same_def)
  then have "init_prod P req h = init_prod_commit P ?blob (unwrap_or (ir_max_retries req) 10)
      (unwrap_or (ir_wipe_on_lockout req) False) ?pk h4"
    using assms(6-8) k by (simp add: init_prod_def 1 2 3 4 Let_def)
  then show ?thesis using init_prod_commit_succeeds [OF h4(1) kb h4(2,3)] by simp
qed

lemma keyed_change_pin_succeeds:
  assumes "keyed P content healthy h pin seed" and "lengths_ok (px P)" and "\<And>h. fst (prepare_keygen_entropy P h) = Inr ()"
    and "h_config h = Some cfg" and "\<And>slt secret. \<exists>kek. pin_kek (px P) (as_bytes new) slt (argon2 cfg) secret = Inr kek"
    and "pin_len_ok new"
    and "ab_max_seq (crc_of P) KEY (flash_of h) \<noteq> - 1" and "h_state h = ProdLocked \<or> h_state h = ProdReady"
  shows "\<exists>resp h'. hsm_change_pin P \<lparr> cr_current_pin = pin, cr_new_pin = new \<rparr> h = Some (resp, h') \<and> \<not> is_err resp"
proof -
  obtain kek slt h1 where v: "verify_pin P pin h = Some (Inr (seed, kek, slt), h1)"
    "same_session h h1" "keyed P content healthy h1 pin seed" "\<And>r. r \<noteq> PinCounter \<Longrightarrow> flash_of h1 r = flash_of h r"
    using keyed_verify_pin [OF assms(1)] by metis
  obtain secret where k: "h_config h1 = Some cfg" "healthy (h_flash h1)" "length seed = 32"
    "h_ca_pubkey h1 = Some (public_bytes (px P) (ca_from_seed seed))" "fs_device_secret (pf P) (h_flash h1) = Inr secret"
    using v(2,3) assms(4) by (auto simp: keyed_def same_session_def)
  obtain h2 where 2: "prepare_keygen_entropy P h1 = (Inr (), h2)" using assms(3) [of h1] by (metis prod.collapse)
  obtain slt' h3 where 3: "hsm_random P 16 h2 = (slt', h3)" by fastforce
  obtain nonce h4 where 4: "hsm_random P 12 h3 = (nonce, h4)" by fastforce
  have "flash_same h1 h2" "flash_same h2 h3" "flash_same h3 h4" using 2 3 4 flash_same_ops by blast+
  then have s: "flash_same h1 h3" "flash_same h1 h4" by (blast intro: flash_same_trans)+
  obtain kek' where d: "pin_kek (px P) (as_bytes new) slt' (argon2 cfg) secret = Inr kek'" using assms(5) by blast
  let ?blob = "wrap_seed (px P) kek' seed (public_bytes (px P) (ca_from_seed seed)) PinKek slt' nonce"
  have kb: "key_blob_ok ?blob"
    using assms(2) k(3) hsm_random_length [OF assms(2) 3] hsm_random_length [OF assms(2) 4]
    by (auto intro!: wrap_seed_ok simp: public_bytes_def ca_from_seed_def lengths_ok_def)
  have "ab_max_seq (crc_of P) KEY (flash_of h1) = ab_max_seq (crc_of P) KEY (flash_of h)"
    using v(4) by (simp add: KEY_def ab_defs)
  then have h4: "healthy (h_flash h4)" "ab_max_seq (crc_of P) KEY (flash_of h4) \<noteq> - 1"
    using s(2) assms(7) k(2) by (simp_all add: flash_same_def)
  obtain h5 where "store P KEY (key_blob_to_bytes ?blob) h4 = (Inr (), h5)"
    by (rule store_key [OF h4(1) kb h4(2)]) blast
  moreover have "h_ca_pubkey h3 = h_ca_pubkey h1" "h_flash h3 = h_flash h1" using s(1) by (simp_all add: flash_same_def same_session_def)
  ultimately have "\<not> is_err (fst (rewrap_seed P cfg new b seed h1))" for b
    using k(4,5) d by (simp add: rewrap_seed_def 2 3 4 Let_def err_defs)
  then have "\<exists>resp h'. rewrap_seed P cfg new b seed h1 = (resp, h') \<and> \<not> is_err resp" for b by (metis prod.collapse)
  then show ?thesis using v(1) k(1) assms(6,8) by (auto simp: hsm_change_pin_def Let_def)

qed

text \<open>On a working flash the erasure goes through.\<close>

lemma erase_key_succeeds:
  assumes "healthy f"
  obtains f' where "erase_key_loop (pf P) (crc_of P) 2 f = (True, f')" "healthy f'"
proof -
  obtain f1 where 1: "erase_both (pf P) KEY f = (Inr (), f1)" "healthy f1" using erase_both_healthy [OF assms] by blast
  have "ab_latest (crc_of P) KEY (content f1) = None" using erase_both_ok [OF 1(1)] by (simp add: ab_defs)
  then obtain f2 where 2: "read_latest (pf P) (crc_of P) KEY f1 = (Inr None, f2)" "healthy f2"
    using read_latest_healthy [OF 1(2), of "crc_of P" KEY] by auto
  show thesis using that [of f2] 1(1) 2 by (simp add: numeral_2_eq_2)
qed

lemma erase_everything_succeeds:
  assumes "healthy (h_flash h)"
  obtains resp h' where "erase_everything P h = (resp, h')" "\<not> is_err resp" "healthy (h_flash h')"
proof -
  obtain f2 where 2: "erase_key_loop (pf P) (crc_of P) 2 (h_flash h) = (True, f2)" "healthy f2" by (rule erase_key_succeeds [OF assms])
  have none: "ab_latest (crc_of P) ab c = None" if "c (ab_a ab) = erased_sector" "c (ab_b ab) = erased_sector" for ab c
    using that by (simp add: ab_defs)
  obtain f3 where 3: "erase_both (pf P) CONFIG f2 = (Inr (), f3)" "healthy f3" using erase_both_healthy [OF 2(2)] by blast
  obtain f4 where 4: "erase_both (pf P) TIME_FLOOR f3 = (Inr (), f4)" "healthy f4" using erase_both_healthy [OF 3(2)] by blast
  obtain f5 where 5: "pin_reset (pf P) f4 = (Inr (), f5)" "healthy f5" using pin_reset_healthy [OF 4(2)] by blast
  have e: "content f5 r = erased_sector" if "r \<in> {ConfigA, ConfigB, TimeA, TimeB}" for r
    using that erase_both_ok [OF 3(1)] erase_both_ok [OF 4(1)] pin_reset_ok [OF 5(1)] by (auto simp: CONFIG_def TIME_FLOOR_def)
  obtain f6 where 6: "read_latest (pf P) (crc_of P) CONFIG f5 = (Inr None, f6)" "healthy f6"
    using read_latest_healthy [OF 5(2), of "crc_of P" CONFIG] none [of "content f5" CONFIG] e by (auto simp: CONFIG_def)
  have "content f6 = content f5" by (rule read_latest_spec(1) [OF 6(1)])
  then obtain f7 where 7: "read_latest (pf P) (crc_of P) TIME_FLOOR f6 = (Inr None, f7)" "healthy f7"
    using read_latest_healthy [OF 6(2), of "crc_of P" TIME_FLOOR] none [of "content f6" TIME_FLOOR] e by (auto simp: TIME_FLOOR_def)
  have e: "erase_everything P h = (hsm_with (\<lambda>r. r\<lparr>hr_factory_reset := Some \<lparr> or_ok = True \<rparr>\<rparr>),
      (drop_live_secrets h)\<lparr>h_flash := f7, h_ca_pubkey := None, h_config := None, h_trusted_time_floor := None,
        h_trusted_time_floor_unavailable := False, h_pin_backoff_until_ms := 0, h_state := Uninitialized\<rparr>)"
    by (simp add: erase_everything_def erase_key_verified_def drop_live_secrets_def 2(1) 3(1) 4(1) 5(1) 6(1) 7(1) Let_def)
  show thesis by (rule that [OF e]) (simp_all add: err_defs hsm_response_default_def 7(2))
qed

text \<open>A counter can be driven to any count.\<close>

lemma pin_ticks:
  "healthy f \<Longrightarrow> k \<le> SECTOR_LEN \<Longrightarrow> \<exists>f'. healthy f' \<and> k \<le> used f' \<and> (\<forall>r. r \<noteq> PinCounter \<longrightarrow> content f' r = content f r)"
proof (induction k)
  case (Suc k)
  then obtain f1 where 1: "healthy f1" "k \<le> used f1" "\<forall>r. r \<noteq> PinCounter \<longrightarrow> content f1 r = content f r" by auto
  obtain n f2 where 2: "pin_tick (pf P) f1 = (Inr n, f2)" "healthy f2" using pin_tick_healthy [OF 1(1)] by blast
  have "Suc k \<le> used f2"
    using pin_tick_ok [OF 2(1)] 1(2) Suc.prems(2) by (cases "used f1 < SECTOR_LEN") auto
  then show ?case using 1(3) 2 pin_tick_frame(1) [OF 2(1)] by auto
qed auto

end

end
