(* ===== verification/Guessing.thy ===== *)
theory Guessing
  imports PinGate
begin

text \<open>
  An attacker who does not know the PIN, against a locked production device. Everything a host can do
  is allowed: any request, through every command that takes a PIN, the loss of the transport, the
  passage of time and power cycles, in any order. What is excluded is the recovery gesture at the
  board and a request that presents the right PIN. After lockout the right PIN is allowed, too.
\<close>

section \<open>The attacker\<close>

definition presented_pin :: "hsm_request \<Rightarrow> string option" where
  "presented_pin q =
     (case hq_unlock q of Some r \<Rightarrow> Some (ur_pin r)
      | None \<Rightarrow> (case hq_change_pin q of Some r \<Rightarrow> Some (cr_current_pin r)
      | None \<Rightarrow> (case hq_factory_reset q of Some r \<Rightarrow> fr_pin r
      | None \<Rightarrow> (case hq_reboot_bootloader q of Some r \<Rightarrow> rr_pin r
      | None \<Rightarrow> None))))"

definition right_pin :: "('e, 'm, 'f, 'r) platform \<Rightarrow> ('e, 'm, 'f, 'r) hsm \<Rightarrow> string option \<Rightarrow> bool" where
  "right_pin P h pin \<longleftrightarrow> (\<exists>p x h1. pin = Some p \<and> verify_pin P p h = Some (Inr x, h1))"

definition presents_right_pin :: "('e, 'm, 'f, 'r) platform \<Rightarrow> ('e, 'm, 'f, 'r) hsm \<Rightarrow> request \<Rightarrow> bool" where
  "presents_right_pin P h q \<longleftrightarrow> (\<exists>r. rq_hsm q = Some r \<and> right_pin P h (presented_pin r))"

definition rejected_answer :: "response \<Rightarrow> bool" where
  "rejected_answer resp \<longleftrightarrow> (case rs_hsm resp of Some m \<Rightarrow> rejected_pin m | None \<Rightarrow> False)"

text \<open>The number is how many guesses were answered.\<close>

inductive guess_run :: "('e, 'm, 'f, 'r) platform \<Rightarrow> ('e, 'm, 'f, 'r) hsm \<Rightarrow> nat \<Rightarrow> ('e, 'm, 'f, 'r) hsm \<Rightarrow> bool" for P h0 where
  begins: "guess_run P h0 0 h0"
| asks: "guess_run P h0 n h \<Longrightarrow> handle_request P q h = Some (resp, h') \<Longrightarrow> \<not> presents_right_pin P h q
    \<Longrightarrow> guess_run P h0 (if rejected_answer resp then Suc n else n) h'"
| relocks: "guess_run P h0 n h \<Longrightarrow> guess_run P h0 n (relock_on_transport_reset h)"
| waits: "guess_run P h0 n h \<Longrightarrow> guess_run P h0 n (h\<lparr>h_mono := m\<rparr>)"
| repowers: "guess_run P h0 n h \<Longrightarrow> guess_run P h0 n (boot P e m (h_flash h))"

text \<open>The same traffic with any request at all, the right PIN included.\<close>

inductive locked_run :: "('e, 'm, 'f, 'r) platform \<Rightarrow> ('e, 'm, 'f, 'r) hsm \<Rightarrow> ('e, 'm, 'f, 'r) hsm \<Rightarrow> bool" for P h0 where
  begins: "locked_run P h0 h0"
| asks: "locked_run P h0 h \<Longrightarrow> handle_request P q h = Some (resp, h') \<Longrightarrow> locked_run P h0 h'"
| relocks: "locked_run P h0 h \<Longrightarrow> locked_run P h0 (relock_on_transport_reset h)"
| waits: "locked_run P h0 h \<Longrightarrow> locked_run P h0 (h\<lparr>h_mono := m\<rparr>)"
| repowers: "locked_run P h0 h \<Longrightarrow> locked_run P h0 (boot P e m (h_flash h))"

section \<open>What a request without the PIN can do\<close>

text \<open>A request that is not a verified guess leaves everything but the time journal.\<close>

definition quiet :: "(region \<Rightarrow> bytes) \<Rightarrow> (region \<Rightarrow> bytes) \<Rightarrow> ('e, 'm, 'f, 'r) hsm \<Rightarrow> ('e, 'm, 'f, 'r) hsm \<Rightarrow> bool" where
  "quiet c c' h h' \<longleftrightarrow> h_state h' = h_state h \<and> h_config h' = h_config h
     \<and> h_physical_recovery_authorized h' = h_physical_recovery_authorized h \<and> (\<forall>r. r \<notin> {TimeA, TimeB} \<longrightarrow> c' r = c r)"

lemma boot_no_recovery: "\<not> h_physical_recovery_authorized (boot P e m f)"
  by (simp add: boot_def load_from_flash_def load_dev_def load_prod_def enter_locked_out_def drop_live_secrets_def Let_def
      split: prod.split sum.split option.split mode.split)

lemma quiet_refl [simp]: "quiet c c h h"
  by (simp add: quiet_def)

lemma quiet_same: "same_session h h' \<Longrightarrow> c' = c \<Longrightarrow> quiet c c' h h'"
  by (simp add: quiet_def same_session_def)

context hsm_reliable
begin

lemma store_healthy:
  assumes "store P ab payload h = (res, h')" and "healthy (h_flash h)" and "HEADER + length payload + 4 \<le> SECTOR_LEN"
  shows "healthy (h_flash h')"
  using ab_write_healthy [OF assms(2,3), of "crc_of P" ab] assms(1) by (auto simp: store_def split: prod.splits)

lemma hsm_set_time_healthy:
  assumes "hsm_set_time P r h = Some (resp, h')" and "healthy (h_flash h)"
  shows "healthy (h_flash h')"
proof -
  have s: "healthy (h_flash h1)" if "store P TIME_FLOOR (time_floor_to_bytes t) h = (res, h1)" for t res h1
    using store_healthy [OF that assms(2)] time_codec.enc_fits [of t] by simp
  show ?thesis
    using assms
    by (auto simp: hsm_set_time_def Let_def dest!: s
        split: if_splits sum.splits rejected.splits option.splits prod.splits Option.bind_splits)
qed

lemma hsm_set_time_quiet:
  assumes "hsm_set_time P r h = Some (resp, h')"
  shows "quiet (flash_of h) (flash_of h') h h'" and "\<not> rejected_pin resp"
proof -
  show "quiet (flash_of h) (flash_of h') h h'"
    using hsm_set_time_cases [OF assms] hsm_set_time_flash [OF assms] by (auto simp: quiet_def same_session_def)
  show "\<not> rejected_pin resp"
    using assms
    by (auto simp: hsm_set_time_def rejected_pin_def hsm_with_def err_defs Let_def
        split: if_splits sum.splits rejected.splits option.splits prod.splits Option.bind_splits)
qed

lemma hsm_status_quiet:
  assumes "hsm_status P h = Some (resp, h')" and "healthy (h_flash h)"
  shows "quiet (flash_of h) (flash_of h') h h'" and "\<not> rejected_pin resp" and "healthy (h_flash h')"
proof -
  show "quiet (flash_of h) (flash_of h') h h'"
    using quiet_same hsm_status_frame [OF assms(1)] hsm_status_flash [OF assms(1)] by metis
  show "\<not> rejected_pin resp" "healthy (h_flash h')"
    using assms
    by (auto simp: hsm_status_def rejected_pin_def hsm_with_def Let_def dest: healthy_ops(1)
        split: option.splits prod.splits if_splits Option.bind_splits)
qed

lemma hsm_self_test_quiet:
  assumes "hsm_self_test P h = (resp, h')" and "healthy (h_flash h)"
  shows "quiet (flash_of h) (flash_of h') h h'" and "\<not> rejected_pin resp" and "healthy (h_flash h')"
proof -
  show "quiet (flash_of h) (flash_of h') h h'"
    using quiet_same hsm_self_test_frame [OF assms(1)] hsm_self_test_flash [OF assms(1)] by metis
  show "\<not> rejected_pin resp" "healthy (h_flash h')"
    using assms by (auto simp: hsm_self_test_def rejected_pin_def hsm_with_def Let_def dest: healthy_ops(4) split: prod.splits)
qed

lemma hsm_add_entropy_quiet:
  assumes "hsm_add_entropy P r h = (resp, h')"
  shows "quiet (flash_of h) (flash_of h') h h'" and "\<not> rejected_pin resp" and "h_flash h' = h_flash h"
proof -
  show f: "h_flash h' = h_flash h" by (rule hsm_add_entropy_flash [OF assms])
  show "quiet (flash_of h) (flash_of h') h h'" using quiet_same hsm_add_entropy_frame [OF assms] f by metis
  show "\<not> rejected_pin resp"
    using assms by (auto simp: hsm_add_entropy_def rejected_pin_def hsm_with_def err_defs split: option.splits if_splits)
qed

text \<open>On a locked device a management command is quiet, or a guess that the PIN gate did not accept.\<close>

lemma authorize_reset_locked:
  assumes "authorize_reset P pin msg h = Some (res, h')" and "h_state h \<in> {ProdLocked, LockedOut}"
    and "\<not> h_physical_recovery_authorized h" and "h_state h = ProdLocked \<Longrightarrow> \<not> right_pin P h pin"
  obtains (refused) resp where "res = Inl resp" "h' = h" "\<not> rejected_pin resp"
  | (verified) p resp where "res = Inl resp" "h_state h = ProdLocked" "verify_pin P p h = Some (Inl resp, h')"
  using assms by (auto simp: authorize_reset_def right_pin_def split: option.splits sum.splits prod.splits)

lemma handle_hsm_locked:
  assumes "handle_hsm P q h = Some (resp, h')" and "h_state h \<in> {ProdLocked, LockedOut}" and "h_config h \<noteq> None"
    and "\<not> h_physical_recovery_authorized h" and "h_state h = ProdLocked \<Longrightarrow> \<not> right_pin P h (presented_pin q)" and "healthy (h_flash h)"
  obtains (quiet) "quiet (flash_of h) (flash_of h') h h'" "healthy (h_flash h')" "\<not> rejected_pin resp"
  | (verified) p where "h_state h = ProdLocked" "verify_pin P p h = Some (Inl resp, h')"
  using assms(1)
proof (cases rule: handle_hsm_cases)
  case (set_time r)
  then show thesis using quiet hsm_set_time_quiet hsm_set_time_healthy assms(6) by metis
next
  case status
  then show thesis using quiet hsm_status_quiet assms(6) by metis
next
  case (add_entropy r)
  then show thesis using quiet hsm_add_entropy_quiet assms(6) by (metis option.inject)
next
  case self_test
  then show thesis using quiet hsm_self_test_quiet assms(6) by (metis option.inject)
next
  case (unlock r)
  then have "presented_pin q = Some (ur_pin r)" by (simp add: presented_pin_def)
  with unlock assms(2,5,6) show thesis
    by (auto simp: hsm_unlock_def right_pin_def split: option.splits sum.splits intro: quiet verified)
next
  case (change_pin r)
  then have "presented_pin q = Some (cr_current_pin r)" by (simp add: presented_pin_def)
  with change_pin assms(2,5,6) show thesis
    using verified [of "cr_current_pin r"]
    by (auto simp: hsm_change_pin_def right_pin_def Let_def split: option.splits sum.splits if_splits intro: quiet)
next
  case (factory_reset r)
  then have p: "presented_pin q = fr_pin r" by (simp add: presented_pin_def)
  show thesis
  proof (cases "fr_confirm r = ''ERASE''")
    case True
    then obtain res h1 where a: "authorize_reset P (fr_pin r) ''factory-reset requires a PIN or physical recovery held low during reset'' h
        = Some (res, h1)" using factory_reset by (auto simp: hsm_factory_reset_def split: option.splits)
    from a assms(2,4) assms(5) [unfolded p] show thesis
      by (cases rule: authorize_reset_locked) (use True factory_reset a assms(6) in \<open>auto simp: hsm_factory_reset_def intro: quiet verified\<close>)
  qed (use factory_reset assms(6) in \<open>auto simp: hsm_factory_reset_def intro: quiet\<close>)
next
  case (reboot_bootloader r)
  then have p: "presented_pin q = rr_pin r" by (simp add: presented_pin_def)
  obtain res h1 where a: "authorize_reset P (rr_pin r)
      ''rebooting into the bootloader requires a PIN or physical recovery held low during reset'' h = Some (res, h1)"
    using reboot_bootloader by (auto simp: hsm_reboot_bootloader_def split: option.splits)
  from a assms(2,4) assms(5) [unfolded p] show thesis
    by (cases rule: authorize_reset_locked) (use reboot_bootloader a assms(6) in \<open>auto simp: hsm_reboot_bootloader_def intro: quiet verified\<close>)
qed (use assms(2,3,6) quiet in \<open>auto simp: quiet_def ONE_COMMAND_def hsm_init_def hsm_generate_key_def hsm_lock_def hsm_get_public_key_def
    lock_ok_def rejected_pin_def hsm_with_def err_defs drop_live_secrets_def split: option.splits\<close>)

lemma handle_request_locked:
  assumes "handle_request P q h = Some (resp, h')" and "h_state h \<in> {ProdLocked, LockedOut}" and "h_config h \<noteq> None"
    and "\<not> h_physical_recovery_authorized h" and "h_state h = ProdLocked \<Longrightarrow> \<not> presents_right_pin P h q" and "healthy (h_flash h)"
  obtains (quiet) "quiet (flash_of h) (flash_of h') h h'" "healthy (h_flash h')" "\<not> rejected_answer resp"
  | (verified) p m where "h_state h = ProdLocked" "verify_pin P p h = Some (Inl m, h')" "rejected_answer resp = rejected_pin m"
proof (cases "\<exists>r m. rq_hsm q = Some r \<and> handle_hsm P r h = Some (m, h') \<and> resp = response_default\<lparr>rs_hsm := Some m\<rparr>")
  case True
  then obtain r m where r: "rq_hsm q = Some r" "handle_hsm P r h = Some (m, h')" "resp = response_default\<lparr>rs_hsm := Some m\<rparr>" by blast
  have np: "h_state h = ProdLocked \<Longrightarrow> \<not> right_pin P h (presented_pin r)" using assms(5) r(1) by (simp add: presents_right_pin_def)
  have m: "rejected_answer resp = rejected_pin m" by (simp add: r(3) rejected_answer_def)
  from r(2) assms(2-4) np assms(6) show thesis
    by (cases rule: handle_hsm_locked) (use m quiet verified in auto)
next
  case False
  have "\<not> signer_ready (h_state h)" using assms(2) by auto
  with assms(1) False have "h' = h \<and> rs_hsm resp = None"
    by (auto simp: handle_request_def handle_sign_def handle_load_key_signer_def handle_ping_def handle_metrics_def response_error_def
        response_default_def Let_def split: if_splits option.splits)
  then show thesis using assms(6) by (intro quiet) (simp_all add: rejected_answer_def)
qed

text \<open>The guesses answered so far are in the counter, and the counter bounds them.\<close>

definition guess_inv :: "device_config \<Rightarrow> nat \<Rightarrow> ('e, 'm, 'f, 'r) hsm \<Rightarrow> bool" where
  "guess_inv cfg n h \<longleftrightarrow> healthy (h_flash h) \<and> h_state h \<in> {ProdLocked, LockedOut} \<and> h_config h = Some cfg
    \<and> \<not> h_physical_recovery_authorized h
    \<and> stored_config P (flash_of h) = Some cfg \<and> n \<le> used (h_flash h) \<and> n \<le> unat (max_retries cfg)
    \<and> (h_state h = LockedOut \<or> n < unat (max_retries cfg) \<or> stored_blob P (flash_of h) = None)"

lemma guess_inv_quiet:
  assumes "guess_inv cfg n h" and "quiet (flash_of h) (flash_of h') h h'" and "healthy (h_flash h')"
  shows "guess_inv cfg n h'"
proof -
  have "flash_of h' r = flash_of h r" if "r \<notin> {TimeA, TimeB}" for r using assms(2) that by (simp add: quiet_def)
  then have "stored_config P (flash_of h') = stored_config P (flash_of h)" "stored_blob P (flash_of h') = stored_blob P (flash_of h)"
    "used (h_flash h') = used (h_flash h)"
    by (auto intro!: stored_config_cong stored_blob_cong)
  then show ?thesis using assms by (simp add: guess_inv_def quiet_def)
qed

lemma guess_inv_rejected:
  assumes "guess_inv cfg n h" and "h_state h = ProdLocked" and "verify_pin P p h = Some (Inl m, h')" and "rejected_pin m"
  shows "guess_inv cfg (Suc n) h'"
proof -
  obtain c k where k: "h_config h = Some c" "k = (if used (h_flash h) < SECTOR_LEN then Suc (used (h_flash h)) else SECTOR_LEN)"
    "k \<le> used (h_flash h')" "stored_blob P (flash_of h) \<noteq> None"
    "if k < unat (max_retries c) then same_session h h' else locked_session h h'"
    "\<And>r. r \<notin> {KeyA, KeyB, PinCounter} \<Longrightarrow> flash_of h' r = flash_of h r"
    using verify_pin_charged [OF assms(3,4)] by blast
  have c: "c = cfg" using k(1) assms(1) by (simp add: guess_inv_def)
  have n: "n < unat (max_retries cfg)" using assms(1,2) k(4) by (auto simp: guess_inv_def)
  have "unat (max_retries cfg) < 2 ^ LENGTH(8)" by (rule unsigned_less)
  with n have "Suc n \<le> k" using k(2) assms(1) by (auto simp: SECTOR_LEN_def guess_inv_def)
  moreover have "stored_config P (flash_of h') = stored_config P (flash_of h)"
    by (rule stored_config_cong) (use k(6) in auto)
  moreover have "healthy (h_flash h')" using verify_pin_rejected_healthy [OF assms(3,4)] assms(1) by (simp add: guess_inv_def)
  ultimately show ?thesis
    using k(3,5) n assms(1,2) by (auto simp: c guess_inv_def same_session_def locked_session_fields split: if_splits)
qed

lemma guess_inv_other:
  assumes "guess_inv cfg n h" and "verify_pin P p h = Some (Inl m, h')" and "\<not> rejected_pin m"
  shows "guess_inv cfg n h'"
proof -
  have "healthy (h_flash h)" using assms(1) by (simp add: guess_inv_def)
  note o = verify_pin_other [OF assms(2,3) this]
  have "stored_config P (flash_of h') = stored_config P (flash_of h)" by (rule stored_config_cong) (use o(4) in auto)
  moreover have "stored_blob P (flash_of h') = stored_blob P (flash_of h)" by (rule stored_blob_cong) (use o(4) in auto)
  ultimately show ?thesis using o(1-3) assms(1) by (auto simp: guess_inv_def same_session_def)
qed

lemma guess_run_inv:
  assumes "guess_run P h0 n h" and "guess_inv cfg 0 h0" and "mode cfg = Prod"
  shows "guess_inv cfg n h"
  using assms(1)
proof (induction rule: guess_run.induct)
  case (asks n h q resp h')
  then have i: "guess_inv cfg n h" by simp
  then have "h_state h \<in> {ProdLocked, LockedOut}" "h_config h \<noteq> None" "\<not> h_physical_recovery_authorized h" "healthy (h_flash h)"
    by (simp_all add: guess_inv_def)
  from asks(2) this(1-3) asks(3) this(4) show ?case
  proof (cases rule: handle_request_locked)
    case quiet
    then show ?thesis using guess_inv_quiet [OF i] by simp
  next
    case (verified p m)
    then show ?thesis using guess_inv_rejected [OF i verified(1,2)] guess_inv_other [OF i verified(2)] by auto
  qed
next
  case (relocks n h)
  then show ?case by (auto simp: guess_inv_def relock_on_transport_reset_def drop_live_secrets_def Let_def)
next
  case (repowers n h e m)
  then show ?case
    using boot_prod_reliable [of "h_flash h" cfg e m] assms(3) boot_no_recovery [of P e m "h_flash h"] by (auto simp: guess_inv_def)
qed (use assms(2) in \<open>auto simp: guess_inv_def\<close>)

text \<open>After lockout: the stored key and the used-up counter stay, and while there is a stored key the device is
  locked out.\<close>

definition final_inv :: "device_config \<Rightarrow> key_blob option \<Rightarrow> ('e, 'm, 'f, 'r) hsm \<Rightarrow> bool" where
  "final_inv cfg kb h \<longleftrightarrow> healthy (h_flash h) \<and> h_config h = Some cfg \<and> \<not> h_physical_recovery_authorized h
    \<and> stored_config P (flash_of h) = Some cfg \<and> stored_blob P (flash_of h) = kb
    \<and> unat (max_retries cfg) \<le> used (h_flash h)
    \<and> (h_state h = LockedOut \<or> kb = None \<and> h_state h = ProdLocked)"

lemma final_inv_quiet:
  assumes "final_inv cfg kb h" and "quiet (flash_of h) (flash_of h') h h'" and "healthy (h_flash h')"
  shows "final_inv cfg kb h'"
proof -
  have "flash_of h' r = flash_of h r" if "r \<notin> {TimeA, TimeB}" for r using assms(2) that by (simp add: quiet_def)
  then have "stored_config P (flash_of h') = stored_config P (flash_of h)" "stored_blob P (flash_of h') = stored_blob P (flash_of h)"
    "used (h_flash h') = used (h_flash h)"
    by (auto intro!: stored_config_cong stored_blob_cong)
  then show ?thesis using assms by (auto simp: final_inv_def quiet_def)
qed

lemma final_inv_verified:
  assumes "final_inv cfg kb h" and "h_state h = ProdLocked" and "verify_pin P p h = Some (Inl m, h')"
  shows "final_inv cfg kb h'"
proof -
  have b: "stored_blob P (flash_of h) = None" using assms(1,2) by (auto simp: final_inv_def)
  then have "\<not> rejected_pin m" using verify_pin_charged [OF assms(3)] by blast
  moreover have "healthy (h_flash h)" using assms(1) by (simp add: final_inv_def)
  ultimately have o: "same_session h h'" "used (h_flash h) \<le> used (h_flash h')" "healthy (h_flash h')"
    "\<And>r. r \<noteq> PinCounter \<Longrightarrow> flash_of h' r = flash_of h r"
    using verify_pin_other [OF assms(3)] by auto
  have "stored_config P (flash_of h') = stored_config P (flash_of h)" by (rule stored_config_cong) (use o(4) in auto)
  moreover have "stored_blob P (flash_of h') = stored_blob P (flash_of h)" by (rule stored_blob_cong) (use o(4) in auto)
  ultimately show ?thesis using o(1-3) assms(1) by (auto simp: final_inv_def same_session_def)
qed

lemma locked_run_inv:
  assumes "locked_run P h0 h" and "final_inv cfg kb h0" and "mode cfg = Prod"
  shows "final_inv cfg kb h"
  using assms(1)
proof (induction rule: locked_run.induct)
  case (asks h q resp h')
  then have i: "final_inv cfg kb h" by simp
  then have l: "h_state h \<in> {ProdLocked, LockedOut}" "h_config h \<noteq> None" "\<not> h_physical_recovery_authorized h" "healthy (h_flash h)"
    by (auto simp: final_inv_def)
  have "\<not> presents_right_pin P h q" if "h_state h = ProdLocked"
    using i that verify_pin_Inr by (fastforce simp: presents_right_pin_def right_pin_def final_inv_def)
  from asks(2) l(1-3) this l(4) show ?case
    by (cases rule: handle_request_locked) (use final_inv_quiet [OF i] final_inv_verified [OF i] in auto)
next
  case (relocks h)
  then show ?case by (auto simp: final_inv_def relock_on_transport_reset_def drop_live_secrets_def Let_def)
next
  case (repowers h e m)
  then show ?case
    using boot_prod_reliable [of "h_flash h" cfg e m] assms(3) boot_no_recovery [of P e m "h_flash h"] by (auto simp: final_inv_def)
qed (use assms(2) in \<open>auto simp: final_inv_def\<close>)

end

end
