(* ===== verification/Sample.thy ===== *)
theory Sample
  imports Provisioning Guessing
begin

text \<open>
  A concrete device for the examples: the in-memory HAL of \<^verbatim>\<open>hsm-core/src/testhal.rs\<close> with a counting
  entropy source and the sample crates, booted on blank flash and initialised for production.
\<close>

definition sample_platform :: "(nat, mock_clock, mock_flash, nat) platform" where
  "sample_platform = \<lparr> px = sample_externs, pe = counting_entropy, pm = mock_clock_ops, pf = mock_ops, pw = 64 \<rparr>"

lemma sample_platform_simps [simp]:
  "px sample_platform = sample_externs" "pe sample_platform = counting_entropy" "pm sample_platform = mock_clock_ops"
  "pf sample_platform = mock_ops" "pw sample_platform = 64"
  by (simp_all add: sample_platform_def)

interpretation sample: hsm_reliable sample_platform mock_content mock_healthy
  by (simp add: hsm_reliable_def mock.reliable_flash_axioms)

context hsm_reliable
begin

lemma boot_blank_reliable:
  assumes "healthy f" and "stored_config P (content f) = None"
  shows "healthy (h_flash (boot P e m f))" "flash_of (boot P e m f) = content f"
    "fs_device_secret (pf P) (h_flash (boot P e m f)) = fs_device_secret (pf P) f" "h_config (boot P e m f) = None"
    "h_state (boot P e m f) = Uninitialized" "h_mono (boot P e m f) = m" "h_clock (boot P e m f) = clock_new"
    "h_ca_pubkey (boot P e m f) = map_option pubkey (stored_blob P (content f))"
proof -
  obtain x dr e1 where s: "drbg_seed (px P) (pe P) (drbg_new (px P)) e = (x, dr, e1)" by (metis prod.exhaust)
  obtain h where bt: "boot P e m f = load_from_flash P h" and hf: "h_flash h = f" "h_mono h = m" "h_clock h = clock_new"
    by (auto simp: boot_def s Let_def)
  from assms(1) hf have "healthy (h_flash h)" by simp
  then obtain g fl un where "healthy g" "content g = content f" "fs_device_secret (pf P) g = fs_device_secret (pf P) f"
    "boot P e m f = h\<lparr>h_flash := g, h_trusted_time_floor := fl, h_trusted_time_floor_unavailable := un,
       h_ca_pubkey := map_option pubkey (stored_blob P (content f)), h_wrap_salt := None,
       h_config := None, h_state := Uninitialized, h_ca := None, h_wrap_kek := None, h_pin_backoff_until_ms := 0\<rparr>"
    by (rule load_from_flash_reliable) (auto simp: bt hf assms Let_def)
  then show "healthy (h_flash (boot P e m f))" "flash_of (boot P e m f) = content f"
    "fs_device_secret (pf P) (h_flash (boot P e m f)) = fs_device_secret (pf P) f" "h_config (boot P e m f) = None"
    "h_state (boot P e m f) = Uninitialized" "h_mono (boot P e m f) = m" "h_clock (boot P e m f) = clock_new"
    "h_ca_pubkey (boot P e m f) = map_option pubkey (stored_blob P (content f))"
    using hf by simp_all
qed

end

definition sample_boot :: "(nat, mock_clock, mock_flash, nat) hsm" where
  "sample_boot = boot sample_platform 0 (mock_at 0) mock_flash_new"

lemma sample_boot_simps [simp]:
  "mock_healthy (h_flash sample_boot)" "mock_content (h_flash sample_boot) = (\<lambda>_. erased_sector)"
  "device_secret (h_flash sample_boot) = Inr MOCK_DEVICE_SECRET" "h_config sample_boot = None"
  "h_state sample_boot = Uninitialized" "h_mono sample_boot = mock_at 0" "h_clock sample_boot = clock_new"
proof -
  have "stored_config sample_platform (mock_content mock_flash_new) = None" by (simp add: stored_config_def)
  note b = sample.boot_blank_reliable [OF mock_healthy_new this, of 0 "mock_at 0"]
  show "mock_healthy (h_flash sample_boot)" "mock_content (h_flash sample_boot) = (\<lambda>_. erased_sector)"
    "device_secret (h_flash sample_boot) = Inr MOCK_DEVICE_SECRET" "h_config sample_boot = None"
    "h_state sample_boot = Uninitialized" "h_mono sample_boot = mock_at 0" "h_clock sample_boot = clock_new"
    using b by (simp_all add: sample_boot_def) (simp add: mock_flash_new_def mock_ops_def)
qed

lemma sample_entropy: "fst (prepare_keygen_entropy sample_platform h) = Inr ()"
  by (auto simp: prepare_keygen_entropy_def ensure_seeded_def hsm_reseed_def drbg_seed_def drbg_reseed_def counting_gather Let_def
      split: prod.splits sum.splits if_splits)

lemma sample_pin_kek: "\<exists>kek. pin_kek sample_externs pin slt DEFAULT_ARGON secret = Inr kek"
  by (simp add: pin_kek_def sample_externs_def DEFAULT_ARGON_def)

definition sample_init_req :: init_req where
  "sample_init_req = \<lparr> ir_mode = ''prod'', ir_pin = Some ''123456'', ir_max_retries = Some 3, ir_wipe_on_lockout = None \<rparr>"

lemma sample_init:
  obtains resp h where "hsm_init sample_platform sample_init_req sample_boot = (resp, h)" "\<not> is_err resp"
proof -
  have "\<exists>resp h. init_prod sample_platform sample_init_req sample_boot = (resp, h) \<and> \<not> is_err resp"
    by (rule sample.init_prod_succeeds [where secret = MOCK_DEVICE_SECRET and pin = "''123456''"])
      (simp_all add: sample_entropy sample_pin_kek sample_init_req_def pin_len_ok_def PIN_MIN_def PIN_MAX_def unwrap_or_def)
  then show thesis using that by (auto simp: hsm_init_def sample_init_req_def)
qed

lemma sample_keyed:
  obtains h seed where "keyed sample_platform mock_content mock_healthy h ''123456'' seed" "h_state h = ProdLocked"
    "\<exists>resp. hsm_init sample_platform sample_init_req sample_boot = (resp, h) \<and> \<not> is_err resp"
proof -
  obtain resp h where i: "hsm_init sample_platform sample_init_req sample_boot = (resp, h)" "\<not> is_err resp"
    using sample_init .
  then have "init_prod sample_platform sample_init_req sample_boot = (resp, h)"
    by (simp add: hsm_init_def sample_init_req_def)
  then obtain seed where "keyed sample_platform mock_content mock_healthy h ''123456'' seed" "h_state h = ProdLocked"
    by (rule sample.init_prod_keyed) (use i(2) in \<open>simp_all add: sample_init_req_def\<close>)
  then show thesis using that i by blast
qed

section \<open>Flashed devices\<close>

text \<open>A flash that holds a given key and configuration, and the production device that a PIN opens.\<close>

lemma sample_flash:
  assumes "key_blob_ok blob" and "device_config_ok cfg"
  obtains f where "mock_healthy f" "stored_config sample_platform (mock_content f) = Some cfg"
    "stored_blob sample_platform (mock_content f) = Some blob" "device_secret f = Inr MOCK_DEVICE_SECRET"
    "\<And>r. r \<in> {TimeA, TimeB, PinCounter} \<Longrightarrow> mock_content f r = erased_sector"
    "ab_max_seq (crc_of sample_platform) KEY (mock_content f) = 1"
proof -
  let ?P = sample_platform
  have a: "mock_healthy (h_flash sample_boot)" "ab_max_seq (crc_of ?P) KEY (mock_content (h_flash sample_boot)) \<noteq> - 1"
    by simp_all
  obtain h1 where st: "store ?P KEY (key_blob_to_bytes blob) sample_boot = (Inr (), h1)"
    and 1: "mock_healthy (h_flash h1)" "stored_blob ?P (mock_content (h_flash h1)) = Some blob"
    "\<And>r. r \<notin> {KeyA, KeyB} \<Longrightarrow> mock_content (h_flash h1) r = mock_content (h_flash sample_boot) r"
    "fs_device_secret (pf ?P) (h_flash h1) = fs_device_secret (pf ?P) (h_flash sample_boot)"
    by (rule sample.store_key [OF a(1) assms(1) a(2)]) metis
  have seq: "ab_max_seq (crc_of ?P) KEY (mock_content (h_flash h1)) = 1"
    using sample.store_ok(1) [OF st] parse_record_sector key_codec.enc_fits [OF assms(1)]
    by (simp add: ab_defs unwrap_or_def KEY_def HEADER_def SECTOR_LEN_def)
  have b: "ab_max_seq (crc_of ?P) CONFIG (mock_content (h_flash h1)) \<noteq> - 1"
    using 1(3) by (simp add: CONFIG_def ab_defs)
  obtain h2 where "store ?P CONFIG (device_config_to_bytes cfg) h1 = (Inr (), h2)"
    and 2: "mock_healthy (h_flash h2)" "stored_config ?P (mock_content (h_flash h2)) = Some cfg"
    "\<And>r. r \<notin> {ConfigA, ConfigB} \<Longrightarrow> mock_content (h_flash h2) r = mock_content (h_flash h1) r"
    "fs_device_secret (pf ?P) (h_flash h2) = fs_device_secret (pf ?P) (h_flash h1)"
    by (rule sample.store_config [OF 1(1) assms(2) b]) metis
  have "stored_blob ?P (mock_content (h_flash h2)) = stored_blob ?P (mock_content (h_flash h1))"
    by (rule sample.stored_blob_cong) (use 2(3) in auto)
  with 1(2) have "stored_blob ?P (mock_content (h_flash h2)) = Some blob" by simp
  moreover have "device_secret (h_flash h2) = Inr MOCK_DEVICE_SECRET" using 1(4) 2(4) by simp
  moreover have "mock_content (h_flash h2) r = erased_sector" if "r \<in> {TimeA, TimeB, PinCounter}" for r
    using that 1(3) [of r] 2(3) [of r] by auto
  moreover have "ab_max_seq (crc_of ?P) KEY (mock_content (h_flash h2)) = 1"
    using seq 2(3) by (simp add: KEY_def ab_defs)
  ultimately show thesis using that [OF 2(1,2)] by blast
qed

definition sample_prod_config :: device_config where
  "sample_prod_config = \<lparr> mode = Prod, argon2 = DEFAULT_ARGON, max_retries = 3, wipe_on_lockout = False,
     fw_version = fw_version_triple \<rparr>"

lemma sample_prod_config_simps [simp]: "mode sample_prod_config = Prod" "max_retries sample_prod_config = 3"
  "argon2 sample_prod_config = DEFAULT_ARGON" "device_config_ok sample_prod_config"
  by (simp_all add: sample_prod_config_def device_config_ok_def fw_version_triple_def Let_def)

lemma sample_prod_with:
  assumes "mode cfg = Prod" and "argon2 cfg = DEFAULT_ARGON" and "max_retries cfg \<noteq> 0" and "device_config_ok cfg"
  obtains f h where "h = boot sample_platform 0 (mock_at 0) f" "keyed sample_platform mock_content mock_healthy h ''123456'' (replicate 32 7)"
    "h_state h = ProdLocked" "h_config h = Some cfg" "mock_content f PinCounter = erased_sector"
    "ab_max_seq (crc_of sample_platform) KEY (mock_content (h_flash h)) = 1" "mock_healthy f"
    "stored_config sample_platform (mock_content f) = Some cfg" "stored_blob sample_platform (mock_content f) \<noteq> None"
    "device_secret (h_flash h) = Inr MOCK_DEVICE_SECRET"
proof -
  let ?P = sample_platform and ?slt = "replicate 16 (3 :: 8 word)" and ?seed = "replicate 32 (7 :: 8 word)"
  obtain kek where kek: "pin_kek sample_externs (as_bytes ''123456'') ?slt DEFAULT_ARGON MOCK_DEVICE_SECRET = Inr kek"
    using sample_pin_kek by blast
  let ?pk = "public_bytes sample_externs (ca_from_seed ?seed)"
  let ?blob = "wrap_seed sample_externs kek ?seed ?pk PinKek ?slt (replicate 12 5)"
  have ok: "key_blob_ok ?blob"
    by (rule wrap_seed_ok [OF sample_externs_ok(1)]) (simp_all add: sample_externs_def public_bytes_def ca_from_seed_def)
  obtain f where f: "mock_healthy f" "stored_config ?P (mock_content f) = Some cfg"
    "stored_blob ?P (mock_content f) = Some ?blob" "device_secret f = Inr MOCK_DEVICE_SECRET"
    "\<And>r. r \<in> {TimeA, TimeB, PinCounter} \<Longrightarrow> mock_content f r = erased_sector"
    "ab_max_seq (crc_of ?P) KEY (mock_content f) = 1"
    using sample_flash [OF ok assms(4)] by auto
  have u: "count_used (mock_content f PinCounter) = 0" using f(5) [of PinCounter] by simp
  note b = sample.boot_prod_reliable [OF f(1,2) assms(1), of 0 "mock_at 0"]
  let ?h = "boot ?P 0 (mock_at 0) f"
  have "opens ?P cfg MOCK_DEVICE_SECRET ''123456'' ?blob kek ?seed"
    using opens_wrapped [of ?P "''123456''" ?slt cfg MOCK_DEVICE_SECRET kek] kek assms(2) by simp
  moreover have "pubkey ?blob = ?pk" by (simp add: wrap_seed_def split: prod.split)
  moreover have "salt ?blob = ?slt" by (simp add: wrap_seed_def split: prod.split)
  ultimately have "keyed ?P mock_content mock_healthy ?h ''123456'' ?seed"
    using b f u assms(1,3) by (auto simp: keyed_def)
  moreover have "h_state ?h = ProdLocked" using b(5) u assms(3) by (simp add: unat_eq_zero)
  ultimately show thesis using that [OF refl] b(2,4) b(3) [simplified] f by simp
qed

lemma sample_prod:
  obtains f h where "h = boot sample_platform 0 (mock_at 0) f" "keyed sample_platform mock_content mock_healthy h ''123456'' (replicate 32 7)"
    "h_state h = ProdLocked" "h_config h = Some sample_prod_config" "mock_content f PinCounter = erased_sector"
    "ab_max_seq (crc_of sample_platform) KEY (mock_content (h_flash h)) = 1" "mock_healthy f"
    "stored_config sample_platform (mock_content f) = Some sample_prod_config" "stored_blob sample_platform (mock_content f) \<noteq> None"
    "device_secret (h_flash h) = Inr MOCK_DEVICE_SECRET"
  by (rule sample_prod_with [of sample_prod_config]) (simp_all add: that)

section \<open>A wrong PIN\<close>

lemma reject_pin_rejected: "reject_pin P cfg n h = (resp, h') \<Longrightarrow> rejected_pin resp"
  by (auto simp: reject_pin_def Let_def split: if_splits prod.splits)

lemma sample_wrong_pin:
  assumes "opens sample_platform cfg secret ''123456'' blob kek seed" and "argon2 cfg = DEFAULT_ARGON"
  obtains kek' where "pin_kek sample_externs (as_bytes ''654321'') (salt blob) (argon2 cfg) secret = Inr kek'"
    "unwrap_seed sample_externs kek' blob = Inl Auth"
proof -
  let ?k = "\<lambda>pin. take 32 (take 32 (as_bytes pin @ salt blob @ replicate 32 0) @ replicate 32 0)"
  have k: "pin_kek sample_externs (as_bytes pin) (salt blob) (argon2 cfg) secret = Inr (?k pin)" for pin
    using assms(2) by (simp add: pin_kek_def sample_externs_def DEFAULT_ARGON_def)
  have "tag blob = take 16 (?k ''123456'' @ replicate 16 0)"
    using assms(1) k [of "''123456''"] by (simp add: opens_def unwrap_seed_def sample_externs_def split: if_splits)
  moreover have "hd (take 16 (?k ''123456'' @ replicate 16 0)) \<noteq> hd (take 16 (?k ''654321'' @ replicate 16 0))"
    by (simp add: as_bytes_def)
  ultimately have "tag blob \<noteq> take 16 (?k ''654321'' @ replicate 16 0)" by metis
  then have "unwrap_seed sample_externs (?k ''654321'') blob = Inl Auth"
    by (simp add: unwrap_seed_def sample_externs_def)
  then show thesis using that [OF k] by blast
qed

lemma sample_wrong_unlock:
  assumes "keyed sample_platform mock_content mock_healthy h ''123456'' seed" and "h_state h = ProdLocked"
    and "h_config h = Some cfg" and "argon2 cfg = DEFAULT_ARGON"
  obtains resp h' where "hsm_unlock sample_platform \<lparr> ur_pin = ''654321'' \<rparr> h = Some (resp, h')" "rejected_pin resp"
proof -
  let ?P = sample_platform
  from assms(1,3) obtain blob secret kek where c: "mock_healthy (h_flash h)"
    "stored_blob ?P (mock_content (h_flash h)) = Some blob" "fs_device_secret (pf ?P) (h_flash h) = Inr secret"
    "count_used (mock_content (h_flash h) PinCounter) = 0" "opens ?P cfg secret ''123456'' blob kek seed"
    by (auto simp: keyed_def)
  obtain kek' where w: "pin_kek (px ?P) (as_bytes ''654321'') (salt blob) (argon2 cfg) secret = Inr kek'"
    "unwrap_seed sample_externs kek' blob = Inl Auth"
    using sample_wrong_pin [OF c(5) assms(4)] by auto
  obtain n f where v: "verify_pin ?P ''654321'' h = Some (let (resp, h2) = reject_pin ?P cfg n (h\<lparr>h_flash := f\<rparr>) in (Inl resp, h2))"
    by (rule sample.verify_pin_forward [OF c(1) assms(3) disjI1 [OF c(4)] c(2,3) w(1)]) (use w(2) in simp)
  obtain resp h' where r: "reject_pin ?P cfg n (h\<lparr>h_flash := f\<rparr>) = (resp, h')" by fastforce
  have "hsm_unlock ?P \<lparr> ur_pin = ''654321'' \<rparr> h = Some (resp, h')"
    using assms(2) v r by (simp add: hsm_unlock_def)
  then show thesis using that reject_pin_rejected [OF r] by blast
qed

text \<open>The unlock request as a whole message.\<close>

definition unlock_request :: "string \<Rightarrow> request" where
  "unlock_request pin = request_default\<lparr>rq_hsm := Some (hsm_request_default\<lparr>hq_unlock := Some \<lparr> ur_pin = pin \<rparr>\<rparr>)\<rparr>"

lemma handle_unlock_request:
  "handle_request P (unlock_request pin) h
    = map_option (\<lambda>(m, h1). (response_default\<lparr>rs_hsm := Some m\<rparr>, h1)) (hsm_unlock P \<lparr> ur_pin = pin \<rparr> h)"
  by (simp add: unlock_request_def handle_request_def handle_hsm_def request_default_def hsm_request_default_def count_set_def)

lemma unlock_request_wrong:
  assumes "hsm_unlock P \<lparr> ur_pin = pin \<rparr> h = Some (m, h')" and "rejected_pin m" and "h_state h = ProdLocked"
  shows "\<not> presents_right_pin P h (unlock_request pin)"
  using assms by (auto simp: presents_right_pin_def right_pin_def unlock_request_def presented_pin_def hsm_request_default_def
      hsm_unlock_def request_default_def)

end
