(* ===== verification/Signing.thy ===== *)
theory Signing
  imports Device
begin

text \<open>
  The signing path end to end: what it takes to obtain a certificate, and what the certificate says.
\<close>

lemma i64_div_pos:
  assumes "0 \<le> sint a" and "0 < sint b"
  shows "sint (i64_div a b) = sint a div sint b"
proof -
  have "sint a div sint b \<le> sint a div 1" using assms by (intro zdiv_mono2) simp_all
  then have "sint a div sint b \<le> sint a" by simp
  moreover have "0 \<le> sint a div sint b" using assms by (simp add: pos_imp_zdiv_nonneg_iff)
  ultimately have "i64_in_range (sint a div sint b)" using sint_range64 [of a] by (simp add: i64_in_range_def)
  moreover have "sgn (sint a) * sgn (sint b) * (\<bar>sint a\<bar> div \<bar>sint b\<bar>) = sint a div sint b"
    using assms by (cases "sint a = 0") auto
  ultimately show ?thesis by (simp add: i64_div_def sint_word_of_int64)
qed

lemma now_unix_range:
  assumes "clock_inv (now_micros mo m) c" and "now_unix mo m c = Some (Some t)"
  shows "1600000000 \<le> sint t" and "sint t < 2 ^ 47"
proof -
  obtain a e where ae: "trust_anchor_unix c = Some a" "epoch_unix c = Some e"
    using assms by (auto simp: clock_inv_def now_unix_def split: option.splits)
  have "sint t = sint e + elapsed (now_micros mo m) (epoch_mono_us c)"
    using assms(2) ae by (auto simp: now_unix_def Let_def sint_elapsed dest: sint_i64_checked_add)
  moreover have "1700000000 \<le> sint a" "sint a \<le> 4853600000"
    "\<bar>sint e - (sint a + elapsed (epoch_mono_us c) (trust_anchor_mono_us c))\<bar> \<le> 900"
    using assms(1) ae by (simp_all add: clock_inv_def)
  ultimately show "1600000000 \<le> sint t" and "sint t < 2 ^ 47"
    using elapsed_bounds [of "now_micros mo m" "epoch_mono_us c"]
      elapsed_bounds [of "epoch_mono_us c" "trust_anchor_mono_us c"] by simp_all
qed

text \<open>The validity window, as integers: nothing wraps.\<close>

lemma uint_of_sint: "0 \<le> sint (w :: i64) \<Longrightarrow> uint w = sint w"
  using uint_word_of_int64 [of "sint w"] sint_range64 [of w] by simp

lemma cert_window:
  assumes "1600000000 \<le> sint now" and "sint now < 2 ^ 47"
    and "0 < sint (v_duration_ns v)" and "sint (v_duration_ns v) \<le> 24 * 3600 * 10 ^ 9"
  shows "uint (cp_valid_after (cert_params_of req v now nonce serial)) = sint now - 300"
    and "uint (cp_valid_before (cert_params_of req v now nonce serial)) = sint now + sint (v_duration_ns v) div 10 ^ 9"
    and "sint (v_duration_ns v) div 10 ^ 9 \<le> 86400"
proof -
  let ?d = "i64_div (v_duration_ns v) 1000000000"
  have d: "sint ?d = sint (v_duration_ns v) div 10 ^ 9" using assms(3) by (simp add: i64_div_pos)
  show le: "sint (v_duration_ns v) div 10 ^ 9 \<le> 86400" using zdiv_mono1 [OF assms(4), of "10 ^ 9"] by simp
  have nn: "0 \<le> sint ?d" using assms(3) by (simp add: d pos_imp_zdiv_nonneg_iff)
  have "now - 300 = word_of_int (sint now - 300)" by simp
  then show "uint (cp_valid_after (cert_params_of req v now nonce serial)) = sint now - 300"
    using uint_word_of_int64 [of "sint now - 300"] assms(1,2) by (simp add: cert_params_of_def Let_def)
  have "now + ?d = word_of_int (sint now + sint ?d)" by simp
  then show "uint (cp_valid_before (cert_params_of req v now nonce serial)) = sint now + sint (v_duration_ns v) div 10 ^ 9"
    using uint_word_of_int64 [of "sint now + sint ?d"] assms(1,2) le nn d by (simp add: cert_params_of_def Let_def)
qed

text \<open>A signed certificate only ever comes out of the sign handler.\<close>

lemma handle_request_signed:
  assumes "handle_request P q h = Some (resp, h')" and "rs_sign_ssh_key resp = Some sg"
  obtains req where "rq_sign_ssh_key q = Some req" "handle_sign P req h = Some (resp, h')"
  using assms
  by (auto simp: handle_request_def handle_load_key_signer_def handle_ping_def handle_metrics_def response_error_def Let_def
      split: if_splits option.splits)

lemma ensure_seeded_ok: "ensure_seeded P h = (Inr u, h') \<Longrightarrow> seeded (h_drbg h')"
  by (auto simp: ensure_seeded_def elim: drbg_seed_ok split: if_splits prod.splits)

lemma handle_sign_signed:
  assumes "handle_sign P req h = Some (resp, h')" and "rs_sign_ssh_key resp = Some sg"
  obtains ca now v nonce serial where "signer_ready (h_state h)" "h_ca h = Some ca"
    "now_unix (pm P) (h_mono h) (h_clock h) = Some (Some now)" "validate (px P) (pw P) req = Some (Inr v)"
    "sg_signed_key sg = build_certificate (px P) (cert_params_of req v now nonce serial) ca"
    "seeded (h_drbg h')"
proof -
  obtain r1 h1 where 1: "ensure_seeded P h = (r1, h1)" by fastforce
  obtain nonce h2 where 2: "hsm_random P 32 h1 = (nonce, h2)" by fastforce
  obtain serial d where 3: "drbg_next_u64 (px P) (h_drbg h2) = (serial, d)" by fastforce
  have ca: "h_ca h2 = h_ca h" using 1 2 by (auto dest!: frames simp: same_session_def)
  have "seeded d = seeded (h_drbg h2)" using 3 by (metis drbg_frame(5) snd_conv)
  also have "\<dots> = seeded (h_drbg h1)"
    using 2 by (auto simp: hsm_random_def split: prod.splits) (metis drbg_frame(4) snd_conv)+
  finally have sd: "seeded d" if "r1 = Inr ()" using ensure_seeded_ok 1 that by blast
  show thesis
    using assms 1 2 3 ca sd that [of _ _ _ nonce serial]
    by (auto simp: handle_sign_def response_error_def Let_def split: if_splits option.splits sum.splits)
qed

end
