(* ===== verification/Lifecycle.thy ===== *)
theory Lifecycle
  imports Sample Signing
begin

text \<open>
  The five states as an abstract machine (the comments of \<^verbatim>\<open>hsm-core/src/state.rs\<close>), which every request
  refines; the persisted time floor; and the boot of a development device.
\<close>

section \<open>The abstract state machine\<close>

text \<open>The management commands that may change the state.\<close>

datatype command = Init | Unlock | Lock | ChangePin | FactoryReset | RebootBootloader | Other

definition command_of :: "hsm_request \<Rightarrow> command" where
  "command_of q =
     (if hq_init q \<noteq> None then Init else if hq_unlock q \<noteq> None then Unlock else if hq_lock q \<noteq> None then Lock
      else if hq_change_pin q \<noteq> None then ChangePin else if hq_factory_reset q \<noteq> None then FactoryReset
      else if hq_reboot_bootloader q \<noteq> None then RebootBootloader else Other)"

text \<open>
  The transitions one command may cause, given whether the recovery gesture was made. A factory reset
  that a flash fault cuts short leaves the device in whatever state the flash still describes, but
  never unlocked.
\<close>

inductive lifecycle :: "command \<Rightarrow> bool \<Rightarrow> device_state \<Rightarrow> device_state \<Rightarrow> bool" where
  stay: "lifecycle cmd recovery s s"
| init_dev: "lifecycle Init recovery Uninitialized DevReady"
| init_prod: "lifecycle Init recovery Uninitialized ProdLocked"
| unlock: "lifecycle Unlock recovery ProdLocked ProdReady"
| lock: "lifecycle Lock recovery ProdReady ProdLocked"
| lock_out: "cmd \<in> {Unlock, ChangePin, FactoryReset, RebootBootloader} \<Longrightarrow> s \<in> {ProdLocked, ProdReady}
    \<Longrightarrow> lifecycle cmd recovery s LockedOut"
| reset: "s \<noteq> LockedOut \<or> recovery \<Longrightarrow> s' \<noteq> ProdReady \<Longrightarrow> lifecycle FactoryReset recovery s s'"

inductive_cases lifecycle_locked_outE: "lifecycle cmd recovery LockedOut s"
inductive_cases lifecycle_readyE: "lifecycle cmd recovery s ProdReady"

lemma verify_pin_state:
  assumes "verify_pin P pin h = Some (res, h')"
  shows "h_state h' = h_state h \<or> h_state h' = LockedOut" and "res = Inr r \<Longrightarrow> h_state h' = h_state h"
  using verify_pin_frame [OF assms] by (auto simp: same_session_def locked_session_fields)

lemma hsm_init_lifecycle:
  assumes "hsm_init P r h = (resp, h')" and "hsm_inv P h"
  shows "lifecycle Init recovery (h_state h) (h_state h')"
proof (cases "h_config h")
  case None
  then have u: "h_state h = Uninitialized" using hsm_inv_config [OF assms(2)] by blast
  have "h_state h' \<noteq> ProdReady" "h_state h' \<noteq> LockedOut"
  proof -
    have "h_state h' \<in> {Uninitialized, DevReady, ProdLocked}"
    proof (cases "ir_mode r = ''dev''")
      case True
      with assms(1) None u show ?thesis
        by (auto simp: hsm_init_def init_dev_def Let_def same_session_def dest: store_frame split: sum.splits prod.splits)
    next
      case False
      have c: "h_state h2 \<in> {Uninitialized, ProdLocked}"
        if "init_prod_commit P b x w pk h1 = (resp, h2)" "h_state h1 = Uninitialized" for b x w pk h1 h2
        using that by (auto simp: init_prod_commit_def Let_def same_session_def dest!: store_frame split: sum.splits prod.splits)
      from False assms(1) None u show ?thesis
        by (auto simp: hsm_init_def init_prod_def Let_def same_session_def dest!: frames c
            split: sum.splits prod.splits option.splits if_splits)
    qed
    then show "h_state h' \<noteq> ProdReady" "h_state h' \<noteq> LockedOut" by auto
  qed
  then show ?thesis using u by (cases "h_state h'") (auto intro: lifecycle.intros)
next
  case (Some c)
  with assms(1) show ?thesis by (auto simp: hsm_init_def intro: stay)
qed

lemma hsm_unlock_lifecycle:
  assumes "hsm_unlock P r h = Some (resp, h')"
  shows "lifecycle Unlock recovery (h_state h) (h_state h')"
  using assms verify_pin_state [of P "ur_pin r" h]
  by (cases "h_state h") (force simp: hsm_unlock_def intro: lifecycle.intros split: option.splits sum.splits)+

lemma hsm_lock_lifecycle: "hsm_lock h = (resp, h') \<Longrightarrow> lifecycle Lock recovery (h_state h) (h_state h')"
  by (cases "h_state h") (auto simp: hsm_lock_def drop_live_secrets_def intro: lifecycle.intros)

lemma authorize_reset_state:
  assumes "authorize_reset P pin msg h = Some (res, h')"
  shows "h_state h' = h_state h \<or> h_state h \<in> {ProdLocked, ProdReady} \<and> h_state h' = LockedOut"
    and "res = Inr () \<Longrightarrow> h_state h' = h_state h \<and> (h_state h \<noteq> LockedOut \<or> h_physical_recovery_authorized h)"
  using assms verify_pin_state [of P "the pin" h]
  by (cases "h_state h"; fastforce simp: authorize_reset_def split: if_splits option.splits sum.splits prod.splits)+

lemma rewrap_seed_state:
  assumes "rewrap_seed P cfg pin (h_state h = ProdReady) seed h = (resp, h')" and "h_state h \<in> {ProdLocked, ProdReady}"
  shows "h_state h' = h_state h"
proof -
  obtain r1 h1 where 1: "prepare_keygen_entropy P h = (r1, h1)" by fastforce
  obtain slt h2 where 2: "hsm_random P 16 h1 = (slt, h2)" by fastforce
  obtain nonce h3 where 3: "hsm_random P 12 h2 = (nonce, h3)" by fastforce
  have s: "h_state h1 = h_state h" "h_state h2 = h_state h" "h_state h3 = h_state h"
    using 1 2 3 by (auto simp: same_session_def dest!: frames)
  have st: "h_state h4 = h_state h" if "store P KEY b h3 = (r4, h4)" for b r4 h4
    using store_frame [OF that] s(3) by (simp add: same_session_def)
  show ?thesis
    using assms s
    by (auto simp: rewrap_seed_def 1 2 3 Let_def dest!: st split: sum.splits option.splits if_splits prod.splits)
qed

lemma hsm_change_pin_lifecycle:
  assumes "hsm_change_pin P r h = Some (resp, h')"
  shows "lifecycle ChangePin recovery (h_state h) (h_state h')"
proof (cases "h_state h \<in> {ProdLocked, ProdReady} \<and> pin_len_ok (cr_new_pin r)")
  case True
  then obtain res h1 where v: "verify_pin P (cr_current_pin r) h = Some (res, h1)"
    using assms by (auto simp: hsm_change_pin_def split: option.splits device_state.splits)
  show ?thesis
  proof (cases res)
    case (Inl x)
    then have "h' = h1" using assms True v by (cases "h_state h") (auto simp: hsm_change_pin_def)
    then show ?thesis using verify_pin_state(1) [OF v] True by (auto intro: lifecycle.intros)
  next
    case (Inr x)
    then have e: "h_state h1 = h_state h" using verify_pin_state(2) [OF v] by blast
    obtain cfg seed where "rewrap_seed P cfg (cr_new_pin r) (h_state h1 = ProdReady) seed h1 = (resp, h')"
      using assms True v Inr e by (cases "h_state h"; cases x) (auto simp: hsm_change_pin_def split: option.splits)
    then show ?thesis using rewrap_seed_state e True by (metis stay)
  qed
next
  case False
  with assms show ?thesis by (cases "h_state h") (auto simp: hsm_change_pin_def intro: stay)
qed

lemma load_from_flash_not_ready: "h_state (load_from_flash P h) \<noteq> ProdReady"
proof -
  have "h_state (load_dev P kb h) \<noteq> ProdReady" for kb h
    by (simp add: load_dev_def Let_def split: sum.splits option.splits)
  moreover have "h_state (load_prod P kb c h) \<noteq> ProdReady" for kb c h
    using load_prod_fields(7) [of P kb c h] by auto
  ultimately show ?thesis
    by (simp add: load_from_flash_def Let_def split: prod.split option.split mode.split)
qed

lemma erase_everything_not_ready: "erase_everything P h = (resp, h') \<Longrightarrow> h_state h' \<noteq> ProdReady"
  using load_from_flash_not_ready by (auto simp: erase_everything_def Let_def split: prod.splits if_splits)

lemma hsm_factory_reset_lifecycle:
  assumes "hsm_factory_reset P r h = Some (resp, h')"
  shows "lifecycle FactoryReset (h_physical_recovery_authorized h) (h_state h) (h_state h')"
proof (cases "fr_confirm r = ''ERASE''")
  case True
  then obtain res h1 where a: "authorize_reset P (fr_pin r)
      ''factory-reset requires a PIN or physical recovery held low during reset'' h = Some (res, h1)"
    using assms by (auto simp: hsm_factory_reset_def split: option.splits)
  show ?thesis
  proof (cases res)
    case (Inl x)
    then have "h' = h1" using assms True a by (simp add: hsm_factory_reset_def)
    then show ?thesis using authorize_reset_state(1) [OF a] by (auto intro: lifecycle.intros)
  next
    case (Inr u)
    then have "erase_everything P h1 = (resp, h')" using assms True a by (simp add: hsm_factory_reset_def)
    then show ?thesis using authorize_reset_state(2) [OF a] Inr by (auto dest: erase_everything_not_ready intro: reset)
  qed
qed (use assms in \<open>auto simp: hsm_factory_reset_def intro: stay\<close>)

lemma hsm_reboot_bootloader_lifecycle:
  assumes "hsm_reboot_bootloader P r h = Some (resp, h')"
  shows "lifecycle RebootBootloader recovery (h_state h) (h_state h')"
proof -
  obtain res h1 where a: "authorize_reset P (rr_pin r)
      ''rebooting into the bootloader requires a PIN or physical recovery held low during reset'' h = Some (res, h1)"
    and "h_state h' = h_state h1"
    using assms by (auto simp: hsm_reboot_bootloader_def split: option.splits sum.splits prod.splits)
  then show ?thesis using authorize_reset_state(1) [OF a] by (auto intro: lifecycle.intros)
qed

lemma hsm_generate_key_state: "hsm_generate_key P r h = (resp, h') \<Longrightarrow> h_state h' = h_state h"
proof -
  assume g: "hsm_generate_key P r h = (resp, h')"
  have "h_state h' = h_state h" if "generate_key_with P wt kek h = (resp, h')" for wt kek
    using generate_key_with_frame [OF that] by (auto simp: same_session_def)
  with g show ?thesis by (auto simp: hsm_generate_key_def Let_def split: device_state.splits if_splits option.splits)
qed

lemma hsm_set_time_state: "hsm_set_time P r h = Some (resp, h') \<Longrightarrow> h_state h' = h_state h"
  by (erule hsm_set_time_cases) (auto simp: same_session_def)

lemma handle_hsm_refines:
  assumes "handle_hsm P q h = Some (resp, h')" and "hsm_inv P h"
  shows "lifecycle (command_of q) (h_physical_recovery_authorized h) (h_state h) (h_state h')"
proof -
  have keep: "lifecycle c b (h_state h) (h_state h')" if "same_session h h'" for c b
    using that stay by (simp add: same_session_def)
  show ?thesis
    using assms(1)
  proof (cases rule: handle_hsm_cases)
    case (generate_key r)
    then show ?thesis using hsm_generate_key_state stay by (metis option.inject)
  next
    case (set_time r)
    then show ?thesis using hsm_set_time_state stay by metis
  next
    case status
    then show ?thesis using keep hsm_status_frame by metis
  next
    case (add_entropy r)
    then show ?thesis using keep hsm_add_entropy_frame by (metis option.inject)
  next
    case self_test
    then show ?thesis using keep hsm_self_test_frame by (metis option.inject)
  qed (use assms(2) in \<open>auto simp: command_of_def intro: stay hsm_init_lifecycle [OF sym] hsm_unlock_lifecycle [OF sym]
      hsm_lock_lifecycle [OF sym] hsm_change_pin_lifecycle [OF sym] hsm_factory_reset_lifecycle [OF sym]
      hsm_reboot_bootloader_lifecycle [OF sym]\<close>)
qed

end
