(* ===== verification/TimeFloor.thy ===== *)
theory TimeFloor
  imports Lifecycle
begin

text \<open>
  The persisted time floor across power cycles, and the boot of a development device with its key.
\<close>

context hsm_reliable
begin

lemma boot_floor_reliable:
  assumes "healthy f"
  shows "h_trusted_time_floor (boot P e m f) = fst (stored_floor P (content f))"
    "h_trusted_time_floor_unavailable (boot P e m f) = snd (stored_floor P (content f))"
    "h_clock (boot P e m f) = clock_new" "h_physical_recovery_authorized (boot P e m f) = False"
    "h_mono (boot P e m f) = m"
proof -
  obtain x dr e1 where s: "drbg_seed (px P) (pe P) (drbg_new (px P)) e = (x, dr, e1)" by (metis prod.exhaust)
  obtain h where bt: "boot P e m f = load_from_flash P h" and hf: "h_flash h = f" "h_mono h = m" "h_clock h = clock_new"
    "h_physical_recovery_authorized h = False"
    by (auto simp: boot_def s Let_def)
  from assms hf have "healthy (h_flash h)" by simp
  then obtain g where g: "load_from_flash P h =
       (let kb = stored_blob P (content f);
            h1 = h\<lparr>h_flash := g, h_trusted_time_floor := fst (stored_floor P (content f)),
                   h_trusted_time_floor_unavailable := snd (stored_floor P (content f)),
                   h_ca_pubkey := map_option pubkey kb, h_wrap_salt := None\<rparr>
        in case stored_config P (content f) of
             None \<Rightarrow> h1\<lparr>h_config := None, h_state := Uninitialized, h_ca := None, h_wrap_kek := None,
                       h_pin_backoff_until_ms := 0\<rparr>
           | Some c \<Rightarrow> (case mode c of Dev \<Rightarrow> load_dev P kb (h1\<lparr>h_config := Some c\<rparr>)
                      | Prod \<Rightarrow> load_prod P kb c (h1\<lparr>h_config := Some c\<rparr>)))"
    by (rule load_from_flash_reliable) (simp add: hf)
  have k: "h_trusted_time_floor (load_dev P kb h) = h_trusted_time_floor h" "h_trusted_time_floor (load_prod P kb c h) = h_trusted_time_floor h"
    "h_trusted_time_floor_unavailable (load_dev P kb h) = h_trusted_time_floor_unavailable h"
    "h_trusted_time_floor_unavailable (load_prod P kb c h) = h_trusted_time_floor_unavailable h"
    "h_clock (load_dev P kb h) = h_clock h" "h_mono (load_dev P kb h) = h_mono h"
    "h_physical_recovery_authorized (load_dev P kb h) = h_physical_recovery_authorized h"
    "h_physical_recovery_authorized (load_prod P kb c h) = h_physical_recovery_authorized h" for kb c h
    by (simp_all add: load_dev_def load_prod_def enter_locked_out_def drop_live_secrets_def Let_def
        split: sum.split option.split prod.split)
  show "h_trusted_time_floor (boot P e m f) = fst (stored_floor P (content f))"
    "h_trusted_time_floor_unavailable (boot P e m f) = snd (stored_floor P (content f))"
    "h_clock (boot P e m f) = clock_new" "h_physical_recovery_authorized (boot P e m f) = False"
    "h_mono (boot P e m f) = m"
    by (simp_all add: bt g hf k load_prod_fields Let_def split: option.split mode.split)
qed

lemma stored_floor_cong:
  "(\<And>r. r \<in> {TimeA, TimeB} \<Longrightarrow> c r = c' r) \<Longrightarrow> stored_floor P c = stored_floor P c'"
  by (simp add: stored_floor_def TIME_FLOOR_def ab_defs cong: option.case_cong)

text \<open>An accepted \<^verbatim>\<open>setTime\<close> leaves the flash in step with the floor in RAM.\<close>

lemma hsm_set_time_persists:
  assumes "hsm_set_time P req h = Some (resp, h')" and "\<not> is_err resp" and "healthy (h_flash h)"
    and "stored_floor P (flash_of h) = (h_trusted_time_floor h, h_trusted_time_floor_unavailable h)"
    and "ab_max_seq (crc_of P) TIME_FLOOR (flash_of h) \<noteq> - 1"
  shows "stored_floor P (flash_of h') = (h_trusted_time_floor h', False)" and "healthy (h_flash h')"
    and "h_trusted_time_floor_unavailable h' = False"
proof -
  have "stored_floor P (flash_of h') = (h_trusted_time_floor h', False) \<and> healthy (h_flash h') \<and>
      h_trusted_time_floor_unavailable h' = False"
    using assms(1)
  proof (cases rule: hsm_set_time_cases)
    case (accepted had c)
    let ?nf = "next_floor P h c (st_unix_seconds req)"
    have fl: "h_trusted_time_floor h' = ?nf" "h_trusted_time_floor_unavailable h' = False"
      using accepted(2,3) by (simp_all add: same_session_def)
    show ?thesis
    proof (cases "?nf = h_trusted_time_floor h")
      case True
      then show ?thesis using accepted(3,5) assms(3,4) fl by simp
    next
      case False
      then obtain t h1 where t: "?nf = Some t" "store P TIME_FLOOR (time_floor_to_bytes t) h = (Inr (), h1)" "h_flash h' = h_flash h1"
        using accepted(5) by auto
      obtain f where w: "ab_write (pf P) (crc_of P) TIME_FLOOR (h_flash h) (time_floor_to_bytes t) = (Inr (), f)" "healthy f"
        using ab_write_healthy [OF assms(3) time_codec.enc_fits [of t]] by auto
      have f: "h_flash h1 = f" using t(2) w(1) by (auto simp: store_def)
      have "ab_latest (crc_of P) TIME_FLOOR (content f) = Some (time_floor_to_bytes t)"
        using ab_write_latest(1) [OF w(1) _ assms(5)] by simp
      then show ?thesis using time_codec.dec_enc [of t] f t(1,3) w(2) fl by (simp add: stored_floor_def)
    qed
  qed (use assms(2) in simp)
  then show "stored_floor P (flash_of h') = (h_trusted_time_floor h', False)" "healthy (h_flash h')"
    "h_trusted_time_floor_unavailable h' = False" by simp_all
qed

text \<open>The first \<^verbatim>\<open>setTime\<close> after a boot is held to the stored floor.\<close>

lemma first_set_near_floor:
  assumes "healthy f" and "stored_floor P (content f) = (Some fl, False)"
    and "hsm_set_time P req ((boot P e m f)\<lparr>h_mono := m'\<rparr>) = Some (resp, h')" and "\<not> is_err resp"
  shows "\<bar>sint (st_unix_seconds req) - sint fl\<bar> \<le> 900"
  using assms(3)
proof (cases rule: hsm_set_time_cases)
  case (accepted had c)
  then show ?thesis
    using boot_floor_reliable [OF assms(1), of e m] assms(2) too_far_near
    by (auto simp: clock_is_set_def clock_new_def)
qed (use assms(4) in simp)

end

lemma next_floor_mono:
  assumes "h_trusted_time_floor h = Some fl" and "\<not> h_physical_recovery_authorized h"
  shows "\<exists>fl'. next_floor P h c u = Some fl' \<and> sint fl \<le> sint fl'"
proof -
  have "sint fl \<le> sint tn" if "3600 \<le> sint (i64_saturating_sub tn fl)" for tn
  proof (cases "i64_in_range (sint tn - sint fl)")
    case True
    then show ?thesis using that by (simp add: i64_saturating_sub_def sint_i64_clamp)
  next
    case False
    then show ?thesis using that by (auto simp: i64_saturating_sub_def i64_clamp_def i64_in_range_def split: if_splits)
  qed
  then show ?thesis using assms by (auto simp: next_floor_def Let_def split: option.splits)
qed

section \<open>A development device\<close>

context hsm_reliable
begin

lemma boot_dev_reliable:
  assumes "healthy f" and "stored_config P (content f) = Some c" and "mode c = Dev"
    and "stored_blob P (content f) = Some blob" and "fs_device_secret (pf P) f = Inr secret"
    and "unwrap_seed (px P) (dev_kek (px P) secret) blob = Inr seed"
  shows "h_state (boot P e m f) = DevReady" "h_ca (boot P e m f) = Some (ca_from_seed seed)"
    "healthy (h_flash (boot P e m f))" "flash_of (boot P e m f) = content f"
    "h_ca_pubkey (boot P e m f) = Some (pubkey blob)"
proof -
  obtain x dr e1 where s: "drbg_seed (px P) (pe P) (drbg_new (px P)) e = (x, dr, e1)" by (metis prod.exhaust)
  obtain h where bt: "boot P e m f = load_from_flash P h" and hf: "h_flash h = f" by (auto simp: boot_def s Let_def)
  from assms(1) hf have "healthy (h_flash h)" by simp
  then obtain g fl un where g: "healthy g" "content g = content f" "fs_device_secret (pf P) g = fs_device_secret (pf P) f"
    "boot P e m f = load_dev P (Some blob) (h\<lparr>h_flash := g, h_trusted_time_floor := fl,
       h_trusted_time_floor_unavailable := un, h_ca_pubkey := Some (pubkey blob),
       h_wrap_salt := None, h_config := Some c\<rparr>)"
    by (rule load_from_flash_reliable) (auto simp: bt hf assms(2-4) Let_def)
  show "h_state (boot P e m f) = DevReady" "h_ca (boot P e m f) = Some (ca_from_seed seed)"
    "healthy (h_flash (boot P e m f))" "flash_of (boot P e m f) = content f"
    "h_ca_pubkey (boot P e m f) = Some (pubkey blob)"
    using g(1-3) assms(5,6) by (simp_all add: g(4) load_dev_def Let_def)
qed

end

definition sample_dev_config :: device_config where
  "sample_dev_config = \<lparr> mode = Dev, argon2 = DEFAULT_ARGON, max_retries = 0, wipe_on_lockout = False,
     fw_version = fw_version_triple \<rparr>"

definition sample_dev_blob :: key_blob where
  "sample_dev_blob = wrap_seed sample_externs (dev_kek sample_externs MOCK_DEVICE_SECRET) (replicate 32 7)
     (ed_public sample_externs (replicate 32 7)) DevKek (replicate 16 3) (replicate 12 5)"

lemma sample_dev_flash:
  obtains f where "mock_healthy f" "stored_config sample_platform (mock_content f) = Some sample_dev_config"
    "stored_blob sample_platform (mock_content f) = Some sample_dev_blob" "device_secret f = Inr MOCK_DEVICE_SECRET"
    "mock_content f TimeA = erased_sector" "mock_content f TimeB = erased_sector"
proof -
  have kb: "key_blob_ok sample_dev_blob"
    unfolding sample_dev_blob_def by (rule wrap_seed_ok [OF sample_externs_ok(1)]) (simp_all add: sample_externs_def)
  have ok: "device_config_ok sample_dev_config"
    by (simp add: device_config_ok_def sample_dev_config_def fw_version_triple_def Let_def)
  show thesis by (rule sample_flash [OF kb ok]) (rule that, assumption+, simp_all)
qed

text \<open>The device with that flash, after its clock was set.\<close>

definition sample_time :: set_time_req where
  "sample_time = \<lparr> st_unix_seconds = 1700000000 \<rparr>"

lemma sample_set_time:
  assumes "mock_healthy (h_flash h)" and "h_mono h = mock_at 0" and "h_clock h = clock_new" and "h_trusted_time_floor h = None"
    and "\<not> h_trusted_time_floor_unavailable h" and "mock_content (h_flash h) TimeA = erased_sector"
    and "mock_content (h_flash h) TimeB = erased_sector"
  obtains resp h' c where "hsm_set_time sample_platform sample_time h = Some (resp, h')" "\<not> is_err resp"
    "h_clock h' = c" "h_state h' = h_state h" "h_ca h' = h_ca h" "h_mono h' = mock_at 0" "h_trusted_time_floor h' = Some 1700000000"
    "now_unix mock_clock_ops (mock_at 0) c = Some (Some 1700000000)"
proof -
  let ?r = "clock_set mock_clock_ops (mock_at 0) clock_new 1700000000"
  have r: "fst ?r = Inr False" "now_unix mock_clock_ops (mock_at 0) (snd ?r) = Some (Some 1700000000)"
    by (simp_all add: clock_example)
  obtain f where w: "ab_write mock_ops (crc_of sample_platform) TIME_FLOOR (h_flash h) (time_floor_to_bytes 1700000000) = (Inr (), f)"
    using sample.ab_write_healthy [OF assms(1) time_codec.enc_fits [of 1700000000]] by auto
  have cs: "\<not> clock_is_set clock_new" by (simp add: clock_is_set_def clock_new_def)
  have nf: "next_floor sample_platform h (snd ?r) 1700000000 = Some 1700000000"
    using assms(2-4) cs by (simp add: next_floor_def Let_def)
  have st: "store sample_platform TIME_FLOOR (time_floor_to_bytes 1700000000) h = (Inr (), h\<lparr>h_flash := f\<rparr>)"
    using w by (simp add: store_def)
  obtain c where c: "?r = (Inr False, c)" using r(1) by (metis prod.collapse)
  have e: "hsm_set_time sample_platform sample_time h = Some (hsm_with (\<lambda>r. r\<lparr>hr_set_time := Some \<lparr> tr_ok = True,
      tr_uptime_ms = now_ms sample_platform (h\<lparr>h_flash := f\<rparr>), tr_previous_set = False \<rparr>\<rparr>),
      h\<lparr>h_flash := f, h_clock := c, h_trusted_time_floor := Some 1700000000\<rparr>)"
    using nf st assms(2-5) c by (simp add: hsm_set_time_def sample_time_def Let_def)
  show thesis by (rule that [OF e]) (use r(2) c assms(2) in \<open>simp_all add: err_defs\<close>)
qed

end
