(* ===== verification/LineIo.thy ===== *)
theory LineIo
  imports Prelude
begin

text \<open>
  Reassembly of newline-delimited request lines from USB bytes, with a size cap
  (\<^verbatim>\<open>hsm-core/src/lineio.rs\<close>). \<open>line_event\<close> is the abstract meaning of one line; the assembler is
  shown to deliver it for every line of every byte stream.
\<close>

definition MAX_LINE :: nat where
  "MAX_LINE = 16 * 1024"

datatype event = Line bytes | TooLong

record line_assembler =
  la_buf :: bytes
  overflowed :: bool

definition line_assembler_new :: line_assembler where
  "line_assembler_new = \<lparr> la_buf = [], overflowed = False \<rparr>"

definition push :: "line_assembler \<Rightarrow> u8 \<Rightarrow> event option \<times> line_assembler" where
  "push a b =
     (if b = 0x0A then
        (if overflowed a then (Some TooLong, a\<lparr>overflowed := False, la_buf := []\<rparr>)
         else
           let buf = (if la_buf a \<noteq> [] \<and> last (la_buf a) = 0x0D then butlast (la_buf a) else la_buf a)
           in (Some (Line buf), a\<lparr>la_buf := []\<rparr>))
      else if overflowed a then (None, a)
      else if length (la_buf a) \<ge> MAX_LINE then (None, a\<lparr>overflowed := True, la_buf := []\<rparr>)
      else (None, a\<lparr>la_buf := la_buf a @ [b]\<rparr>))"

text \<open>The transport's loop: feed the bytes of a packet in order and collect the events.\<close>

fun drive :: "line_assembler \<Rightarrow> bytes \<Rightarrow> event list \<times> line_assembler" where
  "drive a [] = ([], a)"
| "drive a (b # bs) =
     (let (e, a1) = push a b; (es, a2) = drive a1 bs
      in (case e of None \<Rightarrow> es | Some ev \<Rightarrow> ev # es, a2))"

section \<open>What a line means\<close>

definition strip_trailing_cr :: "bytes \<Rightarrow> bytes" where
  "strip_trailing_cr l = (if l \<noteq> [] \<and> last l = 0x0D then butlast l else l)"

definition line_event :: "bytes \<Rightarrow> event" where
  "line_event l = (if length l > MAX_LINE then TooLong else Line (strip_trailing_cr l))"

definition line_inv :: "line_assembler \<Rightarrow> bool" where
  "line_inv a \<longleftrightarrow> length (la_buf a) \<le> MAX_LINE \<and> (overflowed a \<longrightarrow> la_buf a = [])"

text \<open>The assembler part-way through a line \<open>l\<close>.\<close>

definition pending :: "bytes \<Rightarrow> line_assembler" where
  "pending l = (if length l > MAX_LINE then \<lparr> la_buf = [], overflowed = True \<rparr>
                else \<lparr> la_buf = l, overflowed = False \<rparr>)"

lemma line_assembler_new_pending: "line_assembler_new = pending []"
  by (simp add: line_assembler_new_def pending_def)

lemma push_inv: "line_inv a \<Longrightarrow> push a b = (e, a') \<Longrightarrow> line_inv a'"
  by (auto simp: push_def line_inv_def Let_def split: if_splits)

lemma drive_inv: "line_inv a \<Longrightarrow> line_inv (snd (drive a bs))"
proof (induction a bs rule: drive.induct)
  case (2 a b bs)
  obtain e a1 where p: "push a b = (e, a1)" by fastforce
  with 2 push_inv [OF 2(2) p] show ?case by (simp add: split_def Let_def)
qed simp

lemma push_byte: "b \<noteq> 0x0A \<Longrightarrow> push (pending l) b = (None, pending (l @ [b]))"
  by (auto simp: push_def pending_def)

lemma push_newline: "push (pending l) 0x0A = (Some (line_event l), pending [])"
  by (auto simp: push_def pending_def line_event_def strip_trailing_cr_def Let_def)

lemma drive_append:
  "drive a (xs @ ys) = (fst (drive a xs) @ fst (drive (snd (drive a xs)) ys), snd (drive (snd (drive a xs)) ys))"
proof (induction xs arbitrary: a)
  case (Cons b xs)
  then show ?case by (simp add: split_def Let_def split: option.splits)
qed simp

lemma drive_pending: "0x0A \<notin> set xs \<Longrightarrow> drive (pending l) xs = ([], pending (l @ xs))"
proof (induction xs arbitrary: l)
  case (Cons b xs)
  then show ?case by (simp add: push_byte [of b l])
qed simp

lemma drive_line: "0x0A \<notin> set l \<Longrightarrow> drive (pending []) (l @ [0x0A]) = ([line_event l], pending [])"
  by (simp add: drive_append drive_pending push_newline)

lemma drive_lines:
  "\<forall>l \<in> set ls. 0x0A \<notin> set l \<Longrightarrow>
     drive (pending []) (concat (map (\<lambda>l. l @ [0x0A]) ls)) = (map line_event ls, pending [])"
proof (induction ls)
  case (Cons l ls)
  have "drive (pending []) ((l @ [0x0A]) @ concat (map (\<lambda>l. l @ [0x0A]) ls))
      = (line_event l # map line_event ls, pending [])"
    using Cons drive_line [of l] by (simp only: drive_append) simp
  then show ?case by simp
qed simp

text \<open>C32: the assembler delivers exactly the lines of the stream, in order and however the bytes are
  split into packets: a line of at most 16 KiB as it is (one trailing CR dropped), a longer one as
  \<^verbatim>\<open>TooLong\<close>, with no effect on the lines after it; the rest without a newline stays pending.\<close>

theorem line_assembler_refines_split:
  assumes "\<forall>l \<in> set ls. 0x0A \<notin> set l" and "0x0A \<notin> set rest"
    and "p1 @ p2 = concat (map (\<lambda>l. l @ [0x0A]) ls) @ rest"
  shows "fst (drive line_assembler_new p1) @ fst (drive (snd (drive line_assembler_new p1)) p2) = map line_event ls
    \<and> snd (drive (snd (drive line_assembler_new p1)) p2) = pending rest"
proof -
  have "drive line_assembler_new (p1 @ p2) = (map line_event ls, pending rest)"
    using drive_lines [OF assms(1)] drive_pending [OF assms(2), of "[]"]
    by (simp add: assms(3) drive_append line_assembler_new_pending)
  then show ?thesis by (simp add: drive_append)
qed

theorem line_assembler_refines_split_witness:
  "fst (drive line_assembler_new [104, 105, 13, 10]) = [Line [104, 105]]
   \<and> fst (drive (snd (drive line_assembler_new [104, 105, 13, 10]))
        (replicate 16385 120 @ [10, 111, 10])) = [TooLong, Line [111]]"
proof -
  have len: "length (replicate 16385 (120 :: u8)) > MAX_LINE" by (simp add: MAX_LINE_def del: length_replicate) (subst length_replicate, simp)
  have "fst (drive line_assembler_new [104, 105, 13, 10]) = [Line [104, 105]]"
    using line_assembler_refines_split [of "[[104, 105, 13]]" "[]" "[104, 105, 13, 10]" "[]"]
    by (simp add: line_event_def strip_trailing_cr_def MAX_LINE_def)
  moreover have "fst (drive line_assembler_new [104, 105, 13, 10]) @ fst (drive (snd (drive line_assembler_new
      [104, 105, 13, 10])) (replicate 16385 120 @ [10, 111, 10]))
    = map line_event [[104, 105, 13], replicate 16385 120, [111]]"
    by (rule line_assembler_refines_split [of _ "[]", THEN conjunct1]) (auto simp del: replicate.simps)
  ultimately show ?thesis
    using len by (simp add: line_event_def strip_trailing_cr_def MAX_LINE_def del: replicate.simps)
qed

text \<open>The device buffers at most 16 KiB of a line, whatever the host sends.\<close>

lemma line_buffer_bounded: "length (la_buf (snd (drive line_assembler_new bs))) \<le> MAX_LINE"
  using drive_inv [of line_assembler_new bs] by (simp add: line_inv_def line_assembler_new_def)

end
