(* ===== verification/Transport.thy ===== *)
theory Transport
  imports TimeFloor LineIo
begin

text \<open>
  What a transport owes its host, shared by the firmware's USB session and the host simulator: every
  line is answered in order by one line. \<open>TOO_LARGE\<close> is the complaint about an overlong line in
  \<^verbatim>\<open>hsm-fw/src/usb.rs\<close>.
\<close>

definition TOO_LARGE :: bytes where
  "TOO_LARGE = as_bytes ''{\"error\":\"request too large (max 16384 bytes)\"}''"

text \<open>What a session means: every line of the input is answered in order, by the dispatcher or with the
  complaint about its length.\<close>

fun serve_events ::
    "('e, 'm, 'f, 'r) platform \<Rightarrow> (bytes \<Rightarrow> string + request) \<Rightarrow> (response \<Rightarrow> bytes option) \<Rightarrow> event list
      \<Rightarrow> ('e, 'm, 'f, 'r) hsm \<Rightarrow> (bytes list \<times> ('e, 'm, 'f, 'r) hsm) option" where
  "serve_events P from_slice to_vec [] h = Some ([], h)"
| "serve_events P from_slice to_vec (Line line # es) h =
     (case process_line P from_slice to_vec line h of
        None \<Rightarrow> None
      | Some (resp, h1) \<Rightarrow>
          if h_reboot_requested h1 then None
          else map_option (\<lambda>(rs, h2). (resp # rs, h2)) (serve_events P from_slice to_vec es h1))"
| "serve_events P from_slice to_vec (TooLong # es) h =
     map_option (\<lambda>(rs, h2). (TOO_LARGE # rs, h2)) (serve_events P from_slice to_vec es h)"

definition framed :: "bytes list \<Rightarrow> bytes" where
  "framed rs = concat (map (\<lambda>r. r @ [0x0A]) rs)"

lemma framed_simps [simp]: "framed [] = []" "framed (r # rs) = r @ 0x0A # framed rs"
  by (simp_all add: framed_def)

lemma framed_append: "framed (rs @ rs') = framed rs @ framed rs'"
  by (simp add: framed_def)

lemma serve_events_append:
  "serve_events P from_slice to_vec (es @ es') h = Some (rs, h') \<Longrightarrow>
    \<exists>r1 h1 r2. serve_events P from_slice to_vec es h = Some (r1, h1) \<and> serve_events P from_slice to_vec es' h1 = Some (r2, h') \<and> rs = r1 @ r2"
proof (induction P from_slice to_vec es h arbitrary: rs rule: serve_events.induct)
  case (2 P from_slice to_vec line es h)
  then show ?case by (fastforce split: option.splits if_splits)
next
  case (3 P from_slice to_vec es h)
  then show ?case by fastforce
qed simp

section \<open>A restart on the same medium\<close>

text \<open>
  What a PIN opens is kept by the flash and the device secret alone: another device, on another HAL, with
  the same stored bytes and the same secret boots to the locked state and is opened by the same PIN.
\<close>

lemma keyed_transfer:
  assumes "keyed P content healthy h pin seed" and "reliable_flash (pf P') content' healthy'" and "px P' = px P"
    and "healthy' f" and "content' f = content (h_flash h)"
    and "fs_device_secret (pf P') f = fs_device_secret (pf P) (h_flash h)"
  shows "keyed P' content' healthy' (boot P' e m f) pin seed" and "h_state (boot P' e m f) = ProdLocked"
    and "fs_device_secret (pf P') (h_flash (boot P' e m f)) = fs_device_secret (pf P') f"
proof -
  have rel: "hsm_reliable P' content' healthy'" using assms(2) by (simp add: hsm_reliable_def)
  obtain cfg secret blob kek where k: "count_used (content' f PinCounter) = 0" "length seed = 32" "mode cfg = Prod"
    "max_retries cfg \<noteq> 0" "stored_config P' (content' f) = Some cfg" "stored_blob P' (content' f) = Some blob"
    "fs_device_secret (pf P') f = Inr secret" "opens P' cfg secret pin blob kek seed"
    "pubkey blob = public_bytes (px P') (ca_from_seed seed)"
    using assms(1,3,5,6) by (auto simp: keyed_def stored_config_def stored_blob_def opens_def)
  note b = hsm_reliable.boot_prod_reliable [OF rel assms(4) k(5,3), of e m]
  have "0 < unat (max_retries cfg)" using k(4) by (simp add: unat_gt_0)
  then show "h_state (boot P' e m f) = ProdLocked" using b(5) k(1) by simp
  show "keyed P' content' healthy' (boot P' e m f) pin seed" using b k by (auto simp: keyed_def)
  show "fs_device_secret (pf P') (h_flash (boot P' e m f)) = fs_device_secret (pf P') f" by (rule b(3))
qed

end
