(* ===== verification/FlashHal.thy ===== *)
theory FlashHal
  imports TimeFloor
begin

text \<open>
  The flash of the device (\<^verbatim>\<open>hsm-fw/src/flash_hal.rs\<close>): the seven regions at fixed offsets of the
  QSPI flash, over the blocking driver of the \<^verbatim>\<open>embassy_rp\<close> crate. The driver is a parameter; the
  locale \<open>nor_driver\<close> states what a NOR flash driver documents, and the sublocale shows that the
  store built on it keeps the \<open>flash_store\<close> contract on which storage and PIN counter rely.
\<close>

section \<open>The store\<close>

definition FLASH_SIZE :: nat where
  "FLASH_SIZE = 4 * 1024 * 1024"

definition TIME_A :: u32 where "TIME_A = 0x3F8000"
definition TIME_B :: u32 where "TIME_B = 0x3F9000"
definition CONFIG_A :: u32 where "CONFIG_A = 0x3FA000"
definition CONFIG_B :: u32 where "CONFIG_B = 0x3FB000"
definition KEY_A :: u32 where "KEY_A = 0x3FC000"
definition KEY_B :: u32 where "KEY_B = 0x3FD000"
definition PIN_COUNTER :: u32 where "PIN_COUNTER = 0x3FE000"

definition SECTOR :: u32 where
  "SECTOR = of_nat SECTOR_LEN"

text \<open>The driver: \<^verbatim>\<open>blocking_read\<close> fills a buffer of the given length, \<^verbatim>\<open>blocking_erase\<close> takes the first
  and the end offset; \<open>None\<close> and \<open>False\<close> are the driver's errors.\<close>

record 'd flash_driver =
  blocking_read :: "'d \<Rightarrow> u32 \<Rightarrow> nat \<Rightarrow> bytes option \<times> 'd"
  blocking_erase :: "'d \<Rightarrow> u32 \<Rightarrow> u32 \<Rightarrow> bool \<times> 'd"
  blocking_write :: "'d \<Rightarrow> u32 \<Rightarrow> bytes \<Rightarrow> bool \<times> 'd"

record 'd embassy_flash =
  ef_flash :: 'd
  ef_unique_id :: bytes
  ef_device_secret :: "hal_error + bytes"

text \<open>\<open>chipid\<close> is the result of \<^verbatim>\<open>embassy_rp::otp::get_chipid\<close>.\<close>

definition embassy_flash_new :: "'d \<Rightarrow> u64 option \<Rightarrow> hal_error + bytes \<Rightarrow> 'd embassy_flash" where
  "embassy_flash_new d chipid secret =
     \<lparr> ef_flash = d, ef_unique_id = (case chipid of Some v \<Rightarrow> to_be_bytes 8 v | None \<Rightarrow> replicate 8 0),
       ef_device_secret = secret \<rparr>"

fun flash_base :: "region \<Rightarrow> u32" where
  "flash_base TimeA = TIME_A"
| "flash_base TimeB = TIME_B"
| "flash_base ConfigA = CONFIG_A"
| "flash_base ConfigB = CONFIG_B"
| "flash_base KeyA = KEY_A"
| "flash_base KeyB = KEY_B"
| "flash_base PinCounter = PIN_COUNTER"

definition embassy_read :: "'d flash_driver \<Rightarrow> 'd embassy_flash \<Rightarrow> region \<Rightarrow> bytes \<Rightarrow> (hal_error + bytes) \<times> 'd embassy_flash" where
  "embassy_read D f r buf =
     (if length buf < SECTOR_LEN then (Inl OutOfRange, f)
      else case blocking_read D (ef_flash f) (flash_base r) SECTOR_LEN of
          (Some b, d) \<Rightarrow> (Inr (b @ drop SECTOR_LEN buf), f\<lparr>ef_flash := d\<rparr>)
        | (None, d) \<Rightarrow> (Inl Flash, f\<lparr>ef_flash := d\<rparr>))"

definition embassy_erase :: "'d flash_driver \<Rightarrow> 'd embassy_flash \<Rightarrow> region \<Rightarrow> (hal_error + unit) \<times> 'd embassy_flash" where
  "embassy_erase D f r =
     (case blocking_erase D (ef_flash f) (flash_base r) (flash_base r + SECTOR) of
        (good, d) \<Rightarrow> (if good then Inr () else Inl Flash, f\<lparr>ef_flash := d\<rparr>))"

definition embassy_program ::
    "'d flash_driver \<Rightarrow> 'd embassy_flash \<Rightarrow> region \<Rightarrow> nat \<Rightarrow> bytes \<Rightarrow> (hal_error + unit) \<times> 'd embassy_flash" where
  "embassy_program D f r off page =
     (if off + length page > SECTOR_LEN then (Inl OutOfRange, f)
      else case blocking_write D (ef_flash f) (flash_base r + of_nat off) page of
          (good, d) \<Rightarrow> (if good then Inr () else Inl Flash, f\<lparr>ef_flash := d\<rparr>))"

definition embassy_ops :: "'d flash_driver \<Rightarrow> 'd embassy_flash flash_ops" where
  "embassy_ops D = \<lparr> fs_read = embassy_read D, fs_erase = embassy_erase D, fs_program = embassy_program D,
     fs_unique_id = ef_unique_id, fs_device_secret = ef_device_secret \<rparr>"

lemma embassy_ops_simps [simp]:
  "fs_read (embassy_ops D) = embassy_read D" "fs_erase (embassy_ops D) = embassy_erase D"
  "fs_program (embassy_ops D) = embassy_program D" "fs_device_secret (embassy_ops D) = ef_device_secret"
  by (simp_all add: embassy_ops_def)

section \<open>The layout\<close>

lemmas region_offsets = TIME_A_def TIME_B_def CONFIG_A_def CONFIG_B_def KEY_A_def KEY_B_def PIN_COUNTER_def

fun region_index :: "region \<Rightarrow> nat" where
  "region_index TimeA = 0"
| "region_index TimeB = 1"
| "region_index ConfigA = 2"
| "region_index ConfigB = 3"
| "region_index KeyA = 4"
| "region_index KeyB = 5"
| "region_index PinCounter = 6"

lemma base_index: "unat (flash_base r) = (1016 + region_index r) * SECTOR_LEN"
  by (cases r) (simp_all add: region_offsets SECTOR_LEN_def)

lemma region_index_inj: "region_index r = region_index r' \<longleftrightarrow> r = r'"
  by (cases r; cases r') simp_all

lemma region_index_le: "region_index r \<le> 6"
  by (cases r) simp_all

lemma base_bounds: "unat (flash_base r) + SECTOR_LEN \<le> FLASH_SIZE" "SECTOR_LEN dvd unat (flash_base r)"
  using region_index_le [of r] by (simp_all add: base_index SECTOR_LEN_def FLASH_SIZE_def)

lemma regions_disjoint:
  assumes "r \<noteq> r'" and "i < unat (flash_base r) + SECTOR_LEN" and "unat (flash_base r) \<le> i"
  shows "i < unat (flash_base r') \<or> unat (flash_base r') + SECTOR_LEN \<le> i"
proof -
  from assms(1) consider "region_index r < region_index r'" | "region_index r' < region_index r"
    using region_index_inj [of r r'] by linarith
  then show ?thesis using assms(2,3) by cases (auto simp: base_index SECTOR_LEN_def)
qed

lemma unat_base_end: "unat (flash_base r + SECTOR) = unat (flash_base r) + SECTOR_LEN"
  by (cases r) (simp_all add: region_offsets SECTOR_def SECTOR_LEN_def)

lemma unat_base_offset: "off \<le> SECTOR_LEN \<Longrightarrow> unat (flash_base r + of_nat off) = unat (flash_base r) + off"
proof -
  assume off: "off \<le> SECTOR_LEN"
  then have "unat (of_nat off :: u32) = off" by (simp add: unat_of_nat SECTOR_LEN_def)
  moreover have "unat (flash_base r) + off < 2 ^ 32"
    using off base_bounds(1) [of r] by (simp add: FLASH_SIZE_def SECTOR_LEN_def)
  ultimately show ?thesis by (simp add: unat_word_ariths)
qed

section \<open>The contract of the driver\<close>

text \<open>
  \<open>mem\<close> is the byte at each offset. Erasing sets bytes to FF, writing clears bits, and no operation,
  successful or not, touches a byte outside the range it was given.
\<close>

locale nor_driver =
  fixes D :: "'d flash_driver"
    and mem :: "'d \<Rightarrow> nat \<Rightarrow> u8"
  assumes nor_read: "blocking_read D d a n = (Some b, d') \<Longrightarrow> b = map (mem d) [unat a ..< unat a + n]"
    and nor_read_frame: "blocking_read D d a n = (x, d') \<Longrightarrow> mem d' = mem d"
    and nor_erase: "blocking_erase D d a z = (True, d') \<Longrightarrow> unat a \<le> i \<Longrightarrow> i < unat z \<Longrightarrow> mem d' i = 0xFF"
    and nor_erase_frame: "blocking_erase D d a z = (good, d') \<Longrightarrow> i < unat a \<or> unat z \<le> i \<Longrightarrow> mem d' i = mem d i"
    and nor_write: "blocking_write D d a p = (True, d') \<Longrightarrow> unat a \<le> i \<Longrightarrow> i < unat a + length p
          \<Longrightarrow> mem d' i = mem d i AND p ! (i - unat a)"
    and nor_write_frame: "blocking_write D d a p = (good, d') \<Longrightarrow> i < unat a \<or> unat a + length p \<le> i \<Longrightarrow> mem d' i = mem d i"

definition embassy_content :: "('d \<Rightarrow> nat \<Rightarrow> u8) \<Rightarrow> 'd embassy_flash \<Rightarrow> region \<Rightarrow> bytes" where
  "embassy_content mem f r = map (\<lambda>i. mem (ef_flash f) (unat (flash_base r) + i)) [0 ..< SECTOR_LEN]"

lemma length_embassy_content [simp]: "length (embassy_content mem f r) = SECTOR_LEN"
  by (simp add: embassy_content_def)

lemma embassy_content_nth [simp]:
  "i < SECTOR_LEN \<Longrightarrow> embassy_content mem f r ! i = mem (ef_flash f) (unat (flash_base r) + i)"
  by (simp add: embassy_content_def)

lemma embassy_content_cong:
  "(\<And>i. unat (flash_base r) \<le> i \<Longrightarrow> i < unat (flash_base r) + SECTOR_LEN \<Longrightarrow> mem (ef_flash f) i = mem (ef_flash f') i)
    \<Longrightarrow> embassy_content mem f r = embassy_content mem f' r"
  by (rule nth_equalityI) simp_all

lemma map_upt_shift: "map g [a ..< a + n] = map (\<lambda>i. g (a + i)) [0 ..< n]"
  by (rule nth_equalityI) simp_all

context nor_driver
begin

lemma embassy_erase_frame:
  assumes "embassy_erase D f r = (res, f')" and "r' \<noteq> r"
  shows "embassy_content mem f' r' = embassy_content mem f r'"
proof (rule embassy_content_cong)
  fix i assume i: "unat (flash_base r') \<le> i" "i < unat (flash_base r') + SECTOR_LEN"
  from assms(1) obtain good where e: "blocking_erase D (ef_flash f) (flash_base r) (flash_base r + SECTOR) = (good, ef_flash f')"
    by (auto simp: embassy_erase_def split: prod.splits)
  show "mem (ef_flash f') i = mem (ef_flash f) i"
    by (rule nor_erase_frame [OF e]) (use regions_disjoint [OF assms(2) i(2,1)] in \<open>simp add: unat_base_end\<close>)
qed

lemma embassy_program_frame:
  assumes "embassy_program D f r off page = (res, f')" and "r' \<noteq> r"
  shows "embassy_content mem f' r' = embassy_content mem f r'"
proof (cases "off + length page > SECTOR_LEN")
  case False
  show ?thesis
  proof (rule embassy_content_cong)
    fix i assume i: "unat (flash_base r') \<le> i" "i < unat (flash_base r') + SECTOR_LEN"
    from assms(1) False obtain good where w: "blocking_write D (ef_flash f) (flash_base r + of_nat off) page = (good, ef_flash f')"
      by (auto simp: embassy_program_def split: prod.splits)
    show "mem (ef_flash f') i = mem (ef_flash f) i"
      by (rule nor_write_frame [OF w]) (use regions_disjoint [OF assms(2) i(2,1)] False in \<open>auto simp: unat_base_offset\<close>)
  qed
qed (use assms in \<open>simp add: embassy_program_def\<close>)

lemma embassy_erase_ok:
  assumes "embassy_erase D f r = (Inr u, f')"
  shows "embassy_content mem f' r = erased_sector"
proof (rule nth_equalityI)
  fix i assume "i < length (embassy_content mem f' r)"
  then have i: "i < SECTOR_LEN" by simp
  from assms have "blocking_erase D (ef_flash f) (flash_base r) (flash_base r + SECTOR) = (True, ef_flash f')"
    by (auto simp: embassy_erase_def split: prod.splits if_splits)
  from nor_erase [OF this, of "unat (flash_base r) + i"] i
  show "embassy_content mem f' r ! i = erased_sector ! i" by (simp add: unat_base_end erased_sector_def)
qed simp

lemma embassy_program_ok:
  assumes "embassy_program D f r off page = (Inr u, f')"
  shows "off + length page \<le> SECTOR_LEN"
    and "embassy_content mem f' r = program_bytes (embassy_content mem f r) off page"
proof -
  show len: "off + length page \<le> SECTOR_LEN" using assms by (auto simp: embassy_program_def split: if_splits)
  with assms have w: "blocking_write D (ef_flash f) (flash_base r + of_nat off) page = (True, ef_flash f')"
    by (auto simp: embassy_program_def split: prod.splits if_splits)
  have b: "unat (flash_base r + of_nat off) = unat (flash_base r) + off" using len by (simp add: unat_base_offset)
  show "embassy_content mem f' r = program_bytes (embassy_content mem f r) off page"
  proof (rule nth_equalityI)
    fix i assume "i < length (embassy_content mem f' r)"
    then have i: "i < SECTOR_LEN" by simp
    show "embassy_content mem f' r ! i = program_bytes (embassy_content mem f r) off page ! i"
      using nor_write [OF w, of "unat (flash_base r) + i"] nor_write_frame [OF w, of "unat (flash_base r) + i"] i len
      by (auto simp: b program_bytes_nth)
  qed (use len in simp)
qed

end

sublocale nor_driver \<subseteq> embassy: flash_store "embassy_ops D" "embassy_content mem"
proof unfold_locales
  fix f r buf res f'
  assume a: "fs_read (embassy_ops D) f r buf = (res, f')"
  have "f' = f \<or> (\<exists>x. blocking_read D (ef_flash f) (flash_base r) SECTOR_LEN = (x, ef_flash f'))"
    using a by (auto simp: embassy_read_def split: prod.splits option.splits if_splits)
  then have "mem (ef_flash f') = mem (ef_flash f)" using nor_read_frame by auto
  then show "embassy_content mem f' = embassy_content mem f" by (simp add: embassy_content_def fun_eq_iff)
  show "fs_device_secret (embassy_ops D) f' = fs_device_secret (embassy_ops D) f"
    using a by (auto simp: embassy_read_def split: prod.splits option.splits if_splits)
next
  fix f r buf b f'
  assume "fs_read (embassy_ops D) f r buf = (Inr b, f')" and "length buf = SECTOR_LEN"
  then have "blocking_read D (ef_flash f) (flash_base r) SECTOR_LEN = (Some b, ef_flash f')"
    by (auto simp: embassy_read_def split: prod.splits option.splits)
  then show "b = embassy_content mem f r" using nor_read by (simp add: embassy_content_def map_upt_shift)
next
  fix f r u f'
  assume "fs_erase (embassy_ops D) f r = (Inr u, f')"
  then show "embassy_content mem f' = (embassy_content mem f)(r := erased_sector)"
    using embassy_erase_ok embassy_erase_frame by (fastforce simp: fun_eq_iff)
next
  fix f r off page u f'
  assume "fs_program (embassy_ops D) f r off page = (Inr u, f')"
  then show "embassy_content mem f' = (embassy_content mem f)(r := program_bytes (embassy_content mem f r) off page)"
    using embassy_program_ok(2) embassy_program_frame by (fastforce simp: fun_eq_iff)
qed (use embassy_erase_frame embassy_program_frame embassy_program_ok in
    \<open>auto simp: embassy_erase_def embassy_program_def split: prod.splits if_splits\<close>)

text \<open>A driver that does not fail inside the flash.\<close>

locale nor_reliable = nor_driver +
  fixes sound :: "'a \<Rightarrow> bool"
  assumes nor_read_sound: "sound d \<Longrightarrow> unat a + n \<le> FLASH_SIZE \<Longrightarrow> \<exists>b d'. blocking_read D d a n = (Some b, d') \<and> sound d'"
    and nor_erase_sound: "sound d \<Longrightarrow> unat a \<le> unat z \<Longrightarrow> unat z \<le> FLASH_SIZE \<Longrightarrow> SECTOR_LEN dvd unat a \<Longrightarrow> SECTOR_LEN dvd unat z
          \<Longrightarrow> \<exists>d'. blocking_erase D d a z = (True, d') \<and> sound d'"
    and nor_write_sound: "sound d \<Longrightarrow> unat a + length p \<le> FLASH_SIZE \<Longrightarrow> \<exists>d'. blocking_write D d a p = (True, d') \<and> sound d'"

sublocale nor_reliable \<subseteq> embassy: reliable_flash "embassy_ops D" "embassy_content mem" "\<lambda>f. sound (ef_flash f)"
proof unfold_locales
  fix f :: "'a embassy_flash" and r buf
  assume "sound (ef_flash f)" and "length (buf :: bytes) = SECTOR_LEN"
  then show "\<exists>b f'. fs_read (embassy_ops D) f r buf = (Inr b, f') \<and> sound (ef_flash f')"
    using nor_read_sound [of "ef_flash f" "flash_base r" SECTOR_LEN] base_bounds(1) [of r] by (auto simp: embassy_read_def)
next
  fix f :: "'a embassy_flash" and r
  assume "sound (ef_flash f)"
  then show "\<exists>f'. fs_erase (embassy_ops D) f r = (Inr (), f') \<and> sound (ef_flash f')"
    using nor_erase_sound [of "ef_flash f" "flash_base r" "flash_base r + SECTOR"] base_bounds [of r]
    by (auto simp: embassy_erase_def unat_base_end)
next
  fix f :: "'a embassy_flash" and r off page
  assume "sound (ef_flash f)" and "off + length (page :: bytes) \<le> SECTOR_LEN"
  then show "\<exists>f'. fs_program (embassy_ops D) f r off page = (Inr (), f') \<and> sound (ef_flash f')"
    using nor_write_sound [of "ef_flash f" "flash_base r + of_nat off" page] base_bounds(1) [of r]
    by (auto simp: embassy_program_def unat_base_offset)
qed

context nor_reliable
begin

lemmas axioms_reliable = embassy.reliable_flash_axioms

end

section \<open>A driver in memory\<close>

text \<open>A driver over an array, as a model of the contract: it refuses what lies outside the flash.\<close>

definition ram_driver :: "(nat \<Rightarrow> u8) flash_driver" where
  "ram_driver = \<lparr>
     blocking_read = (\<lambda>d a n. if unat a + n \<le> FLASH_SIZE then (Some (map d [unat a ..< unat a + n]), d) else (None, d)),
     blocking_erase = (\<lambda>d a z. if unat a \<le> unat z \<and> unat z \<le> FLASH_SIZE
       then (True, \<lambda>i. if unat a \<le> i \<and> i < unat z then 0xFF else d i) else (False, d)),
     blocking_write = (\<lambda>d a p. if unat a + length p \<le> FLASH_SIZE
       then (True, \<lambda>i. if unat a \<le> i \<and> i < unat a + length p then d i AND p ! (i - unat a) else d i) else (False, d)) \<rparr>"

interpretation ram: nor_reliable ram_driver "\<lambda>d. d" "\<lambda>_. True"
  by unfold_locales (auto simp: ram_driver_def split: if_splits)

text \<open>C23: the device's flash keeps the contract of storage. Over any driver that behaves as a NOR flash, the
  seven regions are whole sectors inside the flash and do not overlap, and reading, erasing and
  programming them obeys \<open>flash_store\<close>: an operation on one region never changes another, even when
  it fails; over a driver that does not fail inside the flash, no operation fails.\<close>

theorem device_flash_keeps_contract:
  assumes "nor_reliable D mem sound"
  shows "reliable_flash (embassy_ops D) (embassy_content mem) (\<lambda>f. sound (ef_flash f))
    \<and> (\<forall>r. unat (flash_base r) mod SECTOR_LEN = 0 \<and> unat (flash_base r) + SECTOR_LEN \<le> FLASH_SIZE)
    \<and> (\<forall>r r'. r \<noteq> r' \<longrightarrow> unat (flash_base r) + SECTOR_LEN \<le> unat (flash_base r')
         \<or> unat (flash_base r') + SECTOR_LEN \<le> unat (flash_base r))"
proof (intro conjI allI impI)
  show "reliable_flash (embassy_ops D) (embassy_content mem) (\<lambda>f. sound (ef_flash f))"
    by (rule nor_reliable.axioms_reliable [OF assms])
next
  fix r r' :: region
  assume "r \<noteq> r'"
  then show "unat (flash_base r) + SECTOR_LEN \<le> unat (flash_base r') \<or> unat (flash_base r') + SECTOR_LEN \<le> unat (flash_base r)"
    using regions_disjoint [of r r' "unat (flash_base r)"] regions_disjoint [of r' r "unat (flash_base r')"]
    by (auto simp: SECTOR_LEN_def)
qed (use base_bounds in auto)

theorem device_flash_keeps_contract_witness:
  "\<exists>f'. fs_erase (embassy_ops ram_driver) (embassy_flash_new (\<lambda>_. 0) None (Inl Secret)) KeyA = (Inr (), f')"
proof -
  have "nor_reliable ram_driver (\<lambda>d. d) (\<lambda>_. True)" by (rule ram.nor_reliable_axioms)
  from conjunct1 [OF device_flash_keeps_contract [OF this]]
  have "reliable_flash (embassy_ops ram_driver) (embassy_content (\<lambda>d. d)) (\<lambda>_. True)" by simp
  from reliable_flash.erase_healthy [OF this TrueI] show ?thesis by blast
qed

end
