(* ===== verification/OtpSecret.thy ===== *)
theory OtpSecret
  imports TimeFloor
begin

text \<open>
  The per-device wrapping secret in one-time-programmable memory (\<^verbatim>\<open>hsm-fw/src/otp_secret.rs\<close>):
  loading it at boot, burning it on the first boot, and giving up on a slot. The functions of
  \<^verbatim>\<open>embassy_rp::otp\<close> are a parameter; \<open>otp_rom\<close> states what any OTP keeps, \<open>otp_reliable\<close> adds that
  it works on pages that are not locked, and \<open>cut_power\<close> is an OTP that loses power.
\<close>

section \<open>Layout\<close>

definition SLOT_PAGES :: "nat list" where
  "SLOT_PAGES = [61, 60]"

definition ROWS_PER_PAGE :: nat where
  "ROWS_PER_PAGE = 64"

definition SECRET_ROWS :: nat where
  "SECRET_ROWS = 16"

definition MARKER_VALID :: u16 where
  "MARKER_VALID = 0xA5C3"

definition MARKER_VOID :: u16 where
  "MARKER_VOID = 0xDEAD"

definition LOCK1_VALUE :: u32 where
  "LOCK1_VALUE = 0x003D3D3D"

definition lock1_row :: "nat \<Rightarrow> nat" where
  "lock1_row page = 0xF80 + 2 * page + 1"

definition base_row :: "nat \<Rightarrow> nat" where
  "base_row page = page * ROWS_PER_PAGE"

datatype slot_state = Valid bytes | Blank | Unusable

text \<open>The OTP driver: \<open>None\<close> and \<open>False\<close> are its errors; \<open>sw_lock\<close> makes a page inaccessible until reset.\<close>

record 'o otp_ops =
  read_ecc_word :: "'o \<Rightarrow> nat \<Rightarrow> u16 option \<times> 'o"
  write_ecc_word :: "'o \<Rightarrow> nat \<Rightarrow> u16 \<Rightarrow> bool \<times> 'o"
  read_raw_word :: "'o \<Rightarrow> nat \<Rightarrow> u32 option \<times> 'o"
  write_raw_word :: "'o \<Rightarrow> nat \<Rightarrow> u32 \<Rightarrow> bool \<times> 'o"
  sw_lock :: "'o \<Rightarrow> nat \<Rightarrow> 'o"

definition u16_to_le_bytes :: "u16 \<Rightarrow> bytes" where
  "u16_to_le_bytes w = [ucast w, ucast (drop_bit 8 w)]"

definition u16_from_le_bytes :: "u8 \<Rightarrow> u8 \<Rightarrow> u16" where
  "u16_from_le_bytes a b = ucast a OR push_bit 8 (ucast b)"

section \<open>Rows\<close>

definition degenerate :: "bytes \<Rightarrow> bool" where
  "degenerate secret \<longleftrightarrow> list_all (\<lambda>b. b = 0x00) secret \<or> list_all (\<lambda>b. b = 0xFF) secret"

definition write_verified :: "'o otp_ops \<Rightarrow> nat \<Rightarrow> u16 \<Rightarrow> 'o \<Rightarrow> (hal_error + unit) \<times> 'o" where
  "write_verified T row val s =
     (case write_ecc_word T s row val of
        (False, s1) \<Rightarrow> (Inl Secret, s1)
      | (True, s1) \<Rightarrow>
          (case read_ecc_word T s1 row of
             (v, s2) \<Rightarrow> (if v = Some val then Inr () else Inl Secret, s2)))"

definition ensure_hard_lock :: "'o otp_ops \<Rightarrow> nat \<Rightarrow> 'o \<Rightarrow> (hal_error + unit) \<times> 'o" where
  "ensure_hard_lock T page s =
     (let row = lock1_row page in
      case read_raw_word T s row of
        (None, s1) \<Rightarrow> (Inl Secret, s1)
      | (Some cur, s1) \<Rightarrow>
          if cur AND LOCK1_VALUE = LOCK1_VALUE then (Inr (), s1)
          else
            (case write_raw_word T s1 row LOCK1_VALUE of
               (False, s2) \<Rightarrow> (Inl Secret, s2)
             | (True, s2) \<Rightarrow>
                 (case read_raw_word T s2 row of
                    (Some v, s3) \<Rightarrow> (if v AND LOCK1_VALUE = LOCK1_VALUE then Inr () else Inl Secret, s3)
                  | (None, s3) \<Rightarrow> (Inl Secret, s3))))"

definition void_slot :: "'o otp_ops \<Rightarrow> nat \<Rightarrow> 'o \<Rightarrow> 'o" where
  "void_slot T page s = snd (write_ecc_word T s (base_row page + SECRET_ROWS + 1) MARKER_VOID)"

text \<open>The loops over the rows of the secret: reading it, checking that the rows are blank, burning it.\<close>

fun read_rows :: "'o otp_ops \<Rightarrow> nat \<Rightarrow> nat \<Rightarrow> 'o \<Rightarrow> bytes option \<times> 'o" where
  "read_rows T row 0 s = (Some [], s)"
| "read_rows T row (Suc n) s =
     (case read_ecc_word T s row of
        (None, s1) \<Rightarrow> (None, s1)
      | (Some w, s1) \<Rightarrow>
          (case read_rows T (Suc row) n s1 of
             (bs, s2) \<Rightarrow> (map_option ((@) (u16_to_le_bytes w)) bs, s2)))"

fun rows_blank :: "'o otp_ops \<Rightarrow> nat \<Rightarrow> nat \<Rightarrow> 'o \<Rightarrow> bool \<times> 'o" where
  "rows_blank T row 0 s = (True, s)"
| "rows_blank T row (Suc n) s =
     (case read_ecc_word T s row of
        (v, s1) \<Rightarrow> if v = Some 0 then rows_blank T (Suc row) n s1 else (False, s1))"

fun write_rows :: "'o otp_ops \<Rightarrow> nat \<Rightarrow> bytes \<Rightarrow> 'o \<Rightarrow> (hal_error + unit) \<times> 'o" where
  "write_rows T row (a # b # bs) s =
     (case write_verified T row (u16_from_le_bytes a b) s of
        (Inl e, s1) \<Rightarrow> (Inl e, s1)
      | (Inr _, s1) \<Rightarrow> write_rows T (Suc row) bs s1)"
| "write_rows T row _ s = (Inr (), s)"

section \<open>Slots\<close>

definition try_load :: "'o otp_ops \<Rightarrow> nat \<Rightarrow> 'o \<Rightarrow> slot_state \<times> 'o" where
  "try_load T page s =
     (let b = base_row page in
      case read_ecc_word T s (b + SECRET_ROWS) of
        (None, s1) \<Rightarrow> (Unusable, s1)
      | (Some marker, s1) \<Rightarrow>
          (case read_ecc_word T s1 (b + SECRET_ROWS + 1) of
             (None, s2) \<Rightarrow> (Unusable, s2)
           | (Some void, s2) \<Rightarrow>
               if void \<noteq> 0 then (Unusable, s2)
               else if marker = MARKER_VALID then
                 (case read_rows T b SECRET_ROWS s2 of
                    (None, s3) \<Rightarrow> (Unusable, s3)
                  | (Some secret, s3) \<Rightarrow>
                      if degenerate secret then (Unusable, void_slot T page s3)
                      else
                        (case ensure_hard_lock T page s3 of
                           (Inl _, s4) \<Rightarrow> (Unusable, void_slot T page s4)
                         | (Inr _, s4) \<Rightarrow> (Valid secret, s4)))
               else if marker \<noteq> 0 then (Unusable, void_slot T page s2)
               else
                 (case rows_blank T b SECRET_ROWS s2 of
                    (True, s3) \<Rightarrow> (Blank, s3)
                  | (False, s3) \<Rightarrow> (Unusable, void_slot T page s3))))"

text \<open>The part of \<^verbatim>\<open>provision\<close> after the secret was drawn.\<close>

definition burn :: "'o otp_ops \<Rightarrow> nat \<Rightarrow> bytes \<Rightarrow> 'o \<Rightarrow> (hal_error + bytes) \<times> 'o" where
  "burn T page secret s =
     (let b = base_row page in
      case write_rows T b secret s of
        (Inl _, s1) \<Rightarrow> (Inl Secret, void_slot T page s1)
      | (Inr _, s1) \<Rightarrow>
          (case write_verified T (b + SECRET_ROWS) MARKER_VALID s1 of
             (Inl _, s2) \<Rightarrow> (Inl Secret, void_slot T page s2)
           | (Inr _, s2) \<Rightarrow>
               (case ensure_hard_lock T page s2 of
                  (Inl _, s3) \<Rightarrow> (Inl Secret, void_slot T page s3)
                | (Inr _, s3) \<Rightarrow> (Inr secret, s3))))"

definition provision ::
    "'r externs \<Rightarrow> 'e entropy_ops \<Rightarrow> 'o otp_ops \<Rightarrow> nat \<Rightarrow> 'o \<Rightarrow> 'e \<Rightarrow> (hal_error + bytes) \<times> 'o \<times> 'e" where
  "provision X eo T page s e =
     (case drbg_seed X eo (drbg_new X) e of
        (Inl err, _, e1) \<Rightarrow> (Inl err, s, e1)
      | (Inr _, drbg, e1) \<Rightarrow>
          let (secret, _) = drbg_fill_bytes X drbg 32 in
          if degenerate secret then (Inl Entropy, s, e1)
          else case burn T page secret s of (res, s1) \<Rightarrow> (res, s1, e1))"

fun lock_others :: "'o otp_ops \<Rightarrow> nat \<Rightarrow> nat list \<Rightarrow> 'o \<Rightarrow> 'o" where
  "lock_others T page [] s = s"
| "lock_others T page (p # ps) s =
     lock_others T page ps (if p \<noteq> page then snd (ensure_hard_lock T p s) else s)"

fun load_pages ::
    "'r externs \<Rightarrow> 'e entropy_ops \<Rightarrow> 'o otp_ops \<Rightarrow> nat list \<Rightarrow> 'o \<Rightarrow> 'e \<Rightarrow> (hal_error + bytes) \<times> 'o \<times> 'e" where
  "load_pages X eo T [] s e = (Inl Secret, s, e)"
| "load_pages X eo T (page # pages) s e =
     (case try_load T page s of
        (Valid secret, s1) \<Rightarrow> (Inr secret, lock_others T page SLOT_PAGES s1, e)
      | (Blank, s1) \<Rightarrow>
          (case provision X eo T page s1 e of
             (Inr secret, s2, e2) \<Rightarrow> (Inr secret, lock_others T page SLOT_PAGES s2, e2)
           | (Inl Entropy, s2, e2) \<Rightarrow> (Inl Entropy, s2, e2)
           | (Inl _, s2, e2) \<Rightarrow> load_pages X eo T pages s2 e2)
      | (Unusable, s1) \<Rightarrow> load_pages X eo T pages s1 e)"

definition load_or_provision ::
    "'r externs \<Rightarrow> 'e entropy_ops \<Rightarrow> 'o otp_ops \<Rightarrow> 'o \<Rightarrow> 'e \<Rightarrow> (hal_error + bytes) \<times> 'o \<times> 'e" where
  "load_or_provision X eo T s e = load_pages X eo T SLOT_PAGES s e"

definition lock_slots :: "'o otp_ops \<Rightarrow> 'o \<Rightarrow> 'o" where
  "lock_slots T s = foldl (sw_lock T) s SLOT_PAGES"

section \<open>The contract of the memory\<close>

text \<open>
  \<open>ecc\<close> is the value of a row under error correction (\<open>None\<close> when it cannot be corrected), \<open>raw\<close> its 24
  raw bits. A write, successful or not, changes no other row.
\<close>

locale otp_rom =
  fixes T :: "'o otp_ops"
    and ecc :: "'o \<Rightarrow> nat \<Rightarrow> u16 option"
    and raw :: "'o \<Rightarrow> nat \<Rightarrow> u32"
  assumes read_ecc: "read_ecc_word T s r = (Some w, s') \<Longrightarrow> ecc s r = Some w"
    and read_ecc_frame: "read_ecc_word T s r = (v, s') \<Longrightarrow> ecc s' = ecc s \<and> raw s' = raw s"
    and write_ecc_frame: "write_ecc_word T s r w = (b, s') \<Longrightarrow> r' \<noteq> r \<Longrightarrow> ecc s' r' = ecc s r' \<and> raw s' r' = raw s r'"
    and read_raw: "read_raw_word T s r = (Some x, s') \<Longrightarrow> raw s r = x"
    and read_raw_frame: "read_raw_word T s r = (y, s') \<Longrightarrow> ecc s' = ecc s \<and> raw s' = raw s"
    and write_raw_frame: "write_raw_word T s r x = (b, s') \<Longrightarrow> r' \<noteq> r \<Longrightarrow> ecc s' r' = ecc s r' \<and> raw s' r' = raw s r'"

text \<open>
  A memory that works while \<open>good\<close> holds, that is while no page is locked by software. A row can be burnt
  when it is blank and the lock word of its page is blank, and a blank lock word can be burnt; nothing
  is promised of writes to a page with a lock, where the hardware refuses them. The software locks of
  \<open>lock_slots\<close> hide the rows but do not change what they hold.
\<close>

locale otp_reliable = otp_rom +
  fixes good :: "'a \<Rightarrow> bool"
  assumes good_read_ecc: "good s \<Longrightarrow> \<exists>s'. read_ecc_word T s r = (ecc s r, s') \<and> good s'"
    and good_write_ecc: "good s \<Longrightarrow> write_ecc_word T s r w = (b, s') \<Longrightarrow> good s'"
    and good_write_blank: "good s \<Longrightarrow> raw s (lock1_row (r div ROWS_PER_PAGE)) = 0 \<Longrightarrow> ecc s r = Some 0 \<Longrightarrow>
          write_ecc_word T s r w = (b, s') \<Longrightarrow> b \<and> ecc s' r = Some w"
    and good_read_raw: "good s \<Longrightarrow> \<exists>s'. read_raw_word T s r = (Some (raw s r), s') \<and> good s'"
    and good_write_raw: "good s \<Longrightarrow> write_raw_word T s r x = (b, s') \<Longrightarrow> good s'"
    and good_burn_lock: "good s \<Longrightarrow> raw s (lock1_row p) = 0 \<Longrightarrow> write_raw_word T s (lock1_row p) x = (b, s') \<Longrightarrow>
          b \<and> raw s' (lock1_row p) = x"
    and sw_lock_frame: "ecc (sw_lock T s p) = ecc s \<and> raw (sw_lock T s p) = raw s"

section \<open>What a slot holds\<close>

fun rows_hold :: "(nat \<Rightarrow> u16 option) \<Rightarrow> nat \<Rightarrow> bytes \<Rightarrow> bool" where
  "rows_hold f row (a # b # bs) \<longleftrightarrow> f row = Some (u16_from_le_bytes a b) \<and> rows_hold f (Suc row) bs"
| "rows_hold f row _ \<longleftrightarrow> True"

definition slot_ready :: "(nat \<Rightarrow> u16 option) \<Rightarrow> (nat \<Rightarrow> u32) \<Rightarrow> nat \<Rightarrow> bytes \<Rightarrow> bool" where
  "slot_ready f g page secret \<longleftrightarrow> length secret = 2 * SECRET_ROWS \<and> \<not> degenerate secret \<and> rows_hold f (base_row page) secret
     \<and> f (base_row page + SECRET_ROWS) = Some MARKER_VALID \<and> f (base_row page + SECRET_ROWS + 1) = Some 0
     \<and> g (lock1_row page) AND LOCK1_VALUE = LOCK1_VALUE"

lemma u16_from_to_le [simp]: "u16_from_le_bytes (ucast w) (ucast (drop_bit 8 w)) = w"
  by (rule bit_word_eqI)
    (auto simp: u16_from_le_bytes_def bit_or_iff bit_push_bit_iff bit_ucast_iff bit_drop_bit_eq not_le dest: bit_imp_le_length)

lemma u8_bit_beyond: "\<not> bit (a :: u8) (8 + n)"
  using bit_imp_le_length [of a "8 + n"] by auto

lemma u16_to_from_le [simp]: "u16_to_le_bytes (u16_from_le_bytes a b) = [a, b]"
  by (auto simp: u16_to_le_bytes_def u16_from_le_bytes_def bit_or_iff bit_push_bit_iff bit_ucast_iff bit_drop_bit_eq not_le
      u8_bit_beyond intro!: bit_word_eqI)

lemma u16_from_le_inj [simp]: "u16_from_le_bytes a b = u16_from_le_bytes c d \<longleftrightarrow> a = c \<and> b = d"
  by (metis list.inject u16_to_from_le)

lemma rows_hold_cong:
  "(\<And>i. row \<le> i \<Longrightarrow> i < row + length bs div 2 \<Longrightarrow> f i = g i) \<Longrightarrow> rows_hold f row bs = rows_hold g row bs"
  by (induction f row bs rule: rows_hold.induct) simp_all

lemma rows_hold_inj:
  "rows_hold f row bs \<Longrightarrow> rows_hold f row bs' \<Longrightarrow> length bs = length bs' \<Longrightarrow> even (length bs) \<Longrightarrow> bs = bs'"
proof (induction f row bs arbitrary: bs' rule: rows_hold.induct)
  case (1 f row a b bs)
  from 1(4) obtain a' b' cs where c: "bs' = a' # b' # cs" by (metis length_Suc_conv)
  from 1(2,3) have "a = a'" "b = b'" by (simp_all add: c)
  then show ?case using 1 by (simp add: c)
qed auto

text \<open>A slot that is never taken for a secret nor provisioned: voided, unreadable, or with rows that are neither
  blank nor a complete secret.\<close>

definition rows_bad :: "(nat \<Rightarrow> u16 option) \<Rightarrow> nat \<Rightarrow> bool" where
  "rows_bad f page \<longleftrightarrow> (case f (base_row page + SECRET_ROWS) of
       None \<Rightarrow> True
     | Some marker \<Rightarrow>
         if marker = MARKER_VALID then (\<exists>i<SECRET_ROWS. f (base_row page + i) = None)
           \<or> (\<exists>secret. length secret = 2 * SECRET_ROWS \<and> rows_hold f (base_row page) secret \<and> degenerate secret)
         else marker \<noteq> 0 \<or> (\<exists>i<SECRET_ROWS. f (base_row page + i) \<noteq> Some 0))"

lemma rows_bad_reads:
  assumes "m = f (base_row page + SECRET_ROWS)" and "x = None \<longleftrightarrow> (\<exists>i<SECRET_ROWS. f (base_row page + i) = None)"
    and "\<And>secret. x = Some secret \<Longrightarrow> length secret = 2 * SECRET_ROWS" and "\<And>secret. x = Some secret \<Longrightarrow> rows_hold f (base_row page) secret"
    and "y \<longleftrightarrow> (\<forall>i<SECRET_ROWS. f (base_row page + i) = Some 0)"
  shows "rows_bad f page \<longleftrightarrow> m = None \<or> m = Some MARKER_VALID \<and> (x = None \<or> (\<exists>secret. x = Some secret \<and> degenerate secret))
    \<or> (\<exists>k. m = Some k \<and> k \<noteq> MARKER_VALID \<and> (k \<noteq> 0 \<or> \<not> y))"
proof -
  have "(\<exists>secret. length secret = 2 * SECRET_ROWS \<and> rows_hold f (base_row page) secret \<and> degenerate secret) \<longleftrightarrow> degenerate z"
    if z: "x = Some z" for z
  proof -
    have "secret = z" if "length secret = 2 * SECRET_ROWS" "rows_hold f (base_row page) secret" for secret
      by (rule rows_hold_inj [OF that(2)]) (use assms(3,4) [OF z] that(1) in simp_all)
    then show ?thesis using assms(3,4) [OF z] by blast
  qed
  then show ?thesis using assms(2,5) unfolding rows_bad_def assms(1) [symmetric] by (cases m; cases x) auto
qed

definition slot_bad :: "(nat \<Rightarrow> u16 option) \<Rightarrow> nat \<Rightarrow> bool" where
  "slot_bad f page \<longleftrightarrow> f (base_row page + SECRET_ROWS + 1) \<noteq> Some 0 \<or> rows_bad f page"

lemma rows_bad_cong:
  assumes "\<And>r. base_row page \<le> r \<Longrightarrow> r \<le> base_row page + SECRET_ROWS \<Longrightarrow> f r = f' r"
  shows "rows_bad f page = rows_bad f' page"
proof -
  have "rows_hold f (base_row page) secret = rows_hold f' (base_row page) secret" if "length secret = 2 * SECRET_ROWS" for secret
    by (rule rows_hold_cong) (use assms that in auto)
  moreover have "f (base_row page + i) = f' (base_row page + i)" if "i < SECRET_ROWS" for i using assms that by simp
  moreover have "f (base_row page + SECRET_ROWS) = f' (base_row page + SECRET_ROWS)" using assms by simp
  ultimately show ?thesis by (auto simp: rows_bad_def split: option.splits)
qed

lemma rows_hold_readable: "rows_hold f row bs \<Longrightarrow> i < length bs div 2 \<Longrightarrow> f (row + i) \<noteq> None"
proof (induction f row bs arbitrary: i rule: rows_hold.induct)
  case (1 f row a b bs)
  then show ?case by (cases i) auto
qed auto

definition slot_rows :: "nat \<Rightarrow> nat set" where
  "slot_rows page = {base_row page ..< base_row page + SECRET_ROWS + 2}"

lemma slot_rows_disjoint:
  "p \<in> set SLOT_PAGES \<Longrightarrow> q \<in> set SLOT_PAGES \<Longrightarrow> lock1_row q \<notin> slot_rows p"
  "p \<in> set SLOT_PAGES \<Longrightarrow> q \<in> set SLOT_PAGES \<Longrightarrow> p \<noteq> q \<Longrightarrow> slot_rows p \<inter> slot_rows q = {}"
  "lock1_row p = lock1_row q \<longleftrightarrow> p = q"
  by (auto simp: SLOT_PAGES_def slot_rows_def lock1_row_def base_row_def ROWS_PER_PAGE_def SECRET_ROWS_def)

lemma slot_ready_cong:
  assumes "\<And>r. r \<in> slot_rows page \<Longrightarrow> f r = f' r" and "g (lock1_row page) = g' (lock1_row page)"
  shows "slot_ready f g page secret = slot_ready f' g' page secret"
proof -
  have "length secret = 2 * SECRET_ROWS \<Longrightarrow> rows_hold f (base_row page) secret = rows_hold f' (base_row page) secret"
    by (rule rows_hold_cong) (use assms(1) in \<open>auto simp: slot_rows_def\<close>)
  then show ?thesis using assms by (auto simp: slot_ready_def slot_rows_def)
qed

text \<open>An entropy source whose only failure is \<^verbatim>\<open>HalError::Entropy\<close>; the one of the firmware does not fail at all.\<close>

definition entropy_errors :: "'e entropy_ops \<Rightarrow> bool" where
  "entropy_errors eo \<longleftrightarrow> (\<forall>e n err. fst (fill_raw eo e n) = Inl err \<longrightarrow> err = Entropy)"

lemma drbg_seed_error: "entropy_errors eo \<Longrightarrow> drbg_seed X eo d e = (Inl err, d', e') \<Longrightarrow> err = Entropy"
proof -
  assume eo: "entropy_errors eo" and "drbg_seed X eo d e = (Inl err, d', e')"
  then have "gather_healthy eo e SEED_SAMPLE = (Inl err, e')" by (auto simp: drbg_seed_def split: prod.splits sum.splits)
  moreover have "gather_loop eo n k e = (Inl err, e') \<Longrightarrow> err = Entropy" for n k e
  proof (induction k arbitrary: e)
    case (Suc k)
    obtain x e1 where "fill_raw eo e n = (x, e1)" by fastforce
    moreover have "x = Inl err' \<Longrightarrow> err' = Entropy" for err' using eo calculation by (metis entropy_errors_def fst_conv)
    ultimately show ?case using Suc by (cases x) (auto split: if_splits)
  qed simp
  ultimately show ?thesis by (simp add: gather_healthy_def)
qed

context otp_rom
begin

lemma read_rows_spec:
  "read_rows T row n s = (v, s') \<Longrightarrow> ecc s' = ecc s \<and> raw s' = raw s
    \<and> (\<forall>bs. v = Some bs \<longrightarrow> length bs = 2 * n \<and> rows_hold (ecc s) row bs)"
proof (induction n arbitrary: row s v s')
  case (Suc n)
  obtain x s1 where 1: "read_ecc_word T s row = (x, s1)" by fastforce
  note f = read_ecc_frame [OF 1]
  show ?case
  proof (cases x)
    case (Some w)
    obtain y s2 where 2: "read_rows T (Suc row) n s1 = (y, s2)" by fastforce
    have r: "ecc s row = Some w" using read_ecc 1 Some by simp
    show ?thesis using Suc.IH [OF 2] Suc.prems f r by (auto simp: 1 2 Some u16_to_le_bytes_def)
  qed (use Suc.prems f in \<open>auto simp: 1\<close>)
qed simp

lemma rows_blank_spec:
  "rows_blank T row n s = (v, s') \<Longrightarrow> ecc s' = ecc s \<and> raw s' = raw s
    \<and> (v \<longrightarrow> (\<forall>i<n. ecc s (row + i) = Some 0))"
proof (induction n arbitrary: row s v s')
  case (Suc n)
  obtain x s1 where 1: "read_ecc_word T s row = (x, s1)" by fastforce
  note f = read_ecc_frame [OF 1]
  show ?case
  proof (cases "x = Some 0")
    case True
    have r: "ecc s row = Some 0" using read_ecc 1 True by simp
    have "rows_blank T (Suc row) n s1 = (v, s')" using Suc.prems by (simp add: 1 True)
    from Suc.IH [OF this] f r show ?thesis by (auto simp: less_Suc_eq_0_disj)
  qed (use Suc.prems f in \<open>auto simp: 1\<close>)
qed simp

lemma write_verified_spec:
  assumes "write_verified T row val s = (res, s')"
  shows "res = Inr u \<Longrightarrow> ecc s' row = Some val"
    and "r \<noteq> row \<Longrightarrow> ecc s' r = ecc s r \<and> raw s' r = raw s r"
proof -
  obtain b s1 where 1: "write_ecc_word T s row val = (b, s1)" by fastforce
  obtain v s2 where 2: "read_ecc_word T s1 row = (v, s2)" by fastforce
  show "ecc s' row = Some val" if "res = Inr u"
    using that assms read_ecc [of s1 row val s2] read_ecc_frame [OF 2]
    by (auto simp: write_verified_def 1 2 split: bool.splits if_splits)
  show "ecc s' r = ecc s r \<and> raw s' r = raw s r" if "r \<noteq> row"
    using assms write_ecc_frame [OF 1 that] read_ecc_frame [OF 2]
    by (auto simp: write_verified_def 1 2 split: bool.splits if_splits)
qed

lemma write_rows_spec:
  "write_rows T row bs s = (res, s') \<Longrightarrow>
    (\<forall>r. r < row \<or> row + length bs div 2 \<le> r \<longrightarrow> ecc s' r = ecc s r \<and> raw s' r = raw s r)
    \<and> (is_ok res \<longrightarrow> rows_hold (ecc s') row bs)"
proof (induction bs arbitrary: row s rule: induct_list012)
  case (3 a b bs)
  obtain x s1 where 1: "write_verified T row (u16_from_le_bytes a b) s = (x, s1)" by fastforce
  note w = write_verified_spec [OF 1]
  show ?case
  proof (cases x)
    case (Inr u)
    then have "write_rows T (Suc row) bs s1 = (res, s')" using 3(3) by (simp add: 1)
    from 3(1) [OF this] w show ?thesis by (auto simp: Inr)
  qed (use 3(3) w(2) in \<open>auto simp: 1\<close>)
qed auto

lemma ensure_hard_lock_spec:
  assumes "ensure_hard_lock T page s = (res, s')"
  shows "is_ok res \<Longrightarrow> raw s' (lock1_row page) AND LOCK1_VALUE = LOCK1_VALUE"
    and "r \<noteq> lock1_row page \<Longrightarrow> ecc s' r = ecc s r \<and> raw s' r = raw s r"
proof -
  let ?row = "lock1_row page"
  obtain x s1 where 1: "read_raw_word T s ?row = (x, s1)" by fastforce
  obtain b s2 where 2: "write_raw_word T s1 ?row LOCK1_VALUE = (b, s2)" by fastforce
  obtain y s3 where 3: "read_raw_word T s2 ?row = (y, s3)" by fastforce
  note f = read_raw_frame [OF 1] read_raw_frame [OF 3]
  show "raw s' ?row AND LOCK1_VALUE = LOCK1_VALUE" if "is_ok res"
    using that assms f read_raw [of s ?row _ s1] read_raw [of s2 ?row _ s3]
    by (auto simp: ensure_hard_lock_def 1 2 3 Let_def split: option.splits if_splits bool.splits)
  show "ecc s' r = ecc s r \<and> raw s' r = raw s r" if "r \<noteq> ?row"
    using assms f write_raw_frame [OF 2 that]
    by (auto simp: ensure_hard_lock_def 1 2 3 Let_def split: option.splits if_splits bool.splits)
qed

lemma void_slot_frame: "r \<noteq> base_row page + SECRET_ROWS + 1 \<Longrightarrow> ecc (void_slot T page s) r = ecc s r \<and> raw (void_slot T page s) r = raw s r"
  using write_ecc_frame [of s "base_row page + SECRET_ROWS + 1" MARKER_VOID "fst (write_ecc_word T s (base_row page + SECRET_ROWS + 1) MARKER_VOID)" "void_slot T page s" r]
  by (simp add: void_slot_def)

lemma lock_others_frame:
  "(\<And>p. p \<in> set ps \<Longrightarrow> p \<noteq> page \<Longrightarrow> r \<noteq> lock1_row p) \<Longrightarrow> ecc (lock_others T page ps s) r = ecc s r \<and> raw (lock_others T page ps s) r = raw s r"
proof (induction ps arbitrary: s)
  case (Cons p ps)
  have "ecc (snd (ensure_hard_lock T p s)) r = ecc s r \<and> raw (snd (ensure_hard_lock T p s)) r = raw s r" if "p \<noteq> page"
    by (rule ensure_hard_lock_spec(2) [where page = p and res = "fst (ensure_hard_lock T p s)"]) (use Cons.prems that in auto)
  with Cons show ?case by auto
qed simp

lemma lock_others_ready:
  assumes "page \<in> set SLOT_PAGES"
  shows "slot_ready (ecc (lock_others T page SLOT_PAGES s)) (raw (lock_others T page SLOT_PAGES s)) page secret
    = slot_ready (ecc s) (raw s) page secret"
  by (rule slot_ready_cong) (use assms lock_others_frame slot_rows_disjoint in \<open>metis\<close>)+

lemma burn_ready:
  assumes "burn T page secret s = (Inr secret', s')" and "ecc s (base_row page + SECRET_ROWS + 1) = Some 0"
    and "length secret = 2 * SECRET_ROWS" and "\<not> degenerate secret" and "page \<in> set SLOT_PAGES"
  shows "secret' = secret" and "slot_ready (ecc s') (raw s') page secret"
proof -
  let ?b = "base_row page"
  obtain r1 s1 where 1: "write_rows T ?b secret s = (r1, s1)" by fastforce
  obtain r2 s2 where 2: "write_verified T (?b + SECRET_ROWS) MARKER_VALID s1 = (r2, s2)" by fastforce
  obtain r3 s3 where 3: "ensure_hard_lock T page s2 = (r3, s3)" by fastforce
  have good: "is_ok r1" "r2 = Inr ()" "is_ok r3" "s' = s3" and "secret' = secret"
    using assms(1) by (auto simp: burn_def 1 2 3 Let_def is_ok_iff split: sum.splits)
  then show "secret' = secret" by simp
  note w = write_rows_spec [OF 1] and m = write_verified_spec [OF 2] and l = ensure_hard_lock_spec [OF 3]
  have n: "r \<noteq> lock1_row page" if "r \<in> slot_rows page" for r using slot_rows_disjoint(1) assms(5) that by blast
  have "rows_hold (ecc s3) ?b secret = rows_hold (ecc s1) ?b secret"
    by (rule rows_hold_cong) (use assms(3) l(2) m(2) n in \<open>auto simp: slot_rows_def\<close>)
  moreover have "ecc s3 (?b + SECRET_ROWS) = Some MARKER_VALID"
    using m(1) good(2) l(2) n [of "?b + SECRET_ROWS"] by (simp add: slot_rows_def)
  moreover have "ecc s3 (?b + SECRET_ROWS + 1) = Some 0"
    using w m(2) l(2) n [of "?b + SECRET_ROWS + 1"] assms(2,3) by (simp add: slot_rows_def)
  ultimately show "slot_ready (ecc s') (raw s') page secret"
    using good w l(1) assms(3,4) by (simp add: slot_ready_def)
qed

lemma burn_marker:
  assumes "burn T page secret s = (res, s')" and "length secret = 2 * SECRET_ROWS" and "page \<in> set SLOT_PAGES"
    and "ecc s (base_row page + SECRET_ROWS) = Some 0"
  shows "ecc s' (base_row page + SECRET_ROWS) = Some 0 \<or> rows_hold (ecc s') (base_row page) secret"
proof -
  let ?b = "base_row page"
  obtain r1 s1 where 1: "write_rows T ?b secret s = (r1, s1)" by fastforce
  obtain r2 s2 where 2: "write_verified T (?b + SECRET_ROWS) MARKER_VALID s1 = (r2, s2)" by fastforce
  obtain r3 s3 where 3: "ensure_hard_lock T page s2 = (r3, s3)" by fastforce
  note w = write_rows_spec [OF 1]
  have v: "ecc (void_slot T page t) r = ecc t r" if "r < ?b + SECRET_ROWS + 1" for t r using void_slot_frame [of r page t] that by simp
  show ?thesis
  proof (cases r1)
    case (Inl e)
    then have "s' = void_slot T page s1" using assms(1) by (simp add: burn_def 1 Let_def)
    then show ?thesis using w v [of "?b + SECRET_ROWS" s1] assms(2,4) by simp
  next
    case (Inr u)
    have m: "ecc s2 r = ecc s1 r \<and> ecc s3 r = ecc s1 r" if "?b \<le> r" "r < ?b + SECRET_ROWS" for r
    proof -
      have "r \<in> slot_rows page" using that by (simp add: slot_rows_def)
      then have "r \<noteq> lock1_row page" using slot_rows_disjoint(1) [OF assms(3,3)] by blast
      then show ?thesis using write_verified_spec(2) [OF 2, of r] ensure_hard_lock_spec(2) [OF 3, of r] that by simp
    qed
    have "s' \<in> {void_slot T page s2, void_slot T page s3, s3}" using assms(1) Inr by (auto simp: burn_def 1 2 3 Let_def split: sum.splits)
    then have "ecc s' r = ecc s1 r" if "?b \<le> r" "r < ?b + SECRET_ROWS" for r using m [OF that] v [of r] that by auto
    then have "rows_hold (ecc s') ?b secret = rows_hold (ecc s1) ?b secret" by (intro rows_hold_cong) (use assms(2) in auto)
    then show ?thesis using w Inr by simp
  qed
qed

definition touches :: "nat \<Rightarrow> nat \<Rightarrow> bool" where
  "touches page r \<longleftrightarrow> r \<in> slot_rows page \<or> r = lock1_row page"

lemma try_load_frame:
  assumes "try_load T page s = (st, s')" and "\<not> touches page r"
  shows "ecc s' r = ecc s r \<and> raw s' r = raw s r"
proof -
  let ?b = "base_row page"
  obtain m s1 where 1: "read_ecc_word T s (?b + SECRET_ROWS) = (m, s1)" by fastforce
  obtain v s2 where 2: "read_ecc_word T s1 (Suc (?b + SECRET_ROWS)) = (v, s2)" by fastforce
  obtain x s3 where 3: "read_rows T ?b SECRET_ROWS s2 = (x, s3)" by fastforce
  obtain y s4 where 4: "rows_blank T ?b SECRET_ROWS s2 = (y, s4)" by fastforce
  obtain l s5 where 5: "ensure_hard_lock T page s3 = (l, s5)" by fastforce
  have "ecc s5 r = ecc s3 r \<and> raw s5 r = raw s3 r"
    by (rule ensure_hard_lock_spec(2) [OF 5]) (use assms(2) in \<open>simp add: touches_def\<close>)
  moreover have "ecc (void_slot T page t) r = ecc t r \<and> raw (void_slot T page t) r = raw t r" for t
    by (rule void_slot_frame) (use assms(2) in \<open>auto simp: touches_def slot_rows_def\<close>)
  ultimately show ?thesis
    using assms(1) read_ecc_frame [OF 1] read_ecc_frame [OF 2] read_rows_spec [OF 3] rows_blank_spec [OF 4]
    by (auto simp: try_load_def 1 2 3 4 5 Let_def split: option.splits if_splits sum.splits bool.splits)
qed

lemma try_load_valid:
  assumes "try_load T page s = (Valid secret, s')" and "page \<in> set SLOT_PAGES"
  shows "slot_ready (ecc s') (raw s') page secret"
proof -
  let ?b = "base_row page"
  obtain m s1 where 1: "read_ecc_word T s (?b + SECRET_ROWS) = (m, s1)" by fastforce
  obtain v s2 where 2: "read_ecc_word T s1 (Suc (?b + SECRET_ROWS)) = (v, s2)" by fastforce
  obtain x s3 where 3: "read_rows T ?b SECRET_ROWS s2 = (x, s3)" by fastforce
  obtain l s5 where 5: "ensure_hard_lock T page s3 = (l, s5)" by fastforce
  have g: "m = Some MARKER_VALID" "v = Some 0" "x = Some secret" "\<not> degenerate secret" "is_ok l" "s' = s5"
    using assms(1) by (auto simp: try_load_def 1 2 3 5 Let_def split: option.splits if_splits sum.splits prod.splits bool.splits)
  note f = read_ecc_frame [OF 1] read_ecc_frame [OF 2] read_rows_spec [OF 3]
  have e: "ecc s3 (?b + SECRET_ROWS) = Some MARKER_VALID" "ecc s3 (?b + SECRET_ROWS + 1) = Some 0"
    using f g(1,2) read_ecc [of s _ MARKER_VALID s1] read_ecc [of s1 _ 0 s2] 1 2 by auto
  have k: "ecc s5 r = ecc s3 r" if "r \<in> slot_rows page" for r
    using ensure_hard_lock_spec(2) [OF 5] slot_rows_disjoint(1) [OF assms(2,2)] that by metis
  have "rows_hold (ecc s5) ?b secret = rows_hold (ecc s3) ?b secret"
    by (rule rows_hold_cong) (use f g(3) k in \<open>auto simp: slot_rows_def\<close>)
  then show ?thesis
    using f g e k [of "?b + SECRET_ROWS"] k [of "?b + SECRET_ROWS + 1"] ensure_hard_lock_spec(1) [OF 5]
    by (auto simp: slot_ready_def slot_rows_def)
qed

lemma try_load_blank:
  assumes "try_load T page s = (Blank, s')"
  shows "ecc s' = ecc s" and "raw s' = raw s" and "ecc s (base_row page + SECRET_ROWS) = Some 0"
    and "ecc s (base_row page + SECRET_ROWS + 1) = Some 0" and "i < SECRET_ROWS \<Longrightarrow> ecc s (base_row page + i) = Some 0"
proof -
  let ?b = "base_row page"
  obtain m s1 where 1: "read_ecc_word T s (?b + SECRET_ROWS) = (m, s1)" by fastforce
  obtain v s2 where 2: "read_ecc_word T s1 (Suc (?b + SECRET_ROWS)) = (v, s2)" by fastforce
  obtain y s4 where 4: "rows_blank T ?b SECRET_ROWS s2 = (y, s4)" by fastforce
  have g: "m = Some 0" "v = Some 0" "y" "s' = s4"
    using assms by (auto simp: try_load_def 1 2 4 Let_def MARKER_VALID_def split: option.splits if_splits sum.splits prod.splits bool.splits)
  show "ecc s' = ecc s" "raw s' = raw s" "ecc s (?b + SECRET_ROWS) = Some 0" "ecc s (?b + SECRET_ROWS + 1) = Some 0"
    "i < SECRET_ROWS \<Longrightarrow> ecc s (?b + i) = Some 0"
    using g read_ecc_frame [OF 1] read_ecc_frame [OF 2] rows_blank_spec [OF 4] read_ecc [of s _ 0 s1] read_ecc [of s1 _ 0 s2] 1 2
    by auto
qed

lemma burn_frame:
  assumes "burn T page secret s = (res, s')" and "length secret = 2 * SECRET_ROWS" and "\<not> touches page r"
  shows "ecc s' r = ecc s r \<and> raw s' r = raw s r"
proof -
  let ?b = "base_row page"
  obtain r1 s1 where 1: "write_rows T ?b secret s = (r1, s1)" by fastforce
  obtain r2 s2 where 2: "write_verified T (?b + SECRET_ROWS) MARKER_VALID s1 = (r2, s2)" by fastforce
  obtain r3 s3 where 3: "ensure_hard_lock T page s2 = (r3, s3)" by fastforce
  have r: "r < ?b \<or> ?b + SECRET_ROWS + 2 \<le> r" "r \<noteq> lock1_row page" using assms(3) by (auto simp: touches_def slot_rows_def)
  have "ecc s1 r = ecc s r \<and> raw s1 r = raw s r" using write_rows_spec [OF 1] r(1) assms(2) by auto
  moreover have "ecc s2 r = ecc s1 r \<and> raw s2 r = raw s1 r" by (rule write_verified_spec(2) [OF 2]) (use r(1) in auto)
  moreover have "ecc s3 r = ecc s2 r \<and> raw s3 r = raw s2 r" by (rule ensure_hard_lock_spec(2) [OF 3 r(2)])
  moreover have "ecc (void_slot T page t) r = ecc t r \<and> raw (void_slot T page t) r = raw t r" for t
    by (rule void_slot_frame) (use r(1) in auto)
  ultimately show ?thesis using assms(1) by (auto simp: burn_def 1 2 3 Let_def split: sum.splits)
qed

lemma provision_cases:
  assumes "provision X eo T page s e = (res, s', e')" and "lengths_ok X"
  obtains (entropy) err where "res = Inl err" "s' = s" "entropy_errors eo \<Longrightarrow> err = Entropy"
  | (burnt) secret where "burn T page secret s = (res, s')" "length secret = 2 * SECRET_ROWS" "\<not> degenerate secret"
proof -
  obtain r d e1 where 1: "drbg_seed X eo (drbg_new X) e = (r, d, e1)" by (metis prod.exhaust)
  obtain secret d' where 2: "drbg_fill_bytes X d 32 = (secret, d')" by fastforce
  have "length (fst (drbg_fill_bytes X d 32)) = 32"
    using assms(2) by (simp add: lengths_ok_def drbg_fill_bytes_def Let_def split_def)
  then have "length secret = 2 * SECRET_ROWS" by (simp add: 2 SECRET_ROWS_def)
  moreover have "err = Entropy" if "r = Inl err" "entropy_errors eo" for err using drbg_seed_error [OF that(2)] 1 that(1) by auto
  ultimately show thesis using assms(1) that by (auto simp: provision_def 1 2 split: sum.splits if_splits prod.splits)
qed

lemma load_pages_ready:
  "load_pages X eo T pages s e = (Inr secret, s', e') \<Longrightarrow> lengths_ok X \<Longrightarrow> set pages \<subseteq> set SLOT_PAGES
    \<Longrightarrow> \<exists>page \<in> set pages. slot_ready (ecc s') (raw s') page secret"
proof (induction pages arbitrary: s e)
  case (Cons page pages)
  have page: "page \<in> set SLOT_PAGES" using Cons.prems(3) by simp
  obtain st s1 where 1: "try_load T page s = (st, s1)" by fastforce
  show ?case
  proof (cases st)
    case (Valid sec)
    then have "sec = secret" "s' = lock_others T page SLOT_PAGES s1" using Cons.prems(1) by (auto simp: 1)
    moreover have "slot_ready (ecc s1) (raw s1) page sec" by (rule try_load_valid) (use 1 Valid page in simp_all)
    ultimately show ?thesis using lock_others_ready [OF page] by auto
  next
    case Blank
    note b = try_load_blank [OF 1 [unfolded Blank]]
    obtain res s2 e2 where 2: "provision X eo T page s1 e = (res, s2, e2)" by (metis prod.exhaust)
    show ?thesis
    proof (cases res)
      case (Inr sec)
      obtain sec' where p: "burn T page sec' s1 = (Inr sec, s2)" "length sec' = 2 * SECRET_ROWS" "\<not> degenerate sec'"
        using provision_cases [OF 2 Cons.prems(2)] Inr by (metis Inl_Inr_False)
      have "secret = sec" "s' = lock_others T page SLOT_PAGES s2" using Cons.prems(1) by (auto simp: 1 2 Blank Inr)
      moreover have "sec = sec'" "slot_ready (ecc s2) (raw s2) page sec'"
        using burn_ready [OF p(1) _ p(2,3) page] b(1,4) by simp_all
      ultimately show ?thesis using lock_others_ready [OF page] by auto
    next
      case (Inl err)
      then have "load_pages X eo T pages s2 e2 = (Inr secret, s', e')"
        using Cons.prems(1) by (cases err) (auto simp: 1 2 Blank)
      then show ?thesis using Cons.IH Cons.prems(2,3) by simp
    qed
  next
    case Unusable
    then show ?thesis using Cons by (simp add: 1)
  qed
qed simp

end

section \<open>Losing power\<close>

text \<open>
  The memory of a device that loses power after a number of operations: from then on nothing has an
  effect. An operation that is interrupted half-way is one that reports an error and leaves anything
  in its row, as the contract allows, followed by the loss of power.
\<close>

definition powered :: "('o \<Rightarrow> 'v \<times> 'o) \<Rightarrow> 'v \<Rightarrow> 'o \<times> nat \<Rightarrow> 'v \<times> 'o \<times> nat" where
  "powered op dead = (\<lambda>(s, n). if n = 0 then (dead, s, 0) else let (v, s1) = op s in (v, s1, n - 1))"

definition cut_power :: "'o otp_ops \<Rightarrow> ('o \<times> nat) otp_ops" where
  "cut_power T = \<lparr> read_ecc_word = (\<lambda>s r. powered (\<lambda>s. read_ecc_word T s r) None s),
     write_ecc_word = (\<lambda>s r w. powered (\<lambda>s. write_ecc_word T s r w) False s),
     read_raw_word = (\<lambda>s r. powered (\<lambda>s. read_raw_word T s r) None s),
     write_raw_word = (\<lambda>s r x. powered (\<lambda>s. write_raw_word T s r x) False s),
     sw_lock = (\<lambda>s p. snd (powered (\<lambda>s. ((), sw_lock T s p)) () s)) \<rparr>"

lemma powered_cases:
  assumes "powered op dead s = (v, s')"
  obtains (off) "v = dead" "fst s' = fst s" | (on) "op (fst s) = (v, fst s')"
  using assms by (auto simp: powered_def split: prod.splits if_splits)

context otp_rom
begin

lemma cut_power_rom: "otp_rom (cut_power T) (\<lambda>s. ecc (fst s)) (\<lambda>s. raw (fst s))"
proof
  fix s r w s' v b r' x y
  show "read_ecc_word (cut_power T) s r = (Some w, s') \<Longrightarrow> ecc (fst s) r = Some w"
    "read_raw_word (cut_power T) s r = (Some x, s') \<Longrightarrow> raw (fst s) r = x"
    by (auto simp: cut_power_def dest: read_ecc read_raw elim!: powered_cases)
  show "read_ecc_word (cut_power T) s r = (v, s') \<Longrightarrow> ecc (fst s') = ecc (fst s) \<and> raw (fst s') = raw (fst s)"
    "read_raw_word (cut_power T) s r = (y, s') \<Longrightarrow> ecc (fst s') = ecc (fst s) \<and> raw (fst s') = raw (fst s)"
    by (auto simp: cut_power_def dest: read_ecc_frame read_raw_frame elim!: powered_cases)
  show "write_ecc_word (cut_power T) s r w = (b, s') \<Longrightarrow> r' \<noteq> r \<Longrightarrow> ecc (fst s') r' = ecc (fst s) r' \<and> raw (fst s') r' = raw (fst s) r'"
    "write_raw_word (cut_power T) s r x = (b, s') \<Longrightarrow> r' \<noteq> r \<Longrightarrow> ecc (fst s') r' = ecc (fst s) r' \<and> raw (fst s') r' = raw (fst s) r'"
    by (auto simp: cut_power_def dest: write_ecc_frame write_raw_frame elim!: powered_cases)
qed

text \<open>With power for 37 operations a burn that succeeds is completed.\<close>

lemma powered_on: "n \<noteq> 0 \<Longrightarrow> powered op dead (s, n) = (let (v, s1) = op s in (v, s1, n - 1))"
  by (simp add: powered_def)

lemma write_verified_powered:
  "write_verified T row v s = (Inr (), s') \<Longrightarrow> write_verified (cut_power T) row v (s, Suc (Suc n)) = (Inr (), s', n)"
  by (auto simp: write_verified_def cut_power_def powered_on split: prod.splits bool.splits if_splits)

lemma write_rows_powered:
  "write_rows T row bs s = (Inr (), s') \<Longrightarrow> write_rows (cut_power T) row bs (s, 2 * (length bs div 2) + n) = (Inr (), s', n)"
proof (induction bs arbitrary: row s rule: induct_list012)
  case (3 a b bs)
  obtain x s1 where 1: "write_verified T row (u16_from_le_bytes a b) s = (x, s1)" by fastforce
  then have x: "x = Inr ()" "write_rows T (Suc row) bs s1 = (Inr (), s')" using 3(3) by (auto split: sum.splits)
  show ?case using write_verified_powered [OF 1 [unfolded x]] 3(1) [OF x(2)] by simp
qed auto

lemma ensure_hard_lock_powered:
  "ensure_hard_lock T page s = (Inr (), s') \<Longrightarrow> \<exists>m. ensure_hard_lock (cut_power T) page (s, 3) = (Inr (), s', m)"
  by (auto simp: ensure_hard_lock_def cut_power_def powered_on Let_def split: prod.splits option.splits bool.splits if_splits)

lemma burn_powered:
  assumes "burn T page secret s = (Inr x, s')" and "length secret = 2 * SECRET_ROWS"
  shows "\<exists>m. burn (cut_power T) page secret (s, 37) = (Inr x, s', m)"
proof -
  let ?b = "base_row page"
  obtain r1 s1 where 1: "write_rows T ?b secret s = (r1, s1)" by fastforce
  obtain r2 s2 where 2: "write_verified T (?b + SECRET_ROWS) MARKER_VALID s1 = (r2, s2)" by fastforce
  obtain r3 s3 where 3: "ensure_hard_lock T page s2 = (r3, s3)" by fastforce
  have r: "r1 = Inr ()" "r2 = Inr ()" "r3 = Inr ()" "s' = s3" "x = secret"
    using assms(1) by (auto simp: burn_def 1 2 3 Let_def split: sum.splits)
  have "write_rows (cut_power T) ?b secret (s, 37) = (Inr (), s1, 5)"
    using write_rows_powered [OF 1 [unfolded r], of 5] assms(2) by (simp add: SECRET_ROWS_def)
  moreover have "write_verified (cut_power T) (?b + SECRET_ROWS) MARKER_VALID (s1, 5) = (Inr (), s2, 3)"
    using write_verified_powered [OF 2 [unfolded r], of 3] by (simp add: numeral_eq_Suc)
  moreover obtain m where "ensure_hard_lock (cut_power T) page (s2, 3) = (Inr (), s3, m)"
    using ensure_hard_lock_powered [OF 3 [unfolded r]] by blast
  ultimately show ?thesis by (simp add: burn_def Let_def r)
qed

lemma try_load_valid_rows:
  assumes "try_load T page s = (Valid secret, s')"
  shows "length secret = 2 * SECRET_ROWS" and "rows_hold (ecc s) (base_row page) secret"
    and "ecc s (base_row page + SECRET_ROWS) = Some MARKER_VALID"
proof -
  let ?b = "base_row page"
  obtain m s1 where 1: "read_ecc_word T s (?b + SECRET_ROWS) = (m, s1)" by fastforce
  obtain v s2 where 2: "read_ecc_word T s1 (Suc (?b + SECRET_ROWS)) = (v, s2)" by fastforce
  obtain x s3 where 3: "read_rows T ?b SECRET_ROWS s2 = (x, s3)" by fastforce
  have g: "m = Some MARKER_VALID" "x = Some secret"
    using assms by (auto simp: try_load_def 1 2 3 Let_def split: option.splits if_splits sum.splits prod.splits bool.splits)
  show "length secret = 2 * SECRET_ROWS" "rows_hold (ecc s) ?b secret" "ecc s (?b + SECRET_ROWS) = Some MARKER_VALID"
    using g read_rows_spec [OF 3] read_ecc_frame [OF 1] read_ecc_frame [OF 2] read_ecc [of s _ MARKER_VALID s1] 1 by auto
qed

end

section \<open>A memory that works\<close>

text \<open>The lock word of a page is blank or completely burnt.\<close>

definition lock_whole :: "u32 \<Rightarrow> bool" where
  "lock_whole x \<longleftrightarrow> x = 0 \<or> x AND LOCK1_VALUE = LOCK1_VALUE"

context otp_reliable
begin

lemma good_void_slot: "good s \<Longrightarrow> good (void_slot T page s)"
  unfolding void_slot_def by (metis good_write_ecc prod.collapse)

lemma good_read: "good s \<Longrightarrow> read_ecc_word T s r = (v, s') \<Longrightarrow> v = ecc s r \<and> good s'"
  using good_read_ecc [of s r] by auto

lemma good_raw: "good s \<Longrightarrow> read_raw_word T s r = (v, s') \<Longrightarrow> v = Some (raw s r) \<and> good s'"
  using good_read_raw [of s r] by auto

lemma good_write_verified: "good s \<Longrightarrow> write_verified T row v s = (res, s') \<Longrightarrow> good s'"
  by (auto simp: write_verified_def split: prod.splits bool.splits dest: good_write_ecc good_read)

lemma good_write_rows: "good s \<Longrightarrow> write_rows T row bs s = (res, s') \<Longrightarrow> good s'"
proof (induction bs arbitrary: row s rule: induct_list012)
  case (3 a b bs)
  obtain x s1 where w: "write_verified T row (u16_from_le_bytes a b) s = (x, s1)" by fastforce
  have "good s1" by (rule good_write_verified [OF 3(3) w])
  then show ?case using 3 w by (cases x) auto
qed auto

lemma good_ensure_hard_lock: "good s \<Longrightarrow> ensure_hard_lock T page s = (res, s') \<Longrightarrow> good s'"
  by (auto simp: ensure_hard_lock_def Let_def split: prod.splits option.splits bool.splits if_splits dest: good_raw good_write_raw)

lemma hard_lock_ok:
  assumes "good s" and "lock_whole (raw s (lock1_row page))" and "ensure_hard_lock T page s = (res, s')"
  shows "res = Inr ()"
proof -
  let ?row = "lock1_row page"
  obtain v s1 where 1: "read_raw_word T s ?row = (v, s1)" by fastforce
  obtain b s2 where 2: "write_raw_word T s1 ?row LOCK1_VALUE = (b, s2)" by fastforce
  obtain w s3 where 3: "read_raw_word T s2 ?row = (w, s3)" by fastforce
  note r = good_raw [OF assms(1) 1] read_raw_frame [OF 1]
  have g: "good s2" using good_write_raw [OF _ 2] r by simp
  have "b \<and> raw s2 ?row = LOCK1_VALUE" if "raw s ?row = 0" using good_burn_lock [OF _ _ 2] r that by simp
  then show ?thesis
    using assms(2,3) r good_raw [OF g 3] by (auto simp: ensure_hard_lock_def 1 2 3 Let_def lock_whole_def split: if_splits)
qed

lemma good_read_rows:
  "good s \<Longrightarrow> rows_hold (ecc s) row bs \<Longrightarrow> length bs = 2 * n \<Longrightarrow> \<exists>s'. read_rows T row n s = (Some bs, s') \<and> good s'"
proof (induction n arbitrary: row s bs)
  case (Suc n)
  then obtain a b cs where c: "bs = a # b # cs" by (metis Suc_length_conv mult_Suc_right add_2_eq_Suc)
  obtain s1 where 1: "read_ecc_word T s row = (ecc s row, s1)" "good s1" using good_read_ecc [OF Suc.prems(1)] by blast
  obtain s2 where "read_rows T (Suc row) n s1 = (Some cs, s2)" "good s2"
    using Suc.IH [OF 1(2), of "Suc row" cs] Suc.prems(2,3) read_ecc_frame [OF 1(1)] by (auto simp: c)
  with 1 Suc.prems(2) show ?case by (auto simp: c)
qed simp

lemma good_reads:
  "good s \<Longrightarrow> read_rows T row n s = (x, s') \<Longrightarrow> good s'" "good s \<Longrightarrow> rows_blank T row n s = (y, s') \<Longrightarrow> good s'"
proof -
  show "good s \<Longrightarrow> read_rows T row n s = (x, s') \<Longrightarrow> good s'"
    by (induction n arbitrary: row s x) (auto split: prod.splits option.splits dest: good_read)
  show "good s \<Longrightarrow> rows_blank T row n s = (y, s') \<Longrightarrow> good s'"
    by (induction n arbitrary: row s) (auto split: prod.splits if_splits dest: good_read)
qed

lemma read_rows_unreadable: "good s \<Longrightarrow> read_rows T row n s = (None, s') \<Longrightarrow> \<exists>i<n. ecc s (row + i) = None"
proof (induction n arbitrary: row s)
  case (Suc n)
  obtain v s1 where 1: "read_ecc_word T s row = (v, s1)" by fastforce
  note g = good_read [OF Suc.prems(1) 1] read_ecc_frame [OF 1]
  show ?case
  proof (cases v)
    case None
    then show ?thesis using g by (intro exI [of _ 0]) simp
  next
    case (Some w)
    then have "read_rows T (Suc row) n s1 = (None, s')" using Suc.prems(2) by (auto simp: 1 split: prod.splits)
    from Suc.IH [OF _ this] g obtain i where "i < n" "ecc s (Suc row + i) = None" by auto
    then show ?thesis by (intro exI [of _ "Suc i"]) simp
  qed
qed simp

lemma read_rows_None:
  assumes "good s" and "read_rows T row n s = (x, s')"
  shows "x = None \<longleftrightarrow> (\<exists>i<n. ecc s (row + i) = None)"
  using read_rows_unreadable [OF assms(1), of row n s'] read_rows_spec [OF assms(2)] rows_hold_readable [of "ecc s" row] assms(2)
  by (cases x) fastforce+

lemma rows_blank_iff: "good s \<Longrightarrow> rows_blank T row n s = (y, s') \<Longrightarrow> y \<longleftrightarrow> (\<forall>i<n. ecc s (row + i) = Some 0)"
proof (induction n arbitrary: row s)
  case (Suc n)
  obtain v s1 where 1: "read_ecc_word T s row = (v, s1)" by fastforce
  note g = good_read [OF Suc.prems(1) 1] read_ecc_frame [OF 1]
  show ?case
  proof (cases "v = Some 0")
    case True
    then have "rows_blank T (Suc row) n s1 = (y, s')" using Suc.prems(2) by (simp add: 1)
    from Suc.IH [OF _ this] g True show ?thesis by (auto simp: less_Suc_eq_0_disj)
  qed (use Suc.prems(2) g in \<open>auto simp: 1 intro!: exI [of _ 0]\<close>)
qed simp

text \<open>Loading in terms of what the slot holds.\<close>

lemma try_load_content:
  assumes "good s" and "try_load T page s = (st, s')"
  shows "good s'"
    and "st = Unusable \<Longrightarrow> lock_whole (raw s (lock1_row page)) \<Longrightarrow> slot_bad (ecc s') page"
    and "slot_bad (ecc s) page \<Longrightarrow> st = Unusable"
    and "\<forall>r \<in> slot_rows page. ecc s r = Some 0 \<Longrightarrow> st = Blank"
    and "slot_ready (ecc s) (raw s) page secret \<Longrightarrow> st = Valid secret"
proof -
  let ?b = "base_row page"
  obtain m s1 where 1: "read_ecc_word T s (?b + SECRET_ROWS) = (m, s1)" by fastforce
  obtain v s2 where 2: "read_ecc_word T s1 (Suc (?b + SECRET_ROWS)) = (v, s2)" by fastforce
  obtain x s3 where 3: "read_rows T ?b SECRET_ROWS s2 = (x, s3)" by fastforce
  obtain y s4 where 4: "rows_blank T ?b SECRET_ROWS s2 = (y, s4)" by fastforce
  obtain l s5 where 5: "ensure_hard_lock T page s3 = (l, s5)" by fastforce
  have g: "good s1" "good s2" "good s3" "good s4" "m = ecc s (?b + SECRET_ROWS)" "v = ecc s (Suc (?b + SECRET_ROWS))"
    using assms(1) good_read [OF assms(1) 1] good_read [OF _ 2] good_reads(1) [OF _ 3] good_reads(2) [OF _ 4] read_ecc_frame [OF 1] by auto
  have e: "ecc s1 = ecc s" "ecc s2 = ecc s" "ecc s3 = ecc s" "ecc s4 = ecc s" "raw s3 = raw s"
    using read_ecc_frame [OF 1] read_ecc_frame [OF 2] read_rows_spec [OF 3] rows_blank_spec [OF 4] by auto
  have x: "x = None \<longleftrightarrow> (\<exists>i<SECRET_ROWS. ecc s (?b + i) = None)" using read_rows_None [OF g(2) 3] e(2) by simp
  have xs: "length secret = 2 * SECRET_ROWS" "rows_hold (ecc s) ?b secret" if "x = Some secret" for secret
    using read_rows_spec [OF 3] that e(2) by auto
  have y: "y \<longleftrightarrow> (\<forall>i<SECRET_ROWS. ecc s (?b + i) = Some 0)" using rows_blank_iff [OF g(2) 4] e(2) by simp
  show "good s'"
    using assms(2) g good_void_slot good_ensure_hard_lock [OF g(3) 5]
    by (auto simp: try_load_def 1 2 3 4 5 Let_def split: option.splits if_splits sum.splits bool.splits)
  have bad: "rows_bad (ecc s) page \<longleftrightarrow> m = None \<or> m = Some MARKER_VALID \<and> (x = None \<or> (\<exists>secret. x = Some secret \<and> degenerate secret))
      \<or> (\<exists>k. m = Some k \<and> k \<noteq> MARKER_VALID \<and> (k \<noteq> 0 \<or> \<not> y))" by (rule rows_bad_reads [OF g(5) x _ _ y]) (use xs in simp_all)
  show "slot_bad (ecc s') page" if "st = Unusable" "lock_whole (raw s (lock1_row page))"
  proof -
    have l: "l = Inr ()" using hard_lock_ok [OF g(3) _ 5] that(2) e(5) by simp
    have k: "rows_bad (ecc (void_slot T page t)) page = rows_bad (ecc t) page" for t
      by (rule rows_bad_cong) (use void_slot_frame [of _ page t] in auto)
    have "s' \<in> {s1, s2, s3} \<union> void_slot T page ` {s2, s3, s4}" and c: "rows_bad (ecc s) page \<or> v \<noteq> Some 0 \<and> s' = s2"
      unfolding bad using assms(2) that(1)
      by (auto simp: try_load_def 1 2 3 4 5 l Let_def split: option.splits if_splits bool.splits)
    then have "rows_bad (ecc s') page = rows_bad (ecc s) page" by (elim UnE imageE insertE emptyE) (simp_all only: k e)
    then have "v \<noteq> Some 0 \<and> ecc s' = ecc s \<or> rows_bad (ecc s') page" using c e(2) by metis
    then show ?thesis using g(6) by (auto simp: slot_bad_def)
  qed
  show "st = Unusable" if "slot_bad (ecc s) page"
    using that assms(2) g(6) unfolding slot_bad_def bad
    by (auto simp: try_load_def 1 2 3 4 5 Let_def split: option.splits if_splits sum.splits bool.splits)
  show "st = Blank" if z: "\<forall>r \<in> slot_rows page. ecc s r = Some 0"
  proof -
    have "m = Some 0" "v = Some 0" "y" using z g(5,6) y by (auto simp: slot_rows_def)
    then show ?thesis using assms(2) by (auto simp: try_load_def 1 2 4 Let_def MARKER_VALID_def)
  qed
  show "st = Valid secret" if z: "slot_ready (ecc s) (raw s) page secret"
  proof -
    have "l = Inr ()" using hard_lock_ok [OF g(3) _ 5] z e(5) by (simp add: slot_ready_def lock_whole_def)
    moreover have "x = Some secret" using good_read_rows [OF g(2), of ?b secret SECRET_ROWS] z e(2) 3 by (auto simp: slot_ready_def)
    ultimately show ?thesis using assms(2) z g(5,6) by (auto simp: try_load_def 1 2 3 5 Let_def slot_ready_def)
  qed
qed

text \<open>Burning a blank slot of a page without lock succeeds.\<close>

lemma write_verified_blank:
  assumes "good s" and "raw s (lock1_row (row div ROWS_PER_PAGE)) = 0" and "ecc s row = Some 0" and "write_verified T row v s = (res, s')"
  shows "is_ok res"
proof -
  obtain b s1 where 1: "write_ecc_word T s row v = (b, s1)" by fastforce
  obtain w s2 where 2: "read_ecc_word T s1 row = (w, s2)" by fastforce
  have "b" "w = Some v" using good_write_blank [OF assms(1-3) 1] good_read [OF good_write_ecc [OF assms(1) 1] 2] by auto
  then show ?thesis using assms(4) by (auto simp: write_verified_def 1 2)
qed

lemma write_rows_blank:
  "good s \<Longrightarrow> raw s (lock1_row page) = 0 \<Longrightarrow> \<forall>i<length bs div 2. ecc s (row + i) = Some 0 \<and> (row + i) div ROWS_PER_PAGE = page \<and> row + i \<noteq> lock1_row page
    \<Longrightarrow> write_rows T row bs s = (res, s') \<Longrightarrow> is_ok res"
proof (induction bs arbitrary: row s rule: induct_list012)
  case (3 a b bs)
  obtain x s1 where 1: "write_verified T row (u16_from_le_bytes a b) s = (x, s1)" by fastforce
  have r: "ecc s row = Some 0" "row div ROWS_PER_PAGE = page" "row \<noteq> lock1_row page" using 3(5) [rule_format, of 0] by simp_all
  then obtain u where x: "x = Inr u" using write_verified_blank [OF 3(3) _ _ 1] 3(4) by (cases x) auto
  have "ecc s1 (Suc row + i) = Some 0 \<and> (Suc row + i) div ROWS_PER_PAGE = page \<and> Suc row + i \<noteq> lock1_row page"
    if "i < length bs div 2" for i
    using write_verified_spec(2) [OF 1, of "Suc row + i"] 3(5) [rule_format, of "Suc i"] that by simp
  moreover have "raw s1 (lock1_row page) = 0" using write_verified_spec(2) [OF 1, of "lock1_row page"] r(3) 3(4) by simp
  moreover have "write_rows T (Suc row) bs s1 = (res, s')" using 3(6) by (simp add: 1 x)
  ultimately show ?case using 3(1) [OF good_write_verified [OF 3(3) 1]] by blast
qed auto

lemma slot_rows_of_page: "page \<in> set SLOT_PAGES \<Longrightarrow> r \<in> slot_rows page \<Longrightarrow> r div ROWS_PER_PAGE = page \<and> r \<noteq> lock1_row page"
  by (auto simp: SLOT_PAGES_def slot_rows_def base_row_def ROWS_PER_PAGE_def SECRET_ROWS_def lock1_row_def)

lemma burn_blank:
  assumes "good s" and "burn T page secret s = (res, s')" and "length secret = 2 * SECRET_ROWS" and "page \<in> set SLOT_PAGES"
    and "\<forall>r \<in> slot_rows page. ecc s r = Some 0" and "raw s (lock1_row page) = 0"
  shows "res = Inr secret"
proof -
  let ?b = "base_row page"
  obtain r1 s1 where 1: "write_rows T ?b secret s = (r1, s1)" by fastforce
  obtain r2 s2 where 2: "write_verified T (?b + SECRET_ROWS) MARKER_VALID s1 = (r2, s2)" by fastforce
  obtain r3 s3 where 3: "ensure_hard_lock T page s2 = (r3, s3)" by fastforce
  have g: "good s1" "good s2" using good_write_rows [OF assms(1) 1] good_write_verified [OF _ 2] by auto
  have p: "?b + i \<in> slot_rows page" if "i < SECRET_ROWS + 2" for i using that by (simp add: slot_rows_def)
  have q: "(?b + i) div ROWS_PER_PAGE = page" "?b + i \<noteq> lock1_row page" if "i < SECRET_ROWS + 2" for i
    using slot_rows_of_page [OF assms(4) p [OF that]] by auto
  have "is_ok r1" by (rule write_rows_blank [OF assms(1,6) _ 1]) (use assms(3,5) p q in auto)
  moreover have w: "ecc s1 (?b + SECRET_ROWS) = Some 0" "raw s1 (lock1_row page) = 0"
    using write_rows_spec [OF 1] slot_rows_disjoint(1) [OF assms(4,4)] assms(3,5,6) p [of SECRET_ROWS]
    by (auto simp: slot_rows_def not_le not_less)
  then have "is_ok r2" using write_verified_blank [OF g(1) _ _ 2] q [of SECRET_ROWS] by simp
  moreover have "raw s2 (lock1_row page) = 0" using write_verified_spec(2) [OF 2, of "lock1_row page"] w(2) q(2) [of SECRET_ROWS] by simp
  then have "r3 = Inr ()" using hard_lock_ok [OF g(2) _ 3] by (simp add: lock_whole_def)
  ultimately show ?thesis using assms(2) by (auto simp: burn_def 1 2 3 Let_def is_ok_iff)
qed

lemma good_burn: "good s \<Longrightarrow> burn T page secret s = (res, s') \<Longrightarrow> good s'"
proof -
  assume a: "good s" "burn T page secret s = (res, s')"
  obtain r1 s1 where 1: "write_rows T (base_row page) secret s = (r1, s1)" by fastforce
  obtain r2 s2 where 2: "write_verified T (base_row page + SECRET_ROWS) MARKER_VALID s1 = (r2, s2)" by fastforce
  obtain r3 s3 where 3: "ensure_hard_lock T page s2 = (r3, s3)" by fastforce
  have "good s1" "good s2" "good s3"
    using good_write_rows [OF a(1) 1] good_write_verified [OF _ 2] good_ensure_hard_lock [OF _ 3] by auto
  then show ?thesis using a(2) good_void_slot by (auto simp: burn_def 1 2 3 Let_def split: sum.splits)
qed

lemma good_lock_others: "good s \<Longrightarrow> good (lock_others T page ps s)"
proof (induction ps arbitrary: s)
  case (Cons p ps)
  have "good (snd (ensure_hard_lock T p s))" using good_ensure_hard_lock [OF Cons.prems, of p] by (metis prod.collapse)
  with Cons show ?case by simp
qed simp

text \<open>What a boot leaves behind: the secret's slot ready, and the slots tried before it bad.\<close>

definition otp_settled :: "'a \<Rightarrow> nat list \<Rightarrow> bytes \<Rightarrow> bool" where
  "otp_settled s pages secret \<longleftrightarrow> good s \<and> (\<exists>before page after. pages = before @ page # after
     \<and> slot_ready (ecc s) (raw s) page secret \<and> (\<forall>p \<in> set before. slot_bad (ecc s) p))"

lemma slot_bad_cong: "(\<And>r. r \<in> slot_rows page \<Longrightarrow> f r = f' r) \<Longrightarrow> slot_bad f page = slot_bad f' page"
  using rows_bad_cong [of page f f'] by (auto simp: slot_bad_def slot_rows_def)

lemma untouched:
  assumes "p \<in> set SLOT_PAGES" and "q \<in> set SLOT_PAGES" and "p \<noteq> q" and "\<And>r. \<not> touches q r \<Longrightarrow> ecc s' r = ecc s r \<and> raw s' r = raw s r"
  shows "slot_bad (ecc s') p = slot_bad (ecc s) p" and "slot_ready (ecc s') (raw s') p secret = slot_ready (ecc s) (raw s) p secret"
    and "raw s' (lock1_row p) = raw s (lock1_row p)" and "r \<in> slot_rows p \<Longrightarrow> ecc s' r = ecc s r"
proof -
  have "\<not> touches q r" if "r \<in> slot_rows p" for r
    using that slot_rows_disjoint(1) [OF assms(1,2)] slot_rows_disjoint(2) [OF assms(1-3)] by (auto simp: touches_def)
  then have e: "ecc s' r = ecc s r" if "r \<in> slot_rows p" for r using assms(4) that by blast
  have "\<not> touches q (lock1_row p)"
    using slot_rows_disjoint(1) [OF assms(2,1)] slot_rows_disjoint(3) [of p q] assms(3) by (auto simp: touches_def)
  then have "raw s' (lock1_row p) = raw s (lock1_row p)" using assms(4) by blast
  with e show "slot_bad (ecc s') p = slot_bad (ecc s) p" "slot_ready (ecc s') (raw s') p secret = slot_ready (ecc s) (raw s) p secret"
    "raw s' (lock1_row p) = raw s (lock1_row p)" "r \<in> slot_rows p \<Longrightarrow> ecc s' r = ecc s r"
    by (auto intro!: slot_bad_cong slot_ready_cong)
qed

lemma load_pages_frame:
  assumes "load_pages X eo T pages s e = (res, s', e')" and "lengths_ok X"
    and "\<And>p. p \<in> set pages \<Longrightarrow> r \<notin> slot_rows p" and "\<And>p. p \<in> set pages \<union> set SLOT_PAGES \<Longrightarrow> r \<noteq> lock1_row p"
  shows "ecc s' r = ecc s r"
  using assms
proof (induction pages arbitrary: s e)
  case (Cons page pages)
  have r: "\<not> touches page r" using Cons.prems(3,4) by (simp add: touches_def)
  obtain st s1 where 1: "try_load T page s = (st, s1)" by fastforce
  obtain pr s2 e2 where 2: "provision X eo T page s1 e = (pr, s2, e2)" by (metis prod.exhaust)
  have a: "ecc s1 r = ecc s r" using try_load_frame [OF 1 r] by simp
  have b: "ecc s2 r = ecc s1 r"
    using provision_cases [OF 2 Cons.prems(2)] burn_frame [OF _ _ r] by metis
  have c: "ecc (lock_others T page SLOT_PAGES t) r = ecc t r" for t
    using lock_others_frame [of SLOT_PAGES page r t] Cons.prems(4) by simp
  have ih: "load_pages X eo T pages t e3 = (res, s', e') \<Longrightarrow> ecc s' r = ecc t r" for t e3
    using Cons.IH [of t e3] Cons.prems(2-4) by simp
  show ?case
    using Cons.prems(1) a b c ih by (auto simp: 1 2 split: slot_state.splits sum.splits hal_error.splits)
qed simp

lemma settled_here:
  assumes "good t" and "slot_ready (ecc t) (raw t) page secret" and "page \<in> set SLOT_PAGES"
  shows "otp_settled (lock_others T page SLOT_PAGES t) (page # pages) secret"
proof -
  let ?s = "lock_others T page SLOT_PAGES t"
  have "good ?s" "slot_ready (ecc ?s) (raw ?s) page secret"
    using assms good_lock_others lock_others_ready [OF assms(3)] by simp_all
  then show ?thesis unfolding otp_settled_def by (intro conjI exI [of _ "[]"] exI [of _ page] exI [of _ pages]) simp_all
qed

lemma settled_later:
  assumes "load_pages X eo T pages t e = (Inr secret, s', e')" and "lengths_ok X" and "slot_bad (ecc t) page"
    and "distinct (page # pages)" and "set (page # pages) \<subseteq> set SLOT_PAGES" and "otp_settled s' pages secret"
  shows "otp_settled s' (page # pages) secret"
proof -
  have page: "page \<in> set SLOT_PAGES" using assms(5) by simp
  have "slot_bad (ecc s') page = slot_bad (ecc t) page"
  proof (rule slot_bad_cong)
    fix r assume r: "r \<in> slot_rows page"
    then have "r \<noteq> lock1_row p" if "p \<in> set SLOT_PAGES" for p using slot_rows_disjoint(1) [OF page that] by auto
    moreover have "r \<notin> slot_rows p" if "p \<in> set pages" for p
      using slot_rows_disjoint(2) [OF page, of p] that assms(4,5) r by auto
    ultimately show "ecc s' r = ecc t r" using load_pages_frame [OF assms(1,2), of r] assms(5) by auto
  qed
  moreover obtain before q after where "pages = before @ q # after" "slot_ready (ecc s') (raw s') q secret"
    "\<forall>p \<in> set before. slot_bad (ecc s') p" "good s'"
    using assms(6) by (auto simp: otp_settled_def)
  ultimately show ?thesis using assms(3) unfolding otp_settled_def by (metis append_Cons set_ConsD)
qed

text \<open>A blank slot before the last one must not be on a page that is locked: it could never be provisioned.\<close>

definition openable :: "'a \<Rightarrow> nat \<Rightarrow> bool" where
  "openable s page \<longleftrightarrow> raw s (lock1_row page) = 0 \<or> (\<exists>r \<in> slot_rows page. ecc s r \<noteq> Some 0)"

lemma provision_blank:
  assumes "provision X eo T page s1 e = (res, s2, e2)" and "lengths_ok X" and "entropy_errors eo" and "good s1"
    and "try_load T page s = (Blank, s1)" and "page \<in> set SLOT_PAGES"
  shows "res = Inr sec \<Longrightarrow> good s2 \<and> slot_ready (ecc s2) (raw s2) page sec"
    and "res = Inl err \<Longrightarrow> openable s page \<Longrightarrow> err = Entropy"
proof -
  note b = try_load_blank [OF assms(5)]
  have z: "ecc s1 r = Some 0" if "r \<in> slot_rows page" for r
  proof -
    define i where "i = r - base_row page"
    then have i: "r = base_row page + i" "i < SECRET_ROWS + 2" using that by (auto simp: slot_rows_def)
    then consider "i < SECRET_ROWS" | "i = SECRET_ROWS" | "i = SECRET_ROWS + 1" by linarith
    then show ?thesis using b i(1) by cases simp_all
  qed
  show "good s2 \<and> slot_ready (ecc s2) (raw s2) page sec" if r: "res = Inr sec"
  proof -
    obtain sec' where p: "burn T page sec' s1 = (Inr sec, s2)" "length sec' = 2 * SECRET_ROWS" "\<not> degenerate sec'"
      using provision_cases [OF assms(1,2)] r by (metis Inl_Inr_False)
    then show ?thesis using burn_ready [OF p(1) _ p(2,3) assms(6)] b(1,4) good_burn [OF assms(4) p(1)] by simp
  qed
  show "err = Entropy" if r: "res = Inl err" and o: "openable s page"
    using assms(1,2)
  proof (cases rule: provision_cases)
    case (burnt secret)
    have "raw s1 (lock1_row page) = 0" using o z b(1,2) by (auto simp: openable_def)
    with burn_blank [OF assms(4) burnt(1,2) assms(6)] z r show ?thesis by simp
  qed (use r assms(3) in simp)
qed

lemma load_pages_settled:
  assumes "load_pages X eo T pages s e = (Inr secret, s', e')" and "lengths_ok X" and "good s" and "distinct pages"
    and "set pages \<subseteq> set SLOT_PAGES" and "entropy_errors eo" and "\<forall>p \<in> set pages. lock_whole (raw s (lock1_row p))"
    and "\<forall>p \<in> set (butlast pages). openable s p"
  shows "otp_settled s' pages secret"
  using assms
proof (induction pages arbitrary: s e)
  case (Cons page pages)
  have page: "page \<in> set SLOT_PAGES" using Cons.prems(5) by simp
  obtain st s1 where 1: "try_load T page s = (st, s1)" by fastforce
  note g = try_load_content [OF Cons.prems(3) 1]
  have f: "ecc s1 r = ecc s r \<and> raw s1 r = raw s r" if "\<not> touches page r" for r by (rule try_load_frame [OF 1 that])
  show ?case
  proof (cases st)
    case (Valid sec)
    have "slot_ready (ecc s1) (raw s1) page sec" by (rule try_load_valid) (use 1 Valid page in simp_all)
    then show ?thesis using settled_here [OF g(1) _ page] Cons.prems(1) by (simp add: 1 Valid)
  next
    case Blank
    obtain res s2 e2 where 2: "provision X eo T page s1 e = (res, s2, e2)" by (metis prod.exhaust)
    note p = provision_blank [OF 2 Cons.prems(2,6) g(1) 1 [unfolded Blank] page]
    show ?thesis
    proof (cases res)
      case (Inr sec)
      then show ?thesis using settled_here [OF _ _ page, of s2] p(1) Cons.prems(1) by (simp add: 1 2 Blank)
    next
      case (Inl err)
      then have "err \<noteq> Entropy" "load_pages X eo T pages s2 e2 = (Inr secret, s', e')"
        using Cons.prems(1) by (cases err; auto simp: 1 2 Blank)+
      moreover from this have "pages \<noteq> []" by auto
      ultimately show ?thesis using p(2) [OF Inl] Cons.prems(8) by simp
    qed
  next
    case Unusable
    then have l: "load_pages X eo T pages s1 e = (Inr secret, s', e')" using Cons.prems(1) by (simp add: 1)
    have u: "lock_whole (raw s1 (lock1_row p))" "openable s1 p \<longleftrightarrow> openable s p" if "p \<in> set pages" for p
    proof -
      have "p \<in> set SLOT_PAGES" "p \<noteq> page" using Cons.prems(4,5) that by auto
      note k = untouched(3,4) [OF this(1) page this(2) f]
      show "lock_whole (raw s1 (lock1_row p))" "openable s1 p \<longleftrightarrow> openable s p"
        using k Cons.prems(7) that by (auto simp: openable_def)
    qed
    have "\<forall>p \<in> set (butlast pages). openable s1 p" using u(2) Cons.prems(8) by (auto dest: in_set_butlastD split: if_splits)
    with Cons.IH [OF l Cons.prems(2) g(1)] Cons.prems(4-6) u(1) have "otp_settled s' pages secret" by simp
    then show ?thesis
      using settled_later [OF l Cons.prems(2) g(2) [OF Unusable] Cons.prems(4,5)] Cons.prems(7) by simp
  qed
qed simp

lemma load_pages_again:
  "otp_settled s pages secret \<Longrightarrow> distinct pages \<Longrightarrow> set pages \<subseteq> set SLOT_PAGES \<Longrightarrow> \<exists>s'. load_pages X eo T pages s e = (Inr secret, s', e)"
proof (induction pages arbitrary: s)
  case (Cons page pages)
  from Cons.prems(1) obtain before q after where c: "page # pages = before @ q # after" "slot_ready (ecc s) (raw s) q secret"
    "\<forall>p \<in> set before. slot_bad (ecc s) p" "good s" by (auto simp: otp_settled_def)
  show ?case
  proof (cases before)
    case Nil
    obtain st s1 where 1: "try_load T page s = (st, s1)" by fastforce
    then have "st = Valid secret" using try_load_content(5) [OF c(4) 1] c(1,2) Nil by auto
    then show ?thesis by (simp add: 1)
  next
    case (Cons p before')
    then have p: "p = page" "pages = before' @ q # after" "slot_bad (ecc s) page" using c(1,3) by auto
    obtain st s1 where 1: "try_load T page s = (st, s1)" by fastforce
    note g = try_load_content [OF c(4) 1]
    have st: "st = Unusable" by (rule g(3) [OF p(3)])
    have f: "ecc s1 r = ecc s r \<and> raw s1 r = raw s r" if "\<not> touches page r" for r by (rule try_load_frame [OF 1 that])
    have u: "slot_bad (ecc s1) x = slot_bad (ecc s) x" "slot_ready (ecc s1) (raw s1) x secret = slot_ready (ecc s) (raw s) x secret"
      if "x \<in> set pages" for x
      using untouched [OF _ _ _ f, of x page] Cons.prems(2,3) that by auto
    have "slot_ready (ecc s1) (raw s1) q secret" "\<forall>x \<in> set before'. slot_bad (ecc s1) x"
      using u c(2,3) \<open>before = p # before'\<close> p(2) by auto
    then have "otp_settled s1 pages secret" using g(1) p(2) unfolding otp_settled_def by blast
    then show ?thesis using Cons.IH [of s1] Cons.prems(2,3) by (simp add: 1 st)
  qed
qed (simp add: otp_settled_def)

end

section \<open>A memory in RAM\<close>

text \<open>Bits are only ever set; a page whose lock word has been burnt refuses writes, as does its lock word, and a
  page locked by software cannot be accessed at all.\<close>

record ram_otp =
  ecc_mem :: "nat \<Rightarrow> u16"
  raw_mem :: "nat \<Rightarrow> u32"
  sw_locked :: "nat list"

definition ram_locked :: "ram_otp \<Rightarrow> nat \<Rightarrow> bool" where
  "ram_locked s page \<longleftrightarrow> raw_mem s (lock1_row page) AND LOCK1_VALUE = LOCK1_VALUE"

definition ram_otp_ops :: "ram_otp otp_ops" where
  "ram_otp_ops = \<lparr> read_ecc_word = (\<lambda>s r. (if r div ROWS_PER_PAGE \<in> set (sw_locked s) then None else Some (ecc_mem s r), s)),
     write_ecc_word = (\<lambda>s r w. if r div ROWS_PER_PAGE \<in> set (sw_locked s) \<or> ram_locked s (r div ROWS_PER_PAGE) then (False, s)
        else (True, s\<lparr>ecc_mem := (ecc_mem s)(r := ecc_mem s r OR w)\<rparr>)),
     read_raw_word = (\<lambda>s r. (Some (raw_mem s r), s)),
     write_raw_word = (\<lambda>s r x. if ram_locked s ((r - 0xF80) div 2) then (False, s)
        else (True, s\<lparr>raw_mem := (raw_mem s)(r := raw_mem s r OR x)\<rparr>)),
     sw_lock = (\<lambda>s p. s\<lparr>sw_locked := p # sw_locked s\<rparr>) \<rparr>"

lemma lock1_row_page: "(lock1_row p - 0xF80) div 2 = p"
  by (simp add: lock1_row_def)

lemma blank_not_locked: "raw_mem s (lock1_row p) = 0 \<Longrightarrow> \<not> ram_locked s p"
  by (simp add: ram_locked_def LOCK1_VALUE_def)

interpretation ram_otp: otp_reliable ram_otp_ops "\<lambda>s r. Some (ecc_mem s r)" raw_mem "\<lambda>s. sw_locked s = []"
  by unfold_locales (auto simp: ram_otp_ops_def lock1_row_page blank_not_locked split: if_splits)

section \<open>Properties of the device secret\<close>

text \<open>C21: the device secret is whole. Whatever errors the OTP reports on the way, a secret handed to the
  firmware has 32 bytes, is not degenerate, and is what the rows of one of the two slots hold, with
  the valid marker set, the slot not voided and its page locked against the bootloader.\<close>

theorem device_secret_whole:
  assumes "otp_rom T ecc raw" and "lengths_ok X" and "load_or_provision X eo T s e = (Inr secret, s', e')"
  shows "length secret = 32 \<and> \<not> degenerate secret \<and> (\<exists>page. (page = 61 \<or> page = 60)
    \<and> rows_hold (ecc s') (base_row page) secret \<and> ecc s' (base_row page + 16) = Some MARKER_VALID
    \<and> ecc s' (base_row page + 17) = Some 0 \<and> raw s' (lock1_row page) AND LOCK1_VALUE = LOCK1_VALUE)"
proof -
  obtain page where "page \<in> set SLOT_PAGES" "slot_ready (ecc s') (raw s') page secret"
    using otp_rom.load_pages_ready [OF assms(1) assms(3) [unfolded load_or_provision_def] assms(2)] by auto
  then show ?thesis by (intro conjI exI [of _ page]) (auto simp: slot_ready_def SECRET_ROWS_def SLOT_PAGES_def add.commute [of 17])
qed

definition sevens :: "nat externs" where
  "sevens = sample_externs\<lparr>chacha_fill := \<lambda>r n. (replicate n 7, r)\<rparr>"

lemma sevens_lengths: "lengths_ok sevens"
  using sample_externs_ok(1) by (simp add: sevens_def lengths_ok_def)

definition blank_otp :: ram_otp where
  "blank_otp = \<lparr> ecc_mem = (\<lambda>_. 0), raw_mem = (\<lambda>_. 0), sw_locked = [] \<rparr>"

lemma blank_otp_simps [simp]: "ecc_mem blank_otp r = 0" "raw_mem blank_otp r = 0" "sw_locked blank_otp = []"
  by (simp_all add: blank_otp_def)

lemma sevens_draw: "fst (drbg_fill_bytes sevens d 32) = replicate 32 7" "\<not> degenerate (replicate 32 7)"
  by (simp_all add: drbg_fill_bytes_def sevens_def Let_def degenerate_def list_all_iff)

lemma sevens_seed: "\<exists>d. drbg_seed sevens counting_entropy (drbg_new sevens) e = (Inr (), d, Suc e)"
  by (auto simp: drbg_seed_def counting_gather)

context otp_reliable
begin

text \<open>The first boot of a device: the slot of the primary page is blank and its page not locked.\<close>

lemma first_boot_burns:
  assumes "good s" and "\<forall>r \<in> slot_rows 61. ecc s r = Some 0" and "raw s (lock1_row 61) = 0" and "lengths_ok X"
    and "drbg_seed X eo (drbg_new X) e = (Inr (), d, e1)" and "\<not> degenerate (fst (drbg_fill_bytes X d 32))"
  shows "\<exists>s'. load_or_provision X eo T s e = (Inr (fst (drbg_fill_bytes X d 32)), s', e1)
    \<and> otp_settled s' SLOT_PAGES (fst (drbg_fill_bytes X d 32))"
proof -
  let ?secret = "fst (drbg_fill_bytes X d 32)"
  have page: "61 \<in> set SLOT_PAGES" by (simp add: SLOT_PAGES_def)
  have len: "length ?secret = 2 * SECRET_ROWS" using assms(4) by (simp add: lengths_ok_def drbg_fill_bytes_def Let_def split_def SECRET_ROWS_def)
  obtain st s1 where 1: "try_load T 61 s = (st, s1)" by fastforce
  note c = try_load_content [OF assms(1) 1]
  have st: "st = Blank" by (rule c(4) [OF assms(2)])
  note b = try_load_blank [OF 1 [unfolded st]]
  obtain res s2 where 2: "burn T 61 ?secret s1 = (res, s2)" by fastforce
  have r: "res = Inr ?secret" by (rule burn_blank [OF c(1) 2 len page]) (use assms(2,3) b(1,2) in simp_all)
  have "slot_ready (ecc s2) (raw s2) 61 ?secret" using burn_ready(2) [OF 2 [unfolded r] _ len assms(6) page] b(1,4) by simp
  then have "otp_settled (lock_others T 61 SLOT_PAGES s2) SLOT_PAGES ?secret"
    using settled_here [OF good_burn [OF c(1) 2] _ page, of ?secret "[60]"] by (simp add: SLOT_PAGES_def)
  moreover have "provision X eo T 61 s1 e = (Inr ?secret, s2, e1)"
    using 2 assms(5,6) by (simp add: provision_def r split_def Let_def)
  then have "load_or_provision X eo T s e = (Inr ?secret, lock_others T 61 SLOT_PAGES s2, e1)"
    by (simp add: load_or_provision_def SLOT_PAGES_def 1 st)
  ultimately show ?thesis by blast
qed

lemma settled_loads:
  assumes "otp_settled s SLOT_PAGES secret" and "good s2" and "ecc s2 = ecc s" and "raw s2 = raw s"
  shows "\<exists>s3. load_or_provision X eo T s2 e = (Inr secret, s3, e)"
  using load_pages_again [of s2 SLOT_PAGES secret X eo e] assms by (simp add: otp_settled_def load_or_provision_def SLOT_PAGES_def)

end

lemma first_boot:
  "\<exists>s'. load_or_provision sevens counting_entropy ram_otp_ops blank_otp 0 = (Inr (replicate 32 7), s', Suc 0)"
proof -
  obtain d where d: "drbg_seed sevens counting_entropy (drbg_new sevens) 0 = (Inr (), d, Suc 0)" using sevens_seed by blast
  show ?thesis using ram_otp.first_boot_burns [OF _ _ _ sevens_lengths d, of blank_otp] sevens_draw by auto
qed

theorem device_secret_whole_witness:
  "\<exists>s' e' page. load_or_provision sevens counting_entropy ram_otp_ops blank_otp 0 = (Inr (replicate 32 7), s', e')
     \<and> ecc_mem s' (base_row page + 16) = MARKER_VALID"
proof -
  obtain s' e' where l: "load_or_provision sevens counting_entropy ram_otp_ops blank_otp 0 = (Inr (replicate 32 7), s', e')"
    using first_boot by blast
  have "otp_rom ram_otp_ops (\<lambda>s r. Some (ecc_mem s r)) raw_mem" by (rule ram_otp.otp_rom_axioms)
  from device_secret_whole [OF this sevens_lengths l] l show ?thesis by auto
qed

text \<open>C22: a torn provisioning is never taken for a secret. Provisioning of a slot that was found blank may lose
  power before any of its OTP operations, and any write may fail and leave anything in its row: if
  the next boot loads a secret from that slot, then every row of it was burnt, and it is exactly the
  secret that the generator had drawn.\<close>

theorem torn_provision_not_loaded:
  assumes "otp_rom T ecc raw" and "lengths_ok X" and "page = 61 \<or> page = 60" and "try_load T page s0 = (Blank, s)"
    and "provision X eo (cut_power T) page (s, n) e = (res, (s1, n1), e1)" and "try_load T page s1 = (Valid x, s2)"
  shows "rows_hold (ecc s1) (base_row page) x \<and> (\<exists>d. drbg_seed X eo (drbg_new X) e = (Inr (), d, e1) \<and> x = fst (drbg_fill_bytes X d 32))"
proof -
  let ?b = "base_row page"
  note v = otp_rom.try_load_valid_rows [OF assms(1,6)]
  have blank: "ecc s (?b + SECRET_ROWS) = Some 0" using otp_rom.try_load_blank(1,3) [OF assms(1,4)] by simp
  obtain r d e2 where 1: "drbg_seed X eo (drbg_new X) e = (r, d, e2)" by (metis prod.exhaust)
  let ?secret = "fst (drbg_fill_bytes X d 32)"
  have len: "length ?secret = 2 * SECRET_ROWS" using assms(2) by (simp add: lengths_ok_def drbg_fill_bytes_def Let_def split_def SECRET_ROWS_def)
  have "s1 \<noteq> s" using v(3) blank by (auto simp: MARKER_VALID_def)
  obtain res' t where 2: "burn (cut_power T) page ?secret (s, n) = (res', t)" by (metis prod.exhaust)
  from \<open>s1 \<noteq> s\<close> have p: "r = Inr ()" "t = (s1, n1)" "e2 = e1"
    using assms(5) by (auto simp: provision_def 1 2 split_def Let_def split: sum.splits if_splits)
  have "ecc s1 (?b + SECRET_ROWS) = Some 0 \<or> rows_hold (ecc s1) ?b ?secret"
    using otp_rom.burn_marker [OF otp_rom.cut_power_rom [OF assms(1)] 2 len] p(2) assms(3) blank by (auto simp: SLOT_PAGES_def)
  then have "rows_hold (ecc s1) ?b ?secret" using v(3) by (simp add: MARKER_VALID_def)
  then have "x = ?secret" by (intro rows_hold_inj [OF v(2)]) (use v(1) len in simp_all)
  then show ?thesis using v(2) 1 p(1,3) by auto
qed

theorem torn_provision_not_loaded_witness:
  "\<exists>s s1 n1 e1 s2. try_load ram_otp_ops 61 blank_otp = (Blank, s)
     \<and> provision sevens counting_entropy (cut_power ram_otp_ops) 61 (s, 37) 0 = (Inr (replicate 32 7), (s1, n1), e1)
     \<and> try_load ram_otp_ops 61 s1 = (Valid (replicate 32 7), s2)
     \<and> rows_hold (\<lambda>r. Some (ecc_mem s1 r)) (base_row 61) (replicate 32 7)"
proof -
  let ?x = "replicate 32 7 :: bytes"
  have k: "61 \<in> set SLOT_PAGES" "length ?x = 2 * SECRET_ROWS" by (simp_all add: SLOT_PAGES_def SECRET_ROWS_def)
  obtain st s where 1: "try_load ram_otp_ops 61 blank_otp = (st, s)" by fastforce
  have st: "st = Blank" "sw_locked s = []" using ram_otp.try_load_content(1,4) [OF _ 1] by auto
  note b = ram_otp.try_load_blank [OF 1 [unfolded st]]
  have z: "ecc_mem s r = 0" "raw_mem s r = 0" for r using fun_cong [OF b(1), of r] fun_cong [OF b(2), of r] by simp_all
  obtain res s1 where 2: "burn ram_otp_ops 61 ?x s = (res, s1)" by fastforce
  have r: "res = Inr ?x" by (rule ram_otp.burn_blank [OF st(2) 2 k(2,1)]) (simp_all add: z)
  have ready: "slot_ready (\<lambda>r. Some (ecc_mem s1 r)) (raw_mem s1) 61 ?x"
    using ram_otp.burn_ready(2) [OF 2 [unfolded r] _ k(2) sevens_draw(2) k(1)] z by simp
  obtain n1 where "burn (cut_power ram_otp_ops) 61 ?x (s, 37) = (Inr ?x, s1, n1)" using ram_otp.burn_powered [OF 2 [unfolded r] k(2)] by blast
  moreover obtain d where "drbg_seed sevens counting_entropy (drbg_new sevens) 0 = (Inr (), d, Suc 0)" using sevens_seed by blast
  ultimately have p: "provision sevens counting_entropy (cut_power ram_otp_ops) 61 (s, 37) 0 = (Inr ?x, (s1, n1), Suc 0)"
    using sevens_draw by (simp add: provision_def split_def Let_def)
  obtain st' s2 where v: "try_load ram_otp_ops 61 s1 = (st', s2)" by fastforce
  have "st' = Valid ?x" by (rule ram_otp.try_load_content(5) [OF ram_otp.good_burn [OF st(2) 2] v ready])
  note v = v [unfolded this]
  have "otp_rom ram_otp_ops (\<lambda>s r. Some (ecc_mem s r)) raw_mem" by (rule ram_otp.otp_rom_axioms)
  from torn_provision_not_loaded [OF this sevens_lengths _ 1 [unfolded st(1)] p v] 1 st(1) p v show ?thesis by blast
qed

text \<open>C40: a device gets its secret on the first boot and keeps it. When the primary slot is blank and its page not
  locked, the OTP works and the generator can be seeded and does not draw a degenerate secret, the
  first boot burns the drawn secret and hands it to the firmware; every later boot, with the OTP as
  that boot left it, gets the same secret whatever its entropy source delivers, and draws none.\<close>

theorem first_boot_provisions:
  assumes "otp_reliable T ecc raw good" and "lengths_ok X" and "good s"
    and "\<forall>r \<in> slot_rows 61. ecc s r = Some 0" and "raw s (lock1_row 61) = 0"
    and "drbg_seed X eo (drbg_new X) e = (Inr (), d, e1)" and "\<not> degenerate (fst (drbg_fill_bytes X d 32))"
  shows "\<exists>s'. load_or_provision X eo T s e = (Inr (fst (drbg_fill_bytes X d 32)), s', e1)
    \<and> (\<forall>s2 X2 (eo2 :: 'f entropy_ops) e2. good s2 \<and> ecc s2 = ecc s' \<and> raw s2 = raw s' \<longrightarrow>
         (\<exists>s3. load_or_provision X2 eo2 T s2 e2 = (Inr (fst (drbg_fill_bytes X d 32)), s3, e2)))"
  using otp_reliable.first_boot_burns [OF assms(1,3-5,2,6,7)] otp_reliable.settled_loads [OF assms(1)] by metis

theorem first_boot_provisions_witness:
  "\<exists>s' s3. load_or_provision sevens counting_entropy ram_otp_ops blank_otp 0 = (Inr (replicate 32 7), s', Suc 0)
     \<and> load_or_provision sevens counting_entropy ram_otp_ops (s'\<lparr>sw_locked := []\<rparr>) 5 = (Inr (replicate 32 7), s3, 5)"
proof -
  obtain d where d: "drbg_seed sevens counting_entropy (drbg_new sevens) 0 = (Inr (), d, Suc 0)" using sevens_seed by blast
  obtain s' where l: "load_or_provision sevens counting_entropy ram_otp_ops blank_otp 0 = (Inr (replicate 32 7), s', Suc 0)"
    "\<And>s2 e2. sw_locked s2 = [] \<Longrightarrow> ecc_mem s2 = ecc_mem s' \<Longrightarrow> raw_mem s2 = raw_mem s' \<Longrightarrow>
       \<exists>s3. load_or_provision sevens counting_entropy ram_otp_ops s2 e2 = (Inr (replicate 32 7), s3, e2)"
    using first_boot_provisions [OF ram_otp.otp_reliable_axioms sevens_lengths _ _ _ d, of blank_otp] sevens_draw by fastforce
  then show ?thesis using l(2) [of "s'\<lparr>sw_locked := []\<rparr>" 5] by auto
qed

text \<open>The device secret is stable: once a boot got a secret, by loading or by provisioning and from either slot,
  every later boot gets the same one. The lock words of the slot pages are blank or burnt, and the
  primary page is not locked while its slot is blank.\<close>

lemma device_secret_stable:
  assumes "otp_reliable T ecc raw good" and "lengths_ok X" and "entropy_errors eo" and "good s"
    and "\<forall>p \<in> set SLOT_PAGES. lock_whole (raw s (lock1_row p))"
    and "raw s (lock1_row 61) = 0 \<or> (\<exists>r \<in> slot_rows 61. ecc s r \<noteq> Some 0)"
    and "load_or_provision X eo T s e = (Inr secret, s', e')"
    and "good s2" and "ecc s2 = ecc s'" and "raw s2 = raw s'"
  shows "\<exists>s3. load_or_provision X2 eo2 T s2 e2 = (Inr secret, s3, e2)"
proof -
  have o: "\<forall>p \<in> set (butlast SLOT_PAGES). otp_reliable.openable ecc raw s p"
    using assms(6) by (simp add: SLOT_PAGES_def otp_reliable.openable_def [OF assms(1)])
  have d: "distinct SLOT_PAGES" by (simp add: SLOT_PAGES_def)
  have "otp_reliable.otp_settled ecc raw good s' SLOT_PAGES secret"
    using otp_reliable.load_pages_settled [OF assms(1) assms(7) [unfolded load_or_provision_def] assms(2,4) d _ assms(3,5) o] by simp
  from otp_reliable.settled_loads [OF assms(1) this assms(8-10)] show ?thesis .
qed

end
