(* ===== verification/Board.thy ===== *)
theory Board
  imports TimeFloor OtpSecret
begin

text \<open>
  The small hardware modules of the firmware: the timer (\<^verbatim>\<open>hsm-fw/src/time_hal.rs\<close>), the random number
  generator and the boot noise (\<^verbatim>\<open>entropy_hal.rs\<close>), the glitch detectors and boot security status
  (\<^verbatim>\<open>security.rs\<close>) and the status LED (\<^verbatim>\<open>led.rs\<close>). Peripherals and the crates that drive them are
  parameters.
\<close>

section \<open>The timer\<close>

text \<open>\<open>instant\<close> is a reading of the hardware timer in microseconds (one tick of \<^verbatim>\<open>embassy_time\<close>), \<open>tick\<close> the
  passage of time between two readings.\<close>

record 't timer =
  instant :: "'t \<Rightarrow> u64"
  tick :: "'t \<Rightarrow> 't"

lemma unat_ucast_u32_u64 [simp]: "unat (ucast (x :: u32) :: u64) = unat x"
  using unsigned_less [of x, where ?'a = nat] by (simp add: unsigned_ucast_eq take_bit_nat_eq_self)

partial_function (option) spin_until :: "'t timer \<Rightarrow> u64 \<Rightarrow> 't \<Rightarrow> 't option" where
  "spin_until C until t = (if instant C t < until then spin_until C until (tick C t) else Some t)"

text \<open>Adding a duration to an instant panics on overflow.\<close>

definition embassy_delay_ms :: "'t timer \<Rightarrow> 't \<Rightarrow> u32 \<Rightarrow> 't option" where
  "embassy_delay_ms C t ms =
     (case u64_checked_add (instant C t) (ucast ms * 1000) of
        None \<Rightarrow> None
      | Some until \<Rightarrow> spin_until C until (tick C t))"

definition embassy_clock :: "'t timer \<Rightarrow> 't mono_ops" where
  "embassy_clock C = \<lparr> now_micros = instant C, delay_ms = embassy_delay_ms C \<rparr>"

text \<open>
  What a timer promises: readings never go back, and as long as its last value is not reached it is
  running, so that after some number of further polls the reading has grown. A busy loop may well
  read the same value many times.
\<close>

locale running_timer =
  fixes C :: "'t timer"
  assumes never_back: "instant C t \<le> instant C (tick C t)"
    and keeps_running: "instant C t \<noteq> - 1 \<Longrightarrow> \<exists>n. instant C t < instant C ((tick C ^^ n) t)"
begin

lemma reaches: "\<exists>n. until \<le> instant C ((tick C ^^ n) t)"
proof (induction "unat until - unat (instant C t)" arbitrary: t rule: less_induct)
  case less
  show ?case
  proof (cases "until \<le> instant C t")
    case True
    then show ?thesis by (intro exI [of _ 0]) simp
  next
    case False
    then have l: "instant C t < until" by simp
    then have "instant C t \<noteq> - 1" by auto
    then obtain n where n: "instant C t < instant C ((tick C ^^ n) t)" using keeps_running by blast
    then have "unat until - unat (instant C ((tick C ^^ n) t)) < unat until - unat (instant C t)"
      using l by (simp add: word_less_nat_alt)
    from less [OF this] obtain k where "until \<le> instant C ((tick C ^^ (k + n)) t)" by (auto simp: funpow_add)
    then show ?thesis by blast
  qed
qed

lemma spin_until_polls:
  "until \<le> instant C ((tick C ^^ n) t) \<Longrightarrow> \<exists>t'. spin_until C until t = Some t' \<and> until \<le> instant C t' \<and> instant C t \<le> instant C t'"
proof (induction n arbitrary: t)
  case 0
  then show ?case by (subst spin_until.simps) auto
next
  case (Suc n)
  show ?case
  proof (cases "instant C t < until")
    case True
    have "until \<le> instant C ((tick C ^^ n) (tick C t))" using Suc.prems by (simp add: funpow_swap1)
    from Suc.IH [OF this] True never_back [of t] show ?thesis by (subst spin_until.simps) (auto intro: order.trans)
  next
    case False
    then show ?thesis by (subst spin_until.simps) simp
  qed
qed

lemma spin_until_returns: "\<exists>t'. spin_until C until t = Some t' \<and> until \<le> instant C t' \<and> instant C t \<le> instant C t'"
  using reaches [of until t] spin_until_polls by blast

lemma delay_returns:
  assumes "unat (instant C t) + unat ms * 1000 < 2 ^ 64"
  shows "\<exists>t'. embassy_delay_ms C t ms = Some t' \<and> unat (instant C t) + unat ms * 1000 \<le> unat (instant C t')"
proof -
  have u: "unat (ucast ms * 1000 :: u64) = unat ms * 1000"
    using assms by (simp add: unat_word_ariths)
  have "uint (instant C t) + uint (ucast ms * 1000 :: u64) = int (unat (instant C t) + unat ms * 1000)"
    using u by (simp only: of_nat_add flip: u) simp
  then have c: "u64_checked_add (instant C t) (ucast ms * 1000) = Some (instant C t + ucast ms * 1000)"
    using assms unfolding u64_checked_add_def by (metis (no_types) of_nat_less_iff of_nat_numeral of_nat_power)
  have "unat (instant C t + ucast ms * 1000) = unat (instant C t) + unat ms * 1000"
    using assms u by (simp add: unat_word_ariths)
  with spin_until_returns [of "instant C t + ucast ms * 1000" "tick C t"] show ?thesis
    by (auto simp: embassy_delay_ms_def c word_le_nat_alt)
qed

lemma delay_within: "embassy_delay_ms C t ms = Some t' \<Longrightarrow> unat (instant C t) + unat ms * 1000 < 2 ^ 64"
proof -
  assume "embassy_delay_ms C t ms = Some t'"
  then have c: "uint (instant C t) + uint (ucast ms * 1000 :: u64) < 2 ^ 64"
    by (auto simp: embassy_delay_ms_def u64_checked_add_def split: option.splits if_splits)
  have "unat ms * 1000 < 2 ^ 64" using unsigned_less [of ms, where ?'a = nat] by simp
  then have u: "unat (ucast ms * 1000 :: u64) = unat ms * 1000" by (simp add: unat_word_ariths)
  have "uint (instant C t) + uint (ucast ms * 1000 :: u64) = int (unat (instant C t) + unat ms * 1000)"
    using u by (simp only: of_nat_add flip: u) simp
  with c show ?thesis by (metis (no_types) of_nat_less_iff of_nat_numeral of_nat_power)
qed

end

sublocale running_timer \<subseteq> embassy: monotonic_clock "embassy_clock C"
proof unfold_locales
  fix t t' and ms :: u32
  assume "delay_ms (embassy_clock C) t ms = Some t'"
  then have d: "embassy_delay_ms C t ms = Some t'" by (simp add: embassy_clock_def)
  from delay_returns [OF delay_within [OF d]] d
  show "unat (now_micros (embassy_clock C) t) + unat ms * 1000 \<le> unat (now_micros (embassy_clock C) t')"
    by (auto simp: embassy_clock_def)
qed

text \<open>A timer that is polled three times in every microsecond, until its range is exhausted.\<close>

definition counter_timer :: "nat timer" where
  "counter_timer = \<lparr> instant = (\<lambda>t. if t div 3 < 2 ^ 64 then of_nat (t div 3) else - 1), tick = Suc \<rparr>"

lemma unat_last: "unat (- 1 :: u64) = 2 ^ 64 - 1"
  by (simp add: unsigned_minus_1_eq_mask mask_eq_exp_minus_1)

lemma counter_timer_simps:
  "unat (instant counter_timer t) = min (t div 3) (2 ^ 64 - 1)" "(tick counter_timer ^^ n) t = t + n"
proof -
  show "unat (instant counter_timer t) = min (t div 3) (2 ^ 64 - 1)"
    by (auto simp: counter_timer_def unat_of_nat take_bit_nat_eq_self unat_last)
  show "(tick counter_timer ^^ n) t = t + n"
    by (induction n) (simp_all add: counter_timer_def)
qed

interpretation counter_timer: running_timer counter_timer
proof
  fix t
  show "instant counter_timer t \<le> instant counter_timer (tick counter_timer t)"
    using counter_timer_simps(2) [of 1 t] div_le_mono [of t "Suc t" 3]
    by (simp add: word_le_nat_alt counter_timer_simps(1) min.coboundedI1)
  assume "instant counter_timer t \<noteq> - 1"
  then have "unat (instant counter_timer t) \<noteq> 2 ^ 64 - 1"
    by (auto simp: word_unat_eq_iff unat_last)
  then have "t div 3 < 2 ^ 64 - 1" by (simp add: counter_timer_simps(1) min_def split: if_splits)
  then show "\<exists>n. instant counter_timer t < instant counter_timer ((tick counter_timer ^^ n) t)"
    by (intro exI [of _ 3]) (simp add: word_less_nat_alt counter_timer_simps)
qed

text \<open>C24: a delay returns and is long enough. On a timer whose readings never go back and that keeps running, however
  often the busy-wait polls it within one tick, the delay of the firmware ends, and not before the
  requested number of milliseconds has passed, provided the end of the delay (in microseconds) is
  below 2 to the power of 64, past which adding the duration panics.\<close>

theorem delay_terminates:
  assumes "running_timer C" and "unat (instant C t) + unat ms * 1000 < 2 ^ 64"
  shows "\<exists>t'. embassy_delay_ms C t ms = Some t' \<and> unat (instant C t) + unat ms * 1000 \<le> unat (instant C t')"
  by (rule running_timer.delay_returns [OF assms])

theorem delay_terminates_witness:
  "\<exists>t'. embassy_delay_ms counter_timer 51 250 = Some t' \<and> 250017 \<le> t' div 3"
  using delay_terminates [OF counter_timer.running_timer_axioms, of 51 250] by (auto simp: counter_timer_simps(1))

section \<open>Entropy\<close>

text \<open>\<open>fill\<close> is the blocking read of the hardware generator; it does not fail.\<close>

definition trng_entropy :: "('e \<Rightarrow> nat \<Rightarrow> bytes \<times> 'e) \<Rightarrow> 'e entropy_ops" where
  "trng_entropy fill = \<lparr> fill_raw = (\<lambda>e n. let (b, e1) = fill e n in (Inr b, e1)) \<rparr>"

definition TRNG_SAMPLE_COUNT :: u32 where
  "TRNG_SAMPLE_COUNT = 50"

definition BOOT_NOISE_LEN :: nat where
  "BOOT_NOISE_LEN = 256"

text \<open>\<open>sram\<close> is what the uninitialised region holds at power-on.\<close>

definition boot_noise :: "(nat \<Rightarrow> u8) \<Rightarrow> bytes" where
  "boot_noise sram = map sram [0 ..< BOOT_NOISE_LEN]"

lemma trng_entropy_errors: "entropy_errors (trng_entropy fill)"
  by (simp add: entropy_errors_def trng_entropy_def Let_def split_def)

section \<open>Glitch detectors and boot security\<close>

definition SENSITIVITY :: u8 where
  "SENSITIVITY = 2"

record sensitivity_reg =
  det0 :: u8
  det1 :: u8
  det2 :: u8
  det3 :: u8
  det0_inv :: u8
  det1_inv :: u8
  det2_inv :: u8
  det3_inv :: u8
  sens_default :: bool

text \<open>The registers of the detectors; \<open>read_arm\<close> is whether they report armed.\<close>

record 'g glitch_ops =
  write_sensitivity :: "'g \<Rightarrow> sensitivity_reg \<Rightarrow> 'g"
  write_arm :: "'g \<Rightarrow> bool \<Rightarrow> 'g"
  read_arm :: "'g \<Rightarrow> bool"
  write_lock :: "'g \<Rightarrow> u32 \<Rightarrow> 'g"

definition glitch_sensitivity :: sensitivity_reg where
  "glitch_sensitivity = \<lparr> det0 = SENSITIVITY, det1 = SENSITIVITY, det2 = SENSITIVITY, det3 = SENSITIVITY,
     det0_inv = NOT SENSITIVITY AND 0x3, det1_inv = NOT SENSITIVITY AND 0x3, det2_inv = NOT SENSITIVITY AND 0x3,
     det3_inv = NOT SENSITIVITY AND 0x3, sens_default = False \<rparr>"

definition arm_glitch_detectors :: "'g glitch_ops \<Rightarrow> 'g \<Rightarrow> bool \<times> 'g" where
  "arm_glitch_detectors G g =
     (let g1 = write_sensitivity G g glitch_sensitivity;
          g2 = write_arm G g1 True;
          armed = read_arm G g2;
          g3 = write_lock G g2 1
      in (armed, g3))"

definition secure_boot_enabled :: "'o otp_ops \<Rightarrow> 'o \<Rightarrow> bool \<times> 'o" where
  "secure_boot_enabled T s =
     (case read_raw_word T s 0x40 of
        (Some w, s1) \<Rightarrow> (w AND 1 \<noteq> 0, s1)
      | (None, s1) \<Rightarrow> (False, s1))"

section \<open>The status LED\<close>

record rgb8 =
  red :: u8
  green :: u8
  blue :: u8

definition rgb :: "u8 \<Rightarrow> u8 \<Rightarrow> u8 \<Rightarrow> rgb8" where
  "rgb r g b = \<lparr> red = r, green = g, blue = b \<rparr>"

definition BLUE :: rgb8 where "BLUE = rgb 0 0 60"
definition GREEN :: rgb8 where "GREEN = rgb 0 60 0"
definition AMBER :: rgb8 where "AMBER = rgb 70 28 0"
definition RED :: rgb8 where "RED = rgb 80 0 0"
definition BUSY :: rgb8 where "BUSY = rgb 40 40 40"

fun color_for :: "device_state \<Rightarrow> rgb8" where
  "color_for Uninitialized = BLUE"
| "color_for DevReady = GREEN"
| "color_for ProdReady = GREEN"
| "color_for ProdLocked = AMBER"
| "color_for LockedOut = RED"

lemmas led_colors = BLUE_def GREEN_def AMBER_def RED_def BUSY_def rgb_def

lemma color_for_green: "color_for s = GREEN \<longleftrightarrow> signer_ready s"
  by (cases s) (simp_all add: led_colors)

lemma color_for_not_busy: "color_for s \<noteq> BUSY"
  by (cases s) (simp_all add: led_colors)

end
