(* ===== verification/Usb.thy ===== *)
theory Usb
  imports Transport FlashHal OtpSecret Board
begin

text \<open>
  The USB transport of the firmware (\<^verbatim>\<open>hsm-fw/src/usb.rs\<close>): boot, the wait for a connection, the session
  loop and the framing of responses. The two tasks of the firmware run interleaved at their
  \<^verbatim>\<open>await\<close> points, so the protocol task is a step relation in which the bus handler may run between
  any two steps. The CDC-ACM class is a parameter.
\<close>

definition PACKET :: nat where
  "PACKET = 64"

lemma PACKET_pos: "0 < PACKET"
  by (simp add: PACKET_def)

section \<open>Framing\<close>

text \<open>The class: reading a packet fails when the connection is gone, so does writing one.\<close>

record 'c usb_class =
  read_packet :: "'c \<Rightarrow> bytes option \<times> 'c"
  write_packet :: "'c \<Rightarrow> bytes \<Rightarrow> bool \<times> 'c"

text \<open>The loop of \<^verbatim>\<open>write_framed\<close>, with its buffer and index.\<close>

fun write_loop :: "'c usb_class \<Rightarrow> 'c \<Rightarrow> bytes \<Rightarrow> nat \<Rightarrow> bytes \<Rightarrow> bool \<times> 'c" where
  "write_loop U c buf idx (b # bs) =
     (let buf1 = buf[idx := b]; idx1 = Suc idx in
      if idx1 = PACKET then
        (case write_packet U c buf1 of
           (True, c1) \<Rightarrow> write_loop U c1 buf1 0 bs
         | (False, c1) \<Rightarrow> (False, c1))
      else write_loop U c buf1 idx1 bs)"
| "write_loop U c buf idx [] = (if idx > 0 then write_packet U c (take idx buf) else (True, c))"

definition write_framed :: "'c usb_class \<Rightarrow> 'c \<Rightarrow> bytes \<Rightarrow> bool \<times> 'c" where
  "write_framed U c resp = write_loop U c (replicate PACKET 0) 0 (resp @ [0x0A])"

text \<open>Sending packets in order until one fails.\<close>

fun send_all :: "'c usb_class \<Rightarrow> 'c \<Rightarrow> bytes list \<Rightarrow> bool \<times> 'c" where
  "send_all U c [] = (True, c)"
| "send_all U c (p # ps) =
     (case write_packet U c p of (True, c1) \<Rightarrow> send_all U c1 ps | (False, c1) \<Rightarrow> (False, c1))"

fun packets :: "bytes \<Rightarrow> bytes \<Rightarrow> bytes list" where
  "packets buf (b # bs) = (if Suc (length buf) = PACKET then (buf @ [b]) # packets [] bs else packets (buf @ [b]) bs)"
| "packets buf [] = (if buf = [] then [] else [buf])"

lemma write_loop_packets:
  "idx < PACKET \<Longrightarrow> length buf = PACKET \<Longrightarrow> write_loop U c buf idx bs = send_all U c (packets (take idx buf) bs)"
proof (induction U c buf idx bs rule: write_loop.induct)
  case (1 U c buf idx b bs)
  let ?buf = "buf[idx := b]"
  have t: "take (Suc idx) ?buf = take idx buf @ [b]" using 1(3,4) by (simp add: take_Suc_conv_app_nth)
  show ?case
  proof (cases "Suc idx = PACKET")
    case True
    then have "?buf = take idx buf @ [b]" using t 1(4) by (metis length_list_update order_refl take_all)
    moreover obtain r c1 where w: "write_packet U c ?buf = (r, c1)" by fastforce
    moreover have "write_loop U c1 ?buf 0 bs = send_all U c1 (packets [] bs)" if "r"
      using 1(1) [OF refl refl True, of r c1] that w 1(4) by (simp add: PACKET_def)
    ultimately show ?thesis using True 1(3,4) by (cases r) (auto simp: Let_def min_def)
  next
    case False
    then show ?thesis using 1(2) [OF refl refl False] 1(3,4) t by (simp add: Let_def min_def)
  qed
next
  case (2 U c buf idx)
  then show ?case by (auto split: bool.split prod.split)
qed

lemma packets_spec:
  "length buf < PACKET \<Longrightarrow> concat (packets buf bs) = buf @ bs \<and> (\<forall>p \<in> set (packets buf bs). 0 < length p \<and> length p \<le> PACKET)
    \<and> (\<forall>p \<in> set (butlast (packets buf bs)). length p = PACKET)"
proof (induction buf bs rule: packets.induct)
  case (1 buf b bs)
  show ?case
  proof (cases "Suc (length buf) = PACKET")
    case True
    then show ?thesis using 1(1) by (simp add: PACKET_pos)
  next
    case False
    then show ?thesis using 1(2,3) by simp
  qed
qed auto

lemma write_framed_send: "write_framed U c resp = send_all U c (packets [] (resp @ [0x0A]))"
  using write_loop_packets [of 0 "replicate PACKET 0" U c "resp @ [0x0A]"] by (simp add: write_framed_def PACKET_def)

text \<open>Responses are framed losslessly. Writing a response sends packets of 1 to 64 bytes, all but the last of
  them full, whose bytes are the response followed by one newline, and stops at the first packet
  that cannot be written.\<close>

lemma write_framed_packets:
  "\<exists>ps. write_framed U c resp = send_all U c ps \<and> concat ps = resp @ [0x0A]
    \<and> list_all (\<lambda>p. 0 < length p \<and> length p \<le> 64) ps \<and> list_all (\<lambda>p. length p = 64) (butlast ps)"
proof -
  note write_framed_send [of U c resp]
  with packets_spec [of "[]" "resp @ [0x0A]"] show ?thesis by (auto simp: PACKET_def list_all_iff)
qed

section \<open>Boot\<close>

text \<open>What the board offers: the crates and drivers, and the readings taken once at boot.\<close>

record ('d, 't, 'o, 'e, 'g, 'r) board =
  b_externs :: "'r externs"
  b_flash :: "'d flash_driver"
  b_timer :: "'t timer"
  b_otp :: "'o otp_ops"
  b_trng :: "'e \<Rightarrow> nat \<Rightarrow> bytes \<times> 'e"
  b_glitch :: "'g glitch_ops"
  b_chipid :: "u64 option"
  b_recovery_low :: bool
  b_had_glitch :: bool
  b_sram :: "nat \<Rightarrow> u8"

type_synonym ('d, 't, 'e, 'r) fw_hsm = "('e, 't, 'd embassy_flash, 'r) hsm"

definition fw_platform :: "('d, 't, 'o, 'e, 'g, 'r) board \<Rightarrow> ('e, 't, 'd embassy_flash, 'r) platform" where
  "fw_platform B = \<lparr> px = b_externs B, pe = trng_entropy (b_trng B), pm = embassy_clock (b_timer B),
     pf = embassy_ops (b_flash B), pw = 32 \<rparr>"

text \<open>The first steps of the firmware: the recovery pin is sampled and the glitch detectors are armed.\<close>

definition fw_early :: "('d, 't, 'o, 'e, 'g, 'r) board \<Rightarrow> 'g \<Rightarrow> bool \<times> bool \<times> 'g" where
  "fw_early B g =
     (let physical_recovery_authorized = b_recovery_low B;
          (glitch_armed, g1) = arm_glitch_detectors (b_glitch B) g
      in (physical_recovery_authorized, glitch_armed, g1))"

definition fw_boot ::
    "('d, 't, 'o, 'e, 'g, 'r) board \<Rightarrow> 'g \<Rightarrow> 'e \<Rightarrow> 't \<Rightarrow> 'o \<Rightarrow> 'd \<Rightarrow> ('d, 't, 'e, 'r) fw_hsm \<times> 'o \<times> 'g" where
  "fw_boot B g e t otp d =
     (let P = fw_platform B;
          (physical_recovery_authorized, glitch_armed, g1) = fw_early B g;
          (device_secret, otp1, e1) = load_or_provision (b_externs B) (pe P) (b_otp B) otp e;
          otp2 = lock_slots (b_otp B) otp1;
          flash = embassy_flash_new d (b_chipid B) device_secret;
          h = boot P e1 t flash;
          h1 = set_physical_recovery_authorized physical_recovery_authorized h;
          (secure_boot, otp3) = secure_boot_enabled (b_otp B) otp2;
          h2 = set_security_flags glitch_armed secure_boot (b_had_glitch B) h1;
          h3 = mix_entropy P (boot_noise (b_sram B)) h2
      in (h3, otp3, g1))"

section \<open>The protocol task\<close>

text \<open>
  Where the task is: waiting for a connection, reading, showing the busy colour before a request is
  served, about to write a response (of a request, or the complaint about an overlong line), reset
  to the bootloader, or halted by a panic.
\<close>

datatype phase = Waiting | Reading | Serving bytes | Replying bytes bool | Rebooting | Halted

record ('d, 't, 'e, 'r, 'c) usb =
  u_hsm :: "('d, 't, 'e, 'r) fw_hsm"
  u_class :: 'c
  u_asm :: line_assembler
  u_rest :: bytes
  u_phase :: phase
  u_relock_requested :: bool
  u_led :: rgb8

text \<open>The bus handler.\<close>

definition on_reset :: "('d, 't, 'e, 'r, 'c) usb \<Rightarrow> ('d, 't, 'e, 'r, 'c) usb" where
  "on_reset s = s\<lparr>u_relock_requested := True\<rparr>"

definition on_suspended :: "bool \<Rightarrow> ('d, 't, 'e, 'r, 'c) usb \<Rightarrow> ('d, 't, 'e, 'r, 'c) usb" where
  "on_suspended suspended s = (if suspended then s\<lparr>u_relock_requested := True\<rparr> else s)"

text \<open>The start of the task, a new session, and what follows the end of one.\<close>

definition usb_start :: "('d, 't, 'e, 'r) fw_hsm \<Rightarrow> 'c \<Rightarrow> ('d, 't, 'e, 'r, 'c) usb" where
  "usb_start h c = \<lparr> u_hsm = h, u_class = c, u_asm = line_assembler_new, u_rest = [], u_phase = Waiting,
     u_relock_requested = False, u_led = color_for (h_state h) \<rparr>"

definition session_start :: "('d, 't, 'e, 'r, 'c) usb \<Rightarrow> ('d, 't, 'e, 'r, 'c) usb" where
  "session_start s = s\<lparr>u_asm := line_assembler_new, u_rest := [], u_phase := Reading\<rparr>"

definition session_over :: "('d, 't, 'e, 'r, 'c) usb \<Rightarrow> ('d, 't, 'e, 'r, 'c) usb" where
  "session_over s =
     (let h = relock_on_transport_reset (u_hsm s)
      in s\<lparr>u_relock_requested := False, u_hsm := h, u_led := color_for (h_state h), u_phase := Waiting\<rparr>)"

text \<open>One byte of a packet. A complete line relocks first if the bus asked for it; then the LED shows busy.\<close>

definition session_byte :: "u8 \<Rightarrow> bytes \<Rightarrow> ('d, 't, 'e, 'r, 'c) usb \<Rightarrow> ('d, 't, 'e, 'r, 'c) usb" where
  "session_byte b bs s =
     (case push (u_asm s) b of
        (None, a) \<Rightarrow> s\<lparr>u_asm := a, u_rest := bs\<rparr>
      | (Some (Line line), a) \<Rightarrow>
          let h = (if u_relock_requested s then relock_on_transport_reset (u_hsm s) else u_hsm s)
          in s\<lparr>u_asm := a, u_rest := bs, u_relock_requested := False, u_hsm := h, u_led := BUSY, u_phase := Serving line\<rparr>
      | (Some TooLong, a) \<Rightarrow> s\<lparr>u_asm := a, u_rest := bs, u_phase := Replying TOO_LARGE False\<rparr>)"

definition session_serve ::
    "('e, 't, 'd embassy_flash, 'r) platform \<Rightarrow> (bytes \<Rightarrow> string + request) \<Rightarrow> (response \<Rightarrow> bytes option) \<Rightarrow> bytes
      \<Rightarrow> ('d, 't, 'e, 'r, 'c) usb \<Rightarrow> ('d, 't, 'e, 'r, 'c) usb" where
  "session_serve P from_slice to_vec line s =
     (case process_line P from_slice to_vec line (u_hsm s) of
        None \<Rightarrow> s\<lparr>u_phase := Halted\<rparr>
      | Some (resp, h) \<Rightarrow> s\<lparr>u_hsm := h, u_led := color_for (h_state h), u_phase := Replying resp True\<rparr>)"

definition session_reply :: "'c usb_class \<Rightarrow> bytes \<Rightarrow> bool \<Rightarrow> ('d, 't, 'e, 'r, 'c) usb \<Rightarrow> ('d, 't, 'e, 'r, 'c) usb" where
  "session_reply U resp served s =
     (case write_framed U (u_class s) resp of
        (False, c) \<Rightarrow> session_over (s\<lparr>u_class := c\<rparr>)
      | (True, c) \<Rightarrow>
          if served then
            let (reboot, h) = take_reboot_requested (u_hsm s)
            in s\<lparr>u_class := c, u_hsm := h, u_phase := (if reboot then Rebooting else Reading)\<rparr>
          else s\<lparr>u_class := c, u_phase := Reading\<rparr>)"

definition session_read :: "'c usb_class \<Rightarrow> ('d, 't, 'e, 'r, 'c) usb \<Rightarrow> ('d, 't, 'e, 'r, 'c) usb" where
  "session_read U s =
     (case read_packet U (u_class s) of
        (None, c) \<Rightarrow> session_over (s\<lparr>u_class := c\<rparr>)
      | (Some p, c) \<Rightarrow> s\<lparr>u_class := c, u_rest := p\<rparr>)"

text \<open>One step of the protocol task, up to its next \<^verbatim>\<open>await\<close>.\<close>

definition task_step ::
    "('e, 't, 'd embassy_flash, 'r) platform \<Rightarrow> 'c usb_class \<Rightarrow> (bytes \<Rightarrow> string + request) \<Rightarrow> (response \<Rightarrow> bytes option)
      \<Rightarrow> ('d, 't, 'e, 'r, 'c) usb \<Rightarrow> ('d, 't, 'e, 'r, 'c) usb" where
  "task_step P U from_slice to_vec s =
     (case u_phase s of
        Waiting \<Rightarrow> session_start s
      | Reading \<Rightarrow> (case u_rest s of [] \<Rightarrow> session_read U s | b # bs \<Rightarrow> session_byte b bs s)
      | Serving line \<Rightarrow> session_serve P from_slice to_vec line s
      | Replying resp served \<Rightarrow> session_reply U resp served s
      | Rebooting \<Rightarrow> s
      | Halted \<Rightarrow> s)"

inductive usb_run ::
    "('e, 't, 'd embassy_flash, 'r) platform \<Rightarrow> 'c usb_class \<Rightarrow> (bytes \<Rightarrow> string + request) \<Rightarrow> (response \<Rightarrow> bytes option)
      \<Rightarrow> ('d, 't, 'e, 'r) fw_hsm \<Rightarrow> ('d, 't, 'e, 'r, 'c) usb \<Rightarrow> bool" for P U from_slice to_vec h0 where
  starts: "usb_run P U from_slice to_vec h0 (usb_start h0 c)"
| runs: "usb_run P U from_slice to_vec h0 s \<Longrightarrow> usb_run P U from_slice to_vec h0 (task_step P U from_slice to_vec s)"
| bus_reset: "usb_run P U from_slice to_vec h0 s \<Longrightarrow> usb_run P U from_slice to_vec h0 (on_reset s)"
| bus_suspend: "usb_run P U from_slice to_vec h0 s \<Longrightarrow> usb_run P U from_slice to_vec h0 (on_suspended b s)"
| waits: "usb_run P U from_slice to_vec h0 s \<Longrightarrow> now_micros (pm P) (h_mono (u_hsm s)) \<le> now_micros (pm P) m
    \<Longrightarrow> usb_run P U from_slice to_vec h0 (s\<lparr>u_hsm := (u_hsm s)\<lparr>h_mono := m\<rparr>\<rparr>)"
| class_moves: "usb_run P U from_slice to_vec h0 s \<Longrightarrow> usb_run P U from_slice to_vec h0 (s\<lparr>u_class := c\<rparr>)"

section \<open>The task keeps to the device's events\<close>

lemmas session_defs = session_start_def session_over_def session_byte_def session_serve_def session_reply_def session_read_def
  on_reset_def on_suspended_def take_reboot_requested_def

lemma usb_run_device_run:
  assumes "usb_run P U from_slice to_vec h0 s" and "device_run P from_slice to_vec h0"
  shows "device_run P from_slice to_vec (u_hsm s)"
  using assms
proof (induction rule: usb_run.induct)
  case (runs s)
  then have d: "device_run P from_slice to_vec (u_hsm s)" by simp
  have t: "device_run P from_slice to_vec (relock_on_transport_reset (u_hsm s))" by (rule stepped [OF d transport_reset])
  have r: "device_run P from_slice to_vec (snd (take_reboot_requested (u_hsm s)))"
    by (rule stepped [OF d reboot_taken]) (simp add: take_reboot_requested_def)
  show ?case
  proof (cases "u_phase s")
    case (Serving line)
    then show ?thesis
      using d by (auto simp: task_step_def session_serve_def intro: stepped [OF d] serve split: option.splits)
  qed (use d t r in \<open>auto simp: task_step_def session_defs Let_def split: list.splits prod.splits option.splits event.splits bool.splits\<close>)
next
  case (waits s m)
  then show ?case by (auto intro: stepped time_passes)
qed (auto simp: usb_start_def session_defs)

lemma boot_not_ready: "h_state (boot P e m f) \<noteq> ProdReady"
  by (simp add: boot_def load_from_flash_def load_dev_def load_prod_def enter_locked_out_def drop_live_secrets_def Let_def
      split: prod.split sum.split option.split mode.split)

lemma fw_boot_run:
  assumes "fw_boot B g e t otp d = (h, otp', g')"
  shows "device_run (fw_platform B) from_slice to_vec h" and "h_state h \<noteq> ProdReady"
proof -
  let ?P = "fw_platform B"
  obtain sec otp1 e1 where 1: "load_or_provision (b_externs B) (pe ?P) (b_otp B) otp e = (sec, otp1, e1)" by (metis prod.exhaust)
  obtain armed sb where h: "h = mix_entropy ?P (boot_noise (b_sram B)) (set_security_flags armed sb (b_had_glitch B)
      (set_physical_recovery_authorized (b_recovery_low B) (boot ?P e1 t (embassy_flash_new d (b_chipid B) sec))))"
    using assms by (auto simp: fw_boot_def fw_early_def 1 Let_def split: prod.splits)
  show "device_run ?P from_slice to_vec h"
    unfolding h by (rule stepped [OF stepped [OF stepped [OF booted recovery] security] mix])
  show "h_state h \<noteq> ProdReady"
    by (simp add: h mix_entropy_def set_security_flags_def set_physical_recovery_authorized_def boot_not_ready)
qed

lemma boot_no_reboot: "\<not> h_reboot_requested (boot P e t f)"
  by (simp add: boot_def load_from_flash_def load_dev_def load_prod_def enter_locked_out_def drop_live_secrets_def Let_def
      split: prod.split sum.split option.split mode.split)

lemma fw_boot_no_reboot: "fw_boot B g e t otp d = (h, otp', g') \<Longrightarrow> \<not> h_reboot_requested h"
  by (auto simp: fw_boot_def fw_early_def mix_entropy_def set_security_flags_def set_physical_recovery_authorized_def boot_no_reboot Let_def
      split: prod.splits)

text \<open>The LED and the lock while nobody is connected.\<close>

definition usb_inv :: "('d, 't, 'e, 'r, 'c) usb \<Rightarrow> bool" where
  "usb_inv s \<longleftrightarrow>
     (case u_phase s of
        Waiting \<Rightarrow> h_state (u_hsm s) \<noteq> ProdReady \<and> u_led s = color_for (h_state (u_hsm s))
      | Serving _ \<Rightarrow> u_led s = BUSY
      | Halted \<Rightarrow> u_led s = BUSY
      | _ \<Rightarrow> u_led s = color_for (h_state (u_hsm s)))"

lemma relock_not_ready: "h_state (relock_on_transport_reset h) \<noteq> ProdReady"
  by (simp add: relock_on_transport_reset_def drop_live_secrets_def Let_def)

lemma usb_run_inv:
  assumes "usb_run P U from_slice to_vec h0 s" and "h_state h0 \<noteq> ProdReady"
  shows "usb_inv s"
  using assms
proof (induction rule: usb_run.induct)
  case (runs s)
  then have i: "usb_inv s" by simp
  show ?case
  proof (cases "u_phase s")
    case Reading
    then show ?thesis
      using i
      by (auto simp: task_step_def usb_inv_def session_byte_def session_read_def session_over_def relock_not_ready Let_def
          split: list.split prod.split option.split event.split)
  next
    case (Replying resp served)
    then show ?thesis
      using i
      by (auto simp: task_step_def usb_inv_def session_reply_def session_over_def relock_not_ready take_reboot_requested_def Let_def split: bool.split prod.split)
  qed (use i in \<open>auto simp: task_step_def usb_inv_def session_start_def session_serve_def split: option.split prod.split\<close>)
qed (auto simp: usb_inv_def usb_start_def on_reset_def on_suspended_def split: phase.splits)

section \<open>Properties of the firmware\<close>

text \<open>C18: a disconnected device is locked. From every boot of the firmware, whatever the host sends and however
  bus events fall between the steps of the protocol task: while no host is connected the device is
  not unlocked and, in production, holds no key; and the LED shows the colour of the device's state
  except while a request is being served.\<close>

theorem disconnected_device_locked:
  assumes "fw_boot B g e t otp d = (h0, otp', g')" and "usb_run (fw_platform B) U from_slice to_vec h0 s"
  shows "(u_phase s = Waiting \<longrightarrow> h_state (u_hsm s) \<noteq> ProdReady
      \<and> (map_option mode (h_config (u_hsm s)) = Some Prod \<longrightarrow>
          h_ca (u_hsm s) = None \<and> h_wrap_kek (u_hsm s) = None \<and> h_wrap_salt (u_hsm s) = None))
    \<and> (u_phase s = Waiting \<or> u_phase s = Reading \<longrightarrow> u_led s = color_for (h_state (u_hsm s)))"
proof -
  note b = fw_boot_run [OF assms(1)]
  have i: "usb_inv s" by (rule usb_run_inv [OF assms(2) b(2)])
  have "hsm_inv (fw_platform B) (u_hsm s)" by (rule device_run_inv [OF usb_run_device_run [OF assms(2) b(1)]])
  then have m: "mode_ok (h_state (u_hsm s)) (h_config (u_hsm s))"
    "secrets_ok (h_state (u_hsm s)) (h_ca (u_hsm s)) (h_wrap_kek (u_hsm s)) (h_wrap_salt (u_hsm s))"
    by (simp_all add: hsm_inv_def)
  show ?thesis using i m by (cases "h_state (u_hsm s)") (auto simp: usb_inv_def)
qed

definition sample_board :: "(nat \<Rightarrow> u8, nat, ram_otp, nat, bool, nat) board" where
  "sample_board = \<lparr> b_externs = sevens, b_flash = ram_driver, b_timer = counter_timer, b_otp = ram_otp_ops,
     b_trng = (\<lambda>e n. (map of_nat [0 ..< n], Suc e)),
     b_glitch = \<lparr> write_sensitivity = (\<lambda>g r. g), write_arm = (\<lambda>g a. a), read_arm = (\<lambda>g. g), write_lock = (\<lambda>g l. g) \<rparr>,
     b_chipid = Some 7, b_recovery_low = False, b_had_glitch = False, b_sram = (\<lambda>_. 0) \<rparr>"

definition closed_class :: "unit usb_class" where
  "closed_class = \<lparr> read_packet = (\<lambda>c. (None, c)), write_packet = (\<lambda>c p. (False, c)) \<rparr>"

theorem disconnected_device_locked_witness:
  "\<exists>h0 otp' g' s. fw_boot sample_board False 0 0 blank_otp (\<lambda>_. 0xFF) = (h0, otp', g')
     \<and> usb_run (fw_platform sample_board) closed_class (\<lambda>_. Inl []) (\<lambda>_. None) h0 s \<and> u_phase s = Waiting
     \<and> h_state (u_hsm s) \<noteq> ProdReady"
proof -
  let ?P = "fw_platform sample_board"
  obtain h0 otp' g' where b: "fw_boot sample_board False 0 0 blank_otp (\<lambda>_. 0xFF) = (h0, otp', g')" by (metis prod.exhaust)
  let ?s = "task_step ?P closed_class (\<lambda>_. Inl []) (\<lambda>_. None) (task_step ?P closed_class (\<lambda>_. Inl []) (\<lambda>_. None) (usb_start h0 ()))"
  have r: "usb_run ?P closed_class (\<lambda>_. Inl []) (\<lambda>_. None) h0 ?s" by (intro runs starts)
  have w: "u_phase ?s = Waiting"
    by (simp add: task_step_def usb_start_def session_start_def session_read_def session_over_def closed_class_def Let_def)
  from disconnected_device_locked [OF b r] b r w show ?thesis by blast
qed

text \<open>A bus reset or suspend relocks before the next request is taken. When the byte that completes a request
  line is processed after the bus handler asked for a relock, the device is locked before the
  request is served, and the request to relock is used up.\<close>

lemma relock_before_request:
  assumes "u_relock_requested s" and "push (u_asm s) b = (Some (Line line), a)"
    and "map_option mode (h_config (u_hsm s)) = Some Prod"
  shows "u_phase (session_byte b bs s) = Serving line \<and> \<not> u_relock_requested (session_byte b bs s)
    \<and> h_state (u_hsm (session_byte b bs s)) \<noteq> ProdReady \<and> h_ca (u_hsm (session_byte b bs s)) = None
    \<and> h_wrap_kek (u_hsm (session_byte b bs s)) = None \<and> h_flash (u_hsm (session_byte b bs s)) = h_flash (u_hsm s)"
  using assms by (auto simp: session_byte_def relock_on_transport_reset_def drop_live_secrets_def Let_def)

text \<open>A suspend alone does not drop the key. The bus handler only records that a relock is wanted: until the
  next request line is complete or the connection fails, an unlocked device stays unlocked with its key
  in RAM; and a suspend that comes while the LED is switched to busy, after the check, does not
  lock the device for the request in hand, which is served unlocked.\<close>

lemma suspend_keeps_key_until_next_request:
  "u_hsm (on_suspended True s) = u_hsm s \<and> u_hsm (on_reset s) = u_hsm s
   \<and> (u_phase s = Serving line \<longrightarrow> task_step P U from_slice to_vec (on_suspended True s)
        = session_serve P from_slice to_vec line (s\<lparr>u_relock_requested := True\<rparr>)
      \<and> (\<forall>resp h. process_line P from_slice to_vec line (u_hsm s) = Some (resp, h) \<longrightarrow>
          u_hsm (task_step P U from_slice to_vec (on_suspended True s)) = h))"
  by (simp add: on_suspended_def on_reset_def task_step_def session_serve_def)

section \<open>A whole session\<close>

text \<open>A host that sends the given packets, reads everything, and then goes away.\<close>

definition pipe :: "(bytes list \<times> bytes) usb_class" where
  "pipe = \<lparr> read_packet = (\<lambda>c. case fst c of [] \<Rightarrow> (None, c) | p # ps \<Rightarrow> (Some p, (ps, snd c))),
     write_packet = (\<lambda>c p. (True, (fst c, snd c @ p))) \<rparr>"

lemma write_framed_pipe: "write_framed pipe c resp = (True, (fst c, snd c @ resp @ [0x0A]))"
proof -
  have "send_all pipe c ps = (True, (fst c, snd c @ concat ps))" for ps
    by (induction ps arbitrary: c) (simp_all add: pipe_def)
  then show ?thesis using packets_spec [of "[]" "resp @ [0x0A]"] by (simp add: write_framed_send PACKET_pos)
qed

definition reading :: "('d, 't, 'e, 'r) fw_hsm \<Rightarrow> 'c \<Rightarrow> line_assembler \<Rightarrow> bytes \<Rightarrow> rgb8 \<Rightarrow> ('d, 't, 'e, 'r, 'c) usb" where
  "reading h c a bs l = \<lparr> u_hsm = h, u_class = c, u_asm = a, u_rest = bs, u_phase = Reading, u_relock_requested = False, u_led = l \<rparr>"

text \<open>One byte of input: nothing complete yet, a request line, or an overlong line.\<close>

lemma byte_pending:
  assumes "push a b = (None, a1)"
  shows "task_step P pipe from_slice to_vec (reading h c a (b # bs) l) = reading h c a1 bs l"
  using assms by (simp add: task_step_def session_byte_def reading_def)

lemma byte_line:
  assumes "push a b = (Some (Line line), a1)" and "process_line P from_slice to_vec line h = Some (resp, h1)" and "\<not> h_reboot_requested h1"
  shows "(task_step P pipe from_slice to_vec ^^ 3) (reading h (ins, outs) a (b # bs) l)
    = reading h1 (ins, outs @ framed [resp]) a1 bs (color_for (h_state h1))"
proof -
  have "h1\<lparr>h_reboot_requested := False\<rparr> = h1" using assms(3) by simp
  then show ?thesis
    using assms by (simp add: numeral_3_eq_3 task_step_def session_byte_def session_serve_def session_reply_def
        take_reboot_requested_def write_framed_pipe reading_def Let_def)
qed

lemma byte_too_long:
  assumes "push a b = (Some TooLong, a1)"
  shows "(task_step P pipe from_slice to_vec ^^ 2) (reading h (ins, outs) a (b # bs) l) = reading h (ins, outs @ framed [TOO_LARGE]) a1 bs l"
  using assms by (simp add: numeral_2_eq_2 task_step_def session_byte_def session_reply_def write_framed_pipe reading_def)

lemma byte_served:
  assumes "serve_events P from_slice to_vec (fst (drive a (b # bs))) h = Some (rs, h')" and "push a b = (ev, a1)"
  obtains k l1 h1 r1 r2 where
    "(task_step P pipe from_slice to_vec ^^ k) (reading h (ins, outs) a (b # bs) l) = reading h1 (ins, outs @ framed r1) a1 bs l1"
    "serve_events P from_slice to_vec (fst (drive a1 bs)) h1 = Some (r2, h')" "rs = r1 @ r2"
proof (cases ev)
  case None
  have "(task_step P pipe from_slice to_vec ^^ 1) (reading h (ins, outs) a (b # bs) l) = reading h (ins, outs @ framed []) a1 bs l"
    using byte_pending assms(2) None by simp
  then show thesis by (rule that [of _ _ _ _ rs]) (use assms None in \<open>simp_all add: split_def Let_def\<close>)
next
  case (Some e)
  show thesis
  proof (cases e)
    case (Line line)
    obtain resp h1 r2 where s: "process_line P from_slice to_vec line h = Some (resp, h1)" "\<not> h_reboot_requested h1"
      "serve_events P from_slice to_vec (fst (drive a1 bs)) h1 = Some (r2, h')" "rs = [resp] @ r2"
      using assms by (auto simp: Some Line split_def Let_def split: option.splits if_splits)
    show thesis by (rule that [OF byte_line [OF _ s(1,2)] s(3,4)]) (use assms(2) Some Line in simp)
  next
    case TooLong
    obtain r2 where s: "serve_events P from_slice to_vec (fst (drive a1 bs)) h = Some (r2, h')" "rs = [TOO_LARGE] @ r2"
      using assms by (auto simp: Some TooLong split_def Let_def)
    show thesis by (rule that [OF byte_too_long s]) (use assms(2) Some TooLong in simp)
  qed
qed

lemma bytes_served:
  "serve_events P from_slice to_vec (fst (drive a bs)) h = Some (rs, h') \<Longrightarrow>
    \<exists>n l'. (task_step P pipe from_slice to_vec ^^ n) (reading h (ins, outs) a bs l)
      = reading h' (ins, outs @ framed rs) (snd (drive a bs)) [] l'"
proof (induction bs arbitrary: a h outs l rs)
  case Nil
  then show ?case by (intro exI [of _ 0] exI [of _ l]) simp
next
  case (Cons b bs)
  let ?f = "task_step P pipe from_slice to_vec"
  obtain ev a1 where p: "push a b = (ev, a1)" by fastforce
  have d: "snd (drive a (b # bs)) = snd (drive a1 bs)" by (simp add: p split_def Let_def)
  obtain k l1 h1 r1 r2 where k: "(?f ^^ k) (reading h (ins, outs) a (b # bs) l) = reading h1 (ins, outs @ framed r1) a1 bs l1"
    "serve_events P from_slice to_vec (fst (drive a1 bs)) h1 = Some (r2, h')" "rs = r1 @ r2"
    by (rule byte_served [OF Cons.prems p])
  obtain n l' where "(?f ^^ n) (reading h1 (ins, outs @ framed r1) a1 bs l1) = reading h' (ins, (outs @ framed r1) @ framed r2) (snd (drive a1 bs)) [] l'"
    using Cons.IH [OF k(2)] by blast
  then have "(?f ^^ (n + k)) (reading h (ins, outs) a (b # bs) l) = reading h' (ins, outs @ framed rs) (snd (drive a (b # bs))) [] l'"
    using k(1) by (simp only: funpow_add o_apply k(3) d framed_append append_assoc)
  then show ?case by blast
qed

lemma packets_served:
  "serve_events P from_slice to_vec (fst (drive a (concat ins))) h = Some (rs, h') \<Longrightarrow>
    \<exists>n l'. (task_step P pipe from_slice to_vec ^^ n) (reading h (ins, outs) a [] l)
      = reading h' ([], outs @ framed rs) (snd (drive a (concat ins))) [] l'"
proof (induction ins arbitrary: a h outs l rs)
  case Nil
  then show ?case by (intro exI [of _ 0] exI [of _ l]) simp
next
  case (Cons p ins)
  let ?f = "task_step P pipe from_slice to_vec" and ?a1 = "snd (drive a p)"
  obtain r1 h1 r2 where s: "serve_events P from_slice to_vec (fst (drive a p)) h = Some (r1, h1)"
    "serve_events P from_slice to_vec (fst (drive ?a1 (concat ins))) h1 = Some (r2, h')" "rs = r1 @ r2"
    using Cons.prems serve_events_append by (fastforce simp: drive_append)
  have 1: "?f (reading h (p # ins, outs) a [] l) = reading h (ins, outs) a p l"
    by (simp add: task_step_def session_read_def reading_def pipe_def)
  obtain n l1 where n: "(?f ^^ n) (reading h (ins, outs) a p l) = reading h1 (ins, outs @ framed r1) ?a1 [] l1"
    using bytes_served [OF s(1)] by blast
  obtain k l' where k: "(?f ^^ k) (reading h1 (ins, outs @ framed r1) ?a1 [] l1)
      = reading h' ([], (outs @ framed r1) @ framed r2) (snd (drive ?a1 (concat ins))) [] l'"
    using Cons.IH [OF s(2)] by blast
  have "(?f ^^ (k + Suc n)) (reading h (p # ins, outs) a [] l) = reading h' ([], outs @ framed rs) (snd (drive a (concat (p # ins)))) [] l'"
    using n k 1 by (simp add: funpow_add funpow_Suc_right s(3) framed_append drive_append del: funpow.simps(2))
  then show ?case by blast
qed

text \<open>C20: a session answers every line, in order. Whatever packets the host splits its lines into, the firmware's
  protocol task reads them to the end, writes one framed response for each line, in order, computed by the
  dispatcher on the state the line before left (or the complaint about an overlong line), and when
  the host goes away the device is relocked and waits for the next host.\<close>

theorem session_answers_every_line:
  assumes "concat ins = concat (map (\<lambda>l. l @ [0x0A]) ls)" and "list_all (\<lambda>l. 0x0A \<notin> set l) ls"
    and "serve_events P from_slice to_vec (map line_event ls) h = Some (rs, h')"
  shows "\<exists>n. let s = (task_step P pipe from_slice to_vec ^^ n) (usb_start h (ins, [])) in
    u_class s = ([], concat (map (\<lambda>r. r @ [0x0A]) rs)) \<and> u_hsm s = relock_on_transport_reset h' \<and> u_phase s = Waiting"
proof -
  let ?f = "task_step P pipe from_slice to_vec"
  have d: "fst (drive line_assembler_new (concat ins)) = map line_event ls"
    using drive_lines [of ls] assms(1,2) by (simp add: list_all_iff line_assembler_new_pending)
  have s: "?f (usb_start h (ins, [])) = reading h (ins, []) line_assembler_new [] (color_for (h_state h))"
    by (simp add: task_step_def usb_start_def session_start_def reading_def)
  obtain n l' where n: "(?f ^^ n) (reading h (ins, []) line_assembler_new [] (color_for (h_state h)))
      = reading h' ([], [] @ framed rs) (snd (drive line_assembler_new (concat ins))) [] l'"
    using packets_served [of P from_slice to_vec line_assembler_new ins h rs h' "[]" "color_for (h_state h)"] assms(3) d by auto
  let ?s = "(?f ^^ Suc (Suc n)) (usb_start h (ins, []))"
  have "?s = ?f (reading h' ([], framed rs) (snd (drive line_assembler_new (concat ins))) [] l')"
    using n s by (simp add: funpow_Suc_right [of n] del: funpow.simps(2)) (simp add: funpow_swap1)
  then have "u_class ?s = ([], framed rs)" "u_hsm ?s = relock_on_transport_reset h'" "u_phase ?s = Waiting"
    by (simp_all add: task_step_def session_read_def session_over_def reading_def pipe_def Let_def)
  then show ?thesis by (intro exI [of _ "Suc (Suc n)"]) (simp add: framed_def Let_def)
qed

theorem session_answers_every_line_witness:
  "\<exists>h0 otp' g' n. fw_boot sample_board False 0 0 blank_otp (\<lambda>_. 0xFF) = (h0, otp', g')
     \<and> u_class ((task_step (fw_platform sample_board) pipe (\<lambda>_. Inl []) (\<lambda>_. Some [1]) ^^ n)
          (usb_start h0 ([[0x61, 0x0A, 0x62], [0x63, 0x0A]], []))) = ([], [1, 0x0A, 1, 0x0A])"
proof -
  let ?P = "fw_platform sample_board"
  obtain h0 otp' g' where b: "fw_boot sample_board False 0 0 blank_otp (\<lambda>_. 0xFF) = (h0, otp', g')" by (metis prod.exhaust)
  have r: "\<not> h_reboot_requested h0" using fw_boot_no_reboot [OF b] .
  have "serve_events ?P (\<lambda>_. Inl []) (\<lambda>_. Some [1]) (map line_event [[0x61], [0x62, 0x63]]) h0 = Some ([[1], [1]], h0)"
    using r by (simp add: line_event_def strip_trailing_cr_def MAX_LINE_def process_line_def handle_line_def json_ws_def)
  from session_answers_every_line [OF _ _ this, of "[[0x61, 0x0A, 0x62], [0x63, 0x0A]]"] b show ?thesis
    by (auto simp: Let_def)
qed

end
