(* ===== verification/PowerCycle.thy ===== *)
theory PowerCycle
  imports Usb
begin

text \<open>
  A power cycle of the device: the flash, the OTP secret and the boot sequence of the firmware together.
\<close>

section \<open>The next boot\<close>

lemma fw_boot_secret:
  assumes "load_or_provision (b_externs B) (trng_entropy (b_trng B)) (b_otp B) otp e = (secret, otp1, e1)"
  obtains h otp' g' where "fw_boot B g e t otp d = (h, otp', g')"
    "h_state h = h_state (boot (fw_platform B) e1 t (embassy_flash_new d (b_chipid B) secret))"
    "keyed (fw_platform B) content healthy h pin seed =
       keyed (fw_platform B) content healthy (boot (fw_platform B) e1 t (embassy_flash_new d (b_chipid B) secret)) pin seed"
proof -
  obtain h otp' g' where b: "fw_boot B g e t otp d = (h, otp', g')" by (metis prod.exhaust)
  moreover have "\<exists>armed sb. h = mix_entropy (fw_platform B) (boot_noise (b_sram B)) (set_security_flags armed sb (b_had_glitch B)
      (set_physical_recovery_authorized (b_recovery_low B)
        (boot (fw_platform B) e1 t (embassy_flash_new d (b_chipid B) secret))))"
    using b assms by (auto simp: fw_boot_def fw_early_def Let_def fw_platform_def split: prod.splits)
  ultimately show thesis
    by (intro that [OF b]) (auto simp: keyed_def mix_entropy_def set_security_flags_def set_physical_recovery_authorized_def)
qed

text \<open>What the boot sequence leaves in the OTP is what loading or provisioning the secret left there.\<close>

lemma fw_boot_otp:
  assumes "otp_reliable (b_otp B) ecc raw good" and "fw_boot B g e t otp d = (h, otp2, g')"
    and "load_or_provision (b_externs B) (trng_entropy (b_trng B)) (b_otp B) otp e = (secret, otp1, e1)"
  shows "ecc otp2 = ecc otp1 \<and> raw otp2 = raw otp1"
proof -
  let ?s = "lock_slots (b_otp B) otp1"
  have l: "ecc ?s = ecc otp1" "raw ?s = raw otp1"
    using otp_reliable.sw_lock_frame [OF assms(1)] by (simp_all add: lock_slots_def SLOT_PAGES_def)
  obtain v s1 where r: "read_raw_word (b_otp B) ?s 0x40 = (v, s1)" by fastforce
  have "ecc s1 = ecc ?s \<and> raw s1 = raw ?s"
    by (rule otp_rom.read_raw_frame [OF _ r]) (use assms(1) in \<open>simp add: otp_reliable_def\<close>)
  moreover have "otp2 = s1"
    using assms(2,3) by (auto simp: fw_boot_def fw_platform_def secure_boot_enabled_def r Let_def split: prod.splits option.splits)
  ultimately show ?thesis using l by simp
qed

text \<open>C19: a power cycle keeps the key. On sound flash and a working OTP, whose slot pages have blank or completely
  burnt lock words and whose primary page is not locked while its slot is blank: when the firmware
  got its device secret at one boot and a PIN opens the key of the device, then the next boot, on the
  flash as the device left it and on the OTP with the rows the first boot left, its pages hard-locked
  and the software locks lifted by the reset, finds the same secret, comes up locked, and the same
  PIN unlocks the same key.\<close>

theorem power_cycle_keeps_key:
  assumes "nor_reliable (b_flash B) mem sound" and "otp_reliable (b_otp B) ecc raw good" and "lengths_ok (b_externs B)"
    and "good otp" and "\<forall>p \<in> set SLOT_PAGES. lock_whole (raw otp (lock1_row p))"
    and "raw otp (lock1_row 61) = 0 \<or> (\<exists>r \<in> slot_rows 61. ecc otp r \<noteq> Some 0)"
    and "fst (load_or_provision (b_externs B) (trng_entropy (b_trng B)) (b_otp B) otp e) = Inr secret"
    and "fw_boot B g1 e t1 otp d = (h1, otp1, g1')"
    and "keyed (fw_platform B) (embassy_content mem) (\<lambda>f. sound (ef_flash f)) h pin seed"
    and "ef_device_secret (h_flash h) = Inr secret"
    and "good otp2" and "ecc otp2 = ecc otp1" and "raw otp2 = raw otp1"
  shows "\<exists>h2 otp3 g3 h3. fw_boot B g e2 t otp2 (ef_flash (h_flash h)) = (h2, otp3, g3) \<and> h_state h2 = ProdLocked
    \<and> hsm_unlock (fw_platform B) \<lparr> ur_pin = pin \<rparr> h2 = Some (unlock_ok, h3) \<and> h_ca h3 = Some (ca_from_seed seed)"
proof -
  let ?P = "fw_platform B" and ?h = "\<lambda>f. sound (ef_flash f)"
  let ?f = "embassy_flash_new (ef_flash (h_flash h)) (b_chipid B) (Inr secret)"
  have rf: "reliable_flash (pf ?P) (embassy_content mem) ?h"
    using nor_reliable.axioms_reliable [OF assms(1)] by (simp add: fw_platform_def)
  then have rel: "hsm_reliable ?P (embassy_content mem) ?h" by (simp add: hsm_reliable_def)
  obtain otp' e1 where l1: "load_or_provision (b_externs B) (trng_entropy (b_trng B)) (b_otp B) otp e = (Inr secret, otp', e1)"
    using assms(7) by (metis prod.collapse)
  have k: "ecc otp2 = ecc otp'" "raw otp2 = raw otp'" using fw_boot_otp [OF assms(2,8) l1] assms(12,13) by simp_all
  obtain otp3 where l: "load_or_provision (b_externs B) (trng_entropy (b_trng B)) (b_otp B) otp2 e2 = (Inr secret, otp3, e2)"
    using device_secret_stable [OF assms(2,3) trng_entropy_errors assms(4-6) l1 assms(11) k] by fast
  have "?h ?f" "embassy_content mem ?f = embassy_content mem (h_flash h)" "fs_device_secret (pf ?P) ?f = fs_device_secret (pf ?P) (h_flash h)"
    using assms(9,10) by (simp_all add: keyed_def embassy_flash_new_def embassy_content_def fun_eq_iff fw_platform_def)
  note k = keyed_transfer [OF assms(9) rf refl this]
  obtain h2 otp4 g3 where "fw_boot B g e2 t otp2 (ef_flash (h_flash h)) = (h2, otp4, g3)" "h_state h2 = ProdLocked"
    "keyed ?P (embassy_content mem) ?h h2 pin seed"
    by (rule fw_boot_secret [OF l, of g t "ef_flash (h_flash h)" "embassy_content mem" ?h pin seed]) (use k in simp)
  then show ?thesis using hsm_reliable.keyed_unlock [OF rel] by blast
qed

section \<open>An example\<close>

text \<open>A flash in memory with given sectors.\<close>

definition flash_image :: "(region \<Rightarrow> bytes) \<Rightarrow> nat \<Rightarrow> u8" where
  "flash_image c i = c (all_regions ! (i div SECTOR_LEN - 1016)) ! (i mod SECTOR_LEN)"

lemma flash_image_content:
  assumes "\<And>r. length (c r) = SECTOR_LEN"
  shows "embassy_content (\<lambda>d. d) (embassy_flash_new (flash_image c) i s) = c"
proof (intro ext nth_equalityI)
  fix r j assume "j < length (embassy_content (\<lambda>d. d) (embassy_flash_new (flash_image c) i s) r)"
  then have "j < SECTOR_LEN" by simp
  moreover have "all_regions ! region_index r = r" by (cases r) (simp_all add: all_regions_def)
  moreover have "((1016 + region_index r) * n + j) div n = 1016 + region_index r" "((1016 + region_index r) * n + j) mod n = j"
    if "j < n" for n using that by simp_all
  ultimately show "embassy_content (\<lambda>d. d) (embassy_flash_new (flash_image c) i s) r ! j = c r ! j"
    by (simp add: embassy_flash_new_def flash_image_def base_index)
qed (simp add: assms)

theorem power_cycle_keeps_key_witness:
  "\<exists>h1 otp1 g1 d otp h2 g3 h3. fw_boot sample_board False 0 0 blank_otp (\<lambda>_. 0xFF) = (h1, otp1, g1)
     \<and> fw_boot sample_board False 0 0 (otp1\<lparr>sw_locked := []\<rparr>) d = (h2, otp, g3) \<and> h_state h2 = ProdLocked
     \<and> hsm_unlock (fw_platform sample_board) \<lparr> ur_pin = ''123456'' \<rparr> h2 = Some (unlock_ok, h3)"
proof -
  let ?P = "fw_platform sample_board" and ?s = "replicate 32 (7 :: u8)"
  have te: "trng_entropy (b_trng sample_board) = counting_entropy" by (simp add: sample_board_def trng_entropy_def counting_entropy_def)
  have rf: "reliable_flash (pf ?P) (embassy_content (\<lambda>d. d)) (\<lambda>_. True)"
    using ram.axioms_reliable by (simp add: fw_platform_def sample_board_def)
  have l: "fst (load_or_provision (b_externs sample_board) (trng_entropy (b_trng sample_board)) (b_otp sample_board) blank_otp 0) = Inr ?s"
    using first_boot unfolding te by (auto simp: sample_board_def)
  obtain h1' otp1 g1 where fb: "fw_boot sample_board False 0 0 blank_otp (\<lambda>_. 0xFF) = (h1', otp1, g1)" by (metis prod.exhaust)
  obtain h0 where k0: "keyed sample_platform mock_content mock_healthy h0 ''123456'' (replicate 32 7)" "h_config h0 = Some sample_prod_config"
    using sample_prod by metis
  define P1 where "P1 = sample_platform\<lparr>px := sevens\<rparr>"
  define h1 where "h1 = h0\<lparr>h_flash := (h_flash h0)\<lparr>device_secret := Inr ?s\<rparr>\<rparr>"
  have c: "mock_content (h_flash h1) = mock_content (h_flash h0)"
  proof -
    have "mock_region (h_flash h1) r = mock_region (h_flash h0) r" for r by (cases r) (simp_all add: h1_def)
    then show ?thesis by (simp add: mock_content_def fun_eq_iff)
  qed
  have x: "pin_kek sevens (as_bytes p) slt DEFAULT_ARGON sec = pin_kek sample_externs (as_bytes p) slt DEFAULT_ARGON sec'"
    "unwrap_seed sevens = unwrap_seed sample_externs" "public_bytes sevens = public_bytes sample_externs" "crc32 sevens = crc32 sample_externs"
    for p slt sec sec'
    by (simp_all add: pin_kek_def unwrap_seed_def public_bytes_def sevens_def sample_externs_def DEFAULT_ARGON_def fun_eq_iff)
  obtain secret blob kek where o: "mock_healthy (h_flash h0)" "count_used (mock_content (h_flash h0) PinCounter) = 0"
    "h_ca_pubkey h0 = Some (public_bytes sample_externs (ca_from_seed (replicate 32 7)))"
    "stored_config sample_platform (mock_content (h_flash h0)) = Some sample_prod_config"
    "stored_blob sample_platform (mock_content (h_flash h0)) = Some blob"
    "opens sample_platform sample_prod_config secret ''123456'' blob kek (replicate 32 7)"
    "pubkey blob = public_bytes sample_externs (ca_from_seed (replicate 32 7))"
    using k0 by (auto simp: keyed_def)
  have "opens P1 sample_prod_config ?s ''123456'' blob kek (replicate 32 7)"
    using o(6) x(1) [of "''123456''" "salt blob" ?s secret] by (simp add: opens_def P1_def x(2))
  with o have k1: "keyed P1 mock_content mock_healthy h1 ''123456'' (replicate 32 7)"
    using c by (simp add: keyed_def P1_def k0(2) stored_config_def stored_blob_def x(3,4)) (auto simp: h1_def k0(2) mock_healthy_def)
  let ?f = "embassy_flash_new (flash_image (mock_content (h_flash h1))) (Some 7) (Inr ?s)"
  have f: "embassy_content (\<lambda>d. d) ?f = mock_content (h_flash h1)" by (rule flash_image_content) (simp add: mock_content_def)
  let ?h = "boot ?P 0 0 ?f"
  have "px ?P = px P1" "fs_device_secret (pf ?P) ?f = fs_device_secret (pf P1) (h_flash h1)"
    by (simp_all add: fw_platform_def sample_board_def P1_def h1_def embassy_flash_new_def)
  note k = keyed_transfer [OF k1 rf this(1) TrueI f this(2), of 0 0]
  have n: "nor_reliable (b_flash sample_board) (\<lambda>d. d) (\<lambda>_. True)" "lengths_ok (b_externs sample_board)"
    "otp_reliable (b_otp sample_board) (\<lambda>s r. Some (ecc_mem s r)) raw_mem (\<lambda>s. sw_locked s = [])"
    by (simp_all add: sample_board_def ram.nor_reliable_axioms sevens_lengths ram_otp.otp_reliable_axioms)
  have "ef_device_secret (h_flash ?h) = Inr ?s" using k(3) by (simp add: fw_platform_def embassy_flash_new_def)
  from power_cycle_keeps_key [OF n(1,3,2) _ _ _ l fb k(1) this, of "otp1\<lparr>sw_locked := []\<rparr>" False 0 0] fb show ?thesis
    by (auto simp: lock_whole_def)
qed

end
