(* ===== verification/Sim.thy ===== *)
theory Sim
  imports Transport
begin

text \<open>
  The host simulator (\<^verbatim>\<open>hsm-sim/src/main.rs\<close>): the command line, the state file, and the loop that pumps
  lines between standard input and output. It runs the dispatcher on the in-memory HAL of
  \<^verbatim>\<open>hsm-core/src/testhal.rs\<close>. Files and standard output are parameters; what is used of them is
  stated as a locale.
\<close>

section \<open>Arguments\<close>

definition DEFAULT_SEED :: u64 where
  "DEFAULT_SEED = 0x75736268736d0042"

record sim_args =
  sa_seed :: u64
  sa_fixed_time :: "i64 option"
  sa_state_file :: "string option"

definition fold_hex_seed :: "string \<Rightarrow> u64" where
  "fold_hex_seed hex = foldl (\<lambda>acc b. (acc XOR ucast b) * 0x100000001b3) 0xcbf29ce484222325 (as_bytes hex)"

text \<open>\<^verbatim>\<open>str::parse::<i64>\<close>: an optional sign, then at least one digit, in range.\<close>

definition parse_digits :: "string \<Rightarrow> int option" where
  "parse_digits s = (if s \<noteq> [] \<and> list_all is_ascii_digit s then Some (digits_val 0 s) else None)"

definition parse_i64 :: "string \<Rightarrow> i64 option" where
  "parse_i64 s =
     (case (case s of c # cs \<Rightarrow> if c = CHR ''-'' then map_option uminus (parse_digits cs)
                             else if c = CHR ''+'' then parse_digits cs else parse_digits s
            | [] \<Rightarrow> None) of
        None \<Rightarrow> None
      | Some v \<Rightarrow> if - (2 ^ 63) \<le> v \<and> v < 2 ^ 63 then Some (word_of_int v) else None)"

fun parse_args_loop :: "string list \<Rightarrow> sim_args \<Rightarrow> string + sim_args" where
  "parse_args_loop [] a = Inr a"
| "parse_args_loop (flag # it) a =
     (if flag = ''--deterministic-rng'' then
        (case it of [] \<Rightarrow> Inl ''--deterministic-rng needs a value''
         | hex # it1 \<Rightarrow> parse_args_loop it1 (a\<lparr>sa_seed := fold_hex_seed hex\<rparr>))
      else if flag = ''--fixed-time'' then
        (case it of [] \<Rightarrow> Inl ''--fixed-time needs a value''
         | v # it1 \<Rightarrow> (case parse_i64 v of None \<Rightarrow> Inl ''invalid --fixed-time''
                      | Some t \<Rightarrow> parse_args_loop it1 (a\<lparr>sa_fixed_time := Some t\<rparr>)))
      else if flag = ''--state-file'' then
        (case it of [] \<Rightarrow> Inl ''--state-file needs a value''
         | path # it1 \<Rightarrow> parse_args_loop it1 (a\<lparr>sa_state_file := Some path\<rparr>))
      else Inl (''unknown flag: '' @ flag))"

definition parse_args :: "string list \<Rightarrow> string + sim_args" where
  "parse_args argv =
     parse_args_loop (drop 1 argv) \<lparr> sa_seed = DEFAULT_SEED, sa_fixed_time = None, sa_state_file = None \<rparr>"

definition show_i64 :: "i64 \<Rightarrow> string" where
  "show_i64 t = (if sint t < 0 then CHR ''-'' # show_nat (nat (- sint t)) else show_nat (nat (sint t)))"

lemma digit_no_sign: "is_ascii_digit c \<Longrightarrow> c \<noteq> CHR ''-'' \<and> c \<noteq> CHR ''+''"
  by (auto simp: is_ascii_digit_def)

lemma parse_digits_show [simp]: "parse_digits (show_nat n) = Some (int n)"
  using show_nat_digits [of n] by (simp add: parse_digits_def)

lemma parse_i64_show: "parse_i64 (show_i64 t) = Some t"
proof -
  have r: "- (2 ^ 63) \<le> sint t" "sint t < 2 ^ 63" using sint_greater_eq [of t] sint_less [of t] by simp_all
  show ?thesis
  proof (cases "sint t < 0")
    case True
    then show ?thesis using r by (simp add: parse_i64_def show_i64_def)
  next
    case False
    obtain c cs where c: "show_nat (nat (sint t)) = c # cs" "is_ascii_digit c"
      using show_nat_digits [of "nat (sint t)"] by (cases "show_nat (nat (sint t))") auto
    then have "parse_digits (c # cs) = Some (sint t)" using parse_digits_show [of "nat (sint t)"] False by simp
    then show ?thesis using r False c digit_no_sign [OF c(2)] by (simp add: parse_i64_def show_i64_def)
  qed
qed

section \<open>Standard input\<close>

text \<open>\<^verbatim>\<open>core::str::from_utf8\<close>: well-formed sequences, without overlong forms and surrogates.\<close>

definition utf8_cont :: "u8 \<Rightarrow> bool" where
  "utf8_cont b \<longleftrightarrow> 0x80 \<le> b \<and> b \<le> 0xBF"

fun utf8_valid :: "bytes \<Rightarrow> bool" where
  "utf8_valid [] \<longleftrightarrow> True"
| "utf8_valid (b # bs) \<longleftrightarrow>
     (if b \<le> 0x7F then utf8_valid bs
      else if 0xC2 \<le> b \<and> b \<le> 0xDF then
        (case bs of c1 # cs \<Rightarrow> utf8_cont c1 \<and> utf8_valid cs | _ \<Rightarrow> False)
      else if 0xE0 \<le> b \<and> b \<le> 0xEF then
        (case bs of c1 # c2 # cs \<Rightarrow>
             utf8_cont c1 \<and> (b = 0xE0 \<longrightarrow> 0xA0 \<le> c1) \<and> (b = 0xED \<longrightarrow> c1 \<le> 0x9F) \<and> utf8_cont c2 \<and> utf8_valid cs
         | _ \<Rightarrow> False)
      else if 0xF0 \<le> b \<and> b \<le> 0xF4 then
        (case bs of c1 # c2 # c3 # cs \<Rightarrow>
             utf8_cont c1 \<and> (b = 0xF0 \<longrightarrow> 0x90 \<le> c1) \<and> (b = 0xF4 \<longrightarrow> c1 \<le> 0x8F)
               \<and> utf8_cont c2 \<and> utf8_cont c3 \<and> utf8_valid cs
         | _ \<Rightarrow> False)
      else False)"

text \<open>\<^verbatim>\<open>BufRead::lines\<close>: lines without their terminator, a line that is not UTF-8 an error, and an error
  of the stream itself in place of the line it interrupts.\<close>

definition utf8_line :: "bytes \<Rightarrow> bytes option" where
  "utf8_line l = (if utf8_valid l then Some l else None)"

fun stdin_lines :: "bool \<Rightarrow> bytes \<Rightarrow> bytes \<Rightarrow> bytes option list" where
  "stdin_lines io_ok acc [] = (if \<not> io_ok then [None] else if acc = [] then [] else [utf8_line acc])"
| "stdin_lines io_ok acc (b # bs) =
     (if b = 0x0A then utf8_line (strip_trailing_cr acc) # stdin_lines io_ok [] bs
      else stdin_lines io_ok (acc @ [b]) bs)"

definition str_of :: "bytes \<Rightarrow> string" where
  "str_of bs = map (\<lambda>b. char_of (unat b)) bs"

section \<open>The loop\<close>

record 'o out_ops =
  write_all :: "'o \<Rightarrow> bytes \<Rightarrow> bool \<times> 'o"
  flush :: "'o \<Rightarrow> bool \<times> 'o"

definition write_line :: "'o out_ops \<Rightarrow> 'o \<Rightarrow> bytes \<Rightarrow> bool \<times> 'o" where
  "write_line W out resp =
     (case write_all W out resp of
        (False, out1) \<Rightarrow> (False, out1)
      | (True, out1) \<Rightarrow>
          (case write_all W out1 [0x0A] of
             (False, out2) \<Rightarrow> (False, out2)
           | (True, out2) \<Rightarrow> flush W out2))"

fun sim_loop ::
    "('e, 'm, 'f, 'r) platform \<Rightarrow> (bytes \<Rightarrow> string + request) \<Rightarrow> (response \<Rightarrow> bytes option) \<Rightarrow> 'o out_ops
      \<Rightarrow> bytes option list \<Rightarrow> ('e, 'm, 'f, 'r) hsm \<Rightarrow> 'o \<Rightarrow> (('e, 'm, 'f, 'r) hsm \<times> 'o) option" where
  "sim_loop P from_slice to_vec W [] h out = Some (h, out)"
| "sim_loop P from_slice to_vec W (None # ls) h out = Some (h, out)"
| "sim_loop P from_slice to_vec W (Some l # ls) h out =
     (if trim (str_of l) = [] then sim_loop P from_slice to_vec W ls h out
      else case process_line P from_slice to_vec l h of
          None \<Rightarrow> None
        | Some (resp, h1) \<Rightarrow>
            (case write_line W out resp of
               (False, out1) \<Rightarrow> Some (h1, out1)
             | (True, out1) \<Rightarrow> sim_loop P from_slice to_vec W ls h1 out1))"

section \<open>The program\<close>

record 's file_ops =
  file_read :: "'s \<Rightarrow> string \<Rightarrow> bytes option \<times> 's"
  file_write :: "'s \<Rightarrow> string \<Rightarrow> bytes \<Rightarrow> bool \<times> 's"

type_synonym 'r sim_hsm = "(mock_entropy, mock_clock, mock_flash, 'r) hsm"
type_synonym 'r sim_plat = "(mock_entropy, mock_clock, mock_flash, 'r) platform"

definition sim_platform :: "'r externs \<Rightarrow> 'r sim_plat" where
  "sim_platform X = \<lparr> px = X, pe = mock_entropy_ops, pm = mock_clock_ops, pf = mock_ops, pw = 64 \<rparr>"

definition sim_flash :: "'s file_ops \<Rightarrow> string option \<Rightarrow> 's \<Rightarrow> mock_flash \<times> 's" where
  "sim_flash F state_file s =
     (case state_file of
        None \<Rightarrow> (mock_flash_new, s)
      | Some path \<Rightarrow>
          (case file_read F s path of
             (None, s1) \<Rightarrow> (mock_flash_new, s1)
           | (Some data, s1) \<Rightarrow> (snd (mock_restore mock_flash_new data), s1)))"

definition sim_boot :: "'r externs \<Rightarrow> 's file_ops \<Rightarrow> sim_args \<Rightarrow> 's \<Rightarrow> 'r sim_hsm \<times> 's" where
  "sim_boot X F a s =
     (let (flash, s1) = sim_flash F (sa_state_file a) s
      in (boot (sim_platform X) (mock_entropy_new (sa_seed a)) mock_clock_new flash, s1))"

definition set_time_line :: "i64 \<Rightarrow> bytes" where
  "set_time_line t = as_bytes (''{\"hsm\":{\"setTime\":{\"unixSeconds\":'' @ show_i64 t @ ''}}}'')"

definition sim_fixed_time ::
    "'r sim_plat \<Rightarrow> (bytes \<Rightarrow> string + request) \<Rightarrow> (response \<Rightarrow> bytes option) \<Rightarrow> i64 option \<Rightarrow> 'r sim_hsm
      \<Rightarrow> 'r sim_hsm option" where
  "sim_fixed_time P from_slice to_vec fixed_time h =
     (case fixed_time of
        None \<Rightarrow> Some h
      | Some t \<Rightarrow> map_option snd (process_line P from_slice to_vec (set_time_line t) h))"

definition sim_save :: "'s file_ops \<Rightarrow> string option \<Rightarrow> mock_flash \<Rightarrow> 's \<Rightarrow> bool \<times> 's" where
  "sim_save F state_file flash s =
     (case state_file of None \<Rightarrow> (True, s) | Some path \<Rightarrow> file_write F s path (mock_snapshot flash))"

text \<open>The exit code, what is printed to standard error, and the files and output left behind; a panic is
  \<^const>\<open>None\<close>, and then the state file is not written.\<close>

definition sim_main ::
    "'r externs \<Rightarrow> (bytes \<Rightarrow> string + request) \<Rightarrow> (response \<Rightarrow> bytes option) \<Rightarrow> 's file_ops \<Rightarrow> 'o out_ops
      \<Rightarrow> string list \<Rightarrow> bool \<Rightarrow> bytes \<Rightarrow> 's \<Rightarrow> 'o \<Rightarrow> (nat \<times> string \<times> 's \<times> 'o) option" where
  "sim_main X from_slice to_vec F W argv io_ok input s out =
     (case parse_args argv of
        Inl e \<Rightarrow> Some (2, ''hsm-sim: '' @ e @ [CHR 0x0A], s, out)
      | Inr a \<Rightarrow>
          let P = sim_platform X; (h0, s1) = sim_boot X F a s in
          case sim_fixed_time P from_slice to_vec (sa_fixed_time a) h0 of
            None \<Rightarrow> None
          | Some h1 \<Rightarrow>
              (case sim_loop P from_slice to_vec W (stdin_lines io_ok [] input) h1 out of
                 None \<Rightarrow> None
               | Some (h2, out1) \<Rightarrow>
                   let (_, s2) = sim_save F (sa_state_file a) (h_flash h2) s1
                   in Some (0, [], s2, out1)))"

section \<open>The file system\<close>

text \<open>What \<^verbatim>\<open>std::fs\<close> promises: a file written whole reads back.\<close>

locale file_store =
  fixes F :: "'s file_ops"
  assumes write_read: "file_write F s path data = (True, s') \<Longrightarrow> fst (file_read F s' path) = Some data"
begin

lemma sim_flash_saved:
  assumes "sim_save F (Some path) flash s = (True, s')" and "mock_healthy flash"
    and "device_secret flash = Inr MOCK_DEVICE_SECRET" and "length (unique_id flash) = 8"
  shows "fst (sim_flash F (Some path) s') = flash"
proof -
  have "fst (file_read F s' path) = Some (mock_snapshot flash)" using assms(1) write_read by (simp add: sim_save_def)
  moreover have "mock_restore mock_flash_new (mock_snapshot flash) = (True, flash)"
    using snapshot_restore [OF assms(4), of mock_flash_new] assms(2,3) by (simp add: mock_flash_new_def mock_healthy_def)
  ultimately show ?thesis by (auto simp: sim_flash_def split: prod.split)
qed

end

definition map_files :: "(string \<rightharpoonup> bytes) file_ops" where
  "map_files = \<lparr> file_read = (\<lambda>s p. (s p, s)), file_write = (\<lambda>s p d. (True, s(p \<mapsto> d))) \<rparr>"

interpretation map_files: file_store map_files
  by unfold_locales (auto simp: map_files_def)

section \<open>Every line is answered\<close>

definition buffer_out :: "bytes out_ops" where
  "buffer_out = \<lparr> write_all = (\<lambda>out bs. (True, out @ bs)), flush = (\<lambda>out. (True, out)) \<rparr>"

lemma write_line_buffer: "write_line buffer_out out resp = (True, out @ resp @ [0x0A])"
  by (simp add: write_line_def buffer_out_def)

definition text_line :: "bytes \<Rightarrow> bool" where
  "text_line l \<longleftrightarrow> 0x0A \<notin> set l \<and> utf8_valid (strip_trailing_cr l) \<and> trim (str_of (strip_trailing_cr l)) \<noteq> [] \<and> length l \<le> MAX_LINE"

lemma stdin_lines_line:
  "0x0A \<notin> set l \<Longrightarrow> stdin_lines io_ok acc (l @ 0x0A # bs) = utf8_line (strip_trailing_cr (acc @ l)) # stdin_lines io_ok [] bs"
  by (induction l arbitrary: acc) auto

lemma sim_loop_lines:
  "list_all text_line ls \<Longrightarrow> serve_events P from_slice to_vec (map line_event ls) h = Some (rs, h') \<Longrightarrow>
    sim_loop P from_slice to_vec buffer_out (stdin_lines True [] (framed ls)) h out = Some (h', out @ framed rs)"
proof (induction ls arbitrary: h rs out)
  case (Cons l ls)
  then have l: "text_line l" "line_event l = Line (strip_trailing_cr l)" by (simp_all add: text_line_def line_event_def)
  obtain resp h1 r2 where s: "process_line P from_slice to_vec (strip_trailing_cr l) h = Some (resp, h1)"
    "serve_events P from_slice to_vec (map line_event ls) h1 = Some (r2, h')" "rs = resp # r2"
    using Cons.prems(2) l(2) by (auto split: option.splits if_splits)
  then show ?case
    using Cons.IH [of h1 r2] Cons.prems(1) l(1) by (simp add: text_line_def stdin_lines_line utf8_line_def write_line_buffer)
qed simp

text \<open>The simulator answers like a device session. Fed lines of UTF-8 text that are neither blank nor
  overlong, the simulator writes, line by line, the responses a device session gives to the same
  lines, and ends in the same state.\<close>

lemma simulator_answers_every_line:
  assumes "list_all text_line ls" and "serve_events P from_slice to_vec (map line_event ls) h = Some (rs, h')"
  shows "sim_loop P from_slice to_vec buffer_out (stdin_lines True [] (concat (map (\<lambda>l. l @ [0x0A]) ls))) h out
    = Some (h', out @ concat (map (\<lambda>r. r @ [0x0A]) rs))"
  using sim_loop_lines [OF assms, of out] by (simp add: framed_def)

text \<open>Where it differs: blank lines are skipped without an answer, and a line that is not UTF-8 ends the run.\<close>

lemma simulator_skips_blank:
  "sim_loop P from_slice to_vec W (Some [] # ls) h out = sim_loop P from_slice to_vec W ls h out
   \<and> sim_loop P from_slice to_vec W (utf8_line [0xFF] # ls) h out = Some (h, out)
   \<and> process_line P from_slice to_vec [] h \<noteq> None \<and> process_line P from_slice to_vec [0xFF] h \<noteq> None"
proof -
  have "trim (str_of []) = []" by code_simp
  then show ?thesis by (simp add: utf8_line_def process_line_def handle_line_def json_ws_def)
qed

section \<open>The state file\<close>

text \<open>C25: the simulator resumes from its state file. When a run leaves a production device that a PIN opens
  and its flash image is saved, the next run that names the same file boots locked on the same stored
  bytes, and the same PIN unlocks the same key.\<close>

theorem simulator_resumes:
  assumes "file_store F" and "sim_save F (Some path) (h_flash h) s = (True, s')"
    and "keyed (sim_platform X) mock_content mock_healthy h pin seed"
    and "device_secret (h_flash h) = Inr MOCK_DEVICE_SECRET" and "length (unique_id (h_flash h)) = 8"
    and "sa_state_file a = Some path"
  shows "\<exists>h1 s1 h2. sim_boot X F a s' = (h1, s1) \<and> h_state h1 = ProdLocked
    \<and> hsm_unlock (sim_platform X) \<lparr> ur_pin = pin \<rparr> h1 = Some (unlock_ok, h2) \<and> h_ca h2 = Some (ca_from_seed seed)"
proof -
  let ?P = "sim_platform X" and ?e = "mock_entropy_new (sa_seed a)"
  have rel: "hsm_reliable ?P mock_content mock_healthy" by (simp add: hsm_reliable_def sim_platform_def mock.reliable_flash_axioms)
  have "mock_healthy (h_flash h)" using assms(3) by (simp add: keyed_def)
  from file_store.sim_flash_saved [OF assms(1,2) this assms(4,5)]
  obtain s1 where "sim_boot X F a s' = (boot ?P ?e mock_clock_new (h_flash h), s1)"
    by (cases "sim_flash F (Some path) s'") (simp add: sim_boot_def assms(6))
  moreover note k = hsm_reliable.keyed_boot [OF rel assms(3), of ?e mock_clock_new]
  ultimately show ?thesis using hsm_reliable.keyed_unlock [OF rel k] by blast
qed

theorem simulator_resumes_witness:
  "\<exists>(h :: nat sim_hsm) h1 s1 h2. h_state h = ProdLocked
     \<and> sim_boot sample_externs map_files \<lparr> sa_seed = 1, sa_fixed_time = None, sa_state_file = Some ''state'' \<rparr>
         [''state'' \<mapsto> mock_snapshot (h_flash h)] = (h1, s1)
     \<and> hsm_unlock (sim_platform sample_externs) \<lparr> ur_pin = ''123456'' \<rparr> h1 = Some (unlock_ok, h2)"
proof -
  let ?P = "sim_platform sample_externs :: nat sim_plat"
  obtain h0 where k0: "keyed sample_platform mock_content mock_healthy h0 ''123456'' (replicate 32 7)"
    and d0: "device_secret (h_flash h0) = Inr MOCK_DEVICE_SECRET"
    using sample_prod by metis
  have rel: "reliable_flash (pf ?P) mock_content mock_healthy" by (simp add: sim_platform_def mock.reliable_flash_axioms)
  let ?b = "boot ?P (mock_entropy_new 1) mock_clock_new (h_flash h0)"
  have b: "keyed ?P mock_content mock_healthy ?b ''123456'' (replicate 32 7)" "h_state ?b = ProdLocked"
    "fs_device_secret (pf ?P) (h_flash ?b) = fs_device_secret (pf ?P) (h_flash h0)"
    by (rule keyed_transfer [OF k0 rel]; use k0 in \<open>simp add: sim_platform_def keyed_def\<close>)+
  define h where "h = ?b\<lparr>h_flash := (h_flash ?b)\<lparr>unique_id := replicate 8 0x42\<rparr>\<rparr>"
  have c: "mock_content (g\<lparr>unique_id := u\<rparr>) = mock_content g" "mock_healthy (g\<lparr>unique_id := u\<rparr>) = mock_healthy g" for g u
  proof -
    have "mock_region (g\<lparr>unique_id := u\<rparr>) r = mock_region g r" for r by (cases r) simp_all
    then show "mock_content (g\<lparr>unique_id := u\<rparr>) = mock_content g" by (simp add: mock_content_def fun_eq_iff)
  qed (simp add: mock_healthy_def)
  have k: "keyed ?P mock_content mock_healthy h ''123456'' (replicate 32 7)"
    using b(1) by (simp add: keyed_def h_def c) (simp add: sim_platform_def)
  have d: "device_secret (h_flash h) = Inr MOCK_DEVICE_SECRET" "length (unique_id (h_flash h)) = 8"
    using b(3) d0 by (simp_all add: h_def sim_platform_def)
  have s: "sim_save map_files (Some ''state'') (h_flash h) Map.empty = (True, [''state'' \<mapsto> mock_snapshot (h_flash h)])"
    by (simp add: sim_save_def map_files_def)
  let ?a = "\<lparr> sa_seed = 1, sa_fixed_time = None, sa_state_file = Some ''state'' \<rparr>"
  have a: "sa_state_file ?a = Some ''state''" by simp
  have "h_state h = ProdLocked" using b(2) by (simp add: h_def)
  with simulator_resumes [OF map_files.file_store_axioms s k d a] show ?thesis by metis
qed

end
