(* ===== verification/KeyGen.thy ===== *)
theory KeyGen
  imports TimeFloor
begin

text \<open>
  Key generation (\<^verbatim>\<open>hsm.generateKey\<close>) on an unlocked production device and on a development device, and the
  wiping of the key at lockout: what the next boot finds.
\<close>

section \<open>The generated key is the stored one\<close>

lemma key_blob_from_bytes_ok: "key_blob_from_bytes b = Some blob \<Longrightarrow> key_blob_ok blob"
  by (auto simp: key_blob_from_bytes_def key_blob_ok_def split: if_splits option.splits)

lemma stored_blob_ok: "stored_blob P c = Some blob \<Longrightarrow> key_blob_ok blob"
  by (auto simp: stored_blob_def bind_eq_Some_conv dest: key_blob_from_bytes_ok)

definition generated :: "('e, 'm, 'f, 'r) platform \<Rightarrow> bytes \<Rightarrow> hsm_response" where
  "generated P seed = hsm_with (\<lambda>r. r\<lparr>hr_generate_key := Some \<lparr> gk_ok = True,
     gk_public_key = authorized_line (px P) (ca_from_seed seed) CA_COMMENT \<rparr>\<rparr>)"

context hsm_flash
begin

lemma verify_pin_secret:
  assumes "verify_pin P pin h = Some (Inr x, h')"
  shows "fs_device_secret (pf P) (h_flash h') = fs_device_secret (pf P) (h_flash h)"
proof -
  obtain cfg k f1 n f2 where v: "pin_count (pf P) (h_flash h) = (Inr k, f1)"
    "pin_tick (pf P) f1 = (Inr n, f2)" "check_pin P cfg n pin (h\<lparr>h_flash := f2\<rparr>) = (Inr x, h')"
    using assms by (auto simp: verify_pin_def Let_def split: prod.splits sum.splits option.splits if_splits)
  obtain res f3 where r: "read_latest (pf P) (crc_of P) KEY f2 = (res, f3)" by fastforce
  have "h' = reset_pin_counter_best_effort P (h\<lparr>h_flash := f3\<rparr>)"
    using v(3) by (auto simp: check_pin_def r Let_def split: sum.splits option.splits prod.splits)
  then show ?thesis
    using reset_pin_counter_flash(2) [of "h\<lparr>h_flash := f3\<rparr>"] read_latest_spec(2) [OF r] pin_tick_frame(2) [OF v(2)]
      pin_count_spec(2) [OF v(1)] by simp
qed

end

context hsm_reliable
begin

lemma generate_key_with_ok:
  assumes "generate_key_with P wt kek h = (resp, h')" and "fst (prepare_keygen_entropy P h) = Inr ()" and "healthy (h_flash h)" and "lengths_ok (px P)"
    and "ab_max_seq (crc_of P) KEY (flash_of h) \<noteq> - 1" and "wt = PinKek \<Longrightarrow> \<exists>s. h_wrap_salt h = Some s \<and> length s = 16"
  obtains seed slt nonce h5 where "length seed = 32" "resp = generated P seed" "wt = PinKek \<Longrightarrow> h_wrap_salt h = Some slt"
    "stored_blob P (flash_of h') = Some (wrap_seed (px P) kek seed (public_bytes (px P) (ca_from_seed seed)) wt slt nonce)"
    "healthy (h_flash h')" "\<And>r. r \<notin> {KeyA, KeyB} \<Longrightarrow> flash_of h' r = flash_of h r"
    "fs_device_secret (pf P) (h_flash h') = fs_device_secret (pf P) (h_flash h)"
    "same_session h h5" "h' = h5\<lparr>h_ca := Some (ca_from_seed seed), h_ca_pubkey := Some (public_bytes (px P) (ca_from_seed seed))\<rparr>"
proof -
  obtain h1 where 1: "prepare_keygen_entropy P h = (Inr (), h1)" using assms(2) by (metis prod.collapse)
  obtain seed ca h2 where 2: "hsm_generate P h1 = ((seed, ca), h2)" by (metis prod.exhaust)
  obtain nonce h3 where 3: "hsm_random P 12 h2 = (nonce, h3)" by fastforce
  obtain slt0 h40 where 4: "hsm_random P 16 h3 = (slt0, h40)" by fastforce
  define slt where "slt = (case wt of DevKek \<Rightarrow> slt0 | PinKek \<Rightarrow> the (h_wrap_salt h))"
  define h4 where "h4 = (case wt of DevKek \<Rightarrow> h40 | PinKek \<Rightarrow> h3)"
  have "flash_same h h1" "flash_same h1 h2" "flash_same h2 h3" "flash_same h3 h40" using 1 2 3 4 flash_same_ops by blast+
  then have s: "flash_same h h1" "flash_same h h4" unfolding h4_def by (cases wt; auto intro: flash_same_trans)+
  have ws: "h_wrap_salt h1 = h_wrap_salt h" using s(1) by (simp add: flash_same_def same_session_def)
  note g = hsm_generate_ok [OF 2 assms(4)]
  let ?pk = "public_bytes (px P) ca"
  let ?blob = "wrap_seed (px P) kek seed ?pk wt slt nonce"
  have len: "length slt = 16" using assms(6) hsm_random_length [OF assms(4) 4] by (cases wt) (auto simp: slt_def)
  have kb: "key_blob_ok ?blob" using wrap_seed_ok [OF assms(4) g(2,3) len hsm_random_length [OF assms(4) 3]] .
  have h4: "healthy (h_flash h4)" "ab_max_seq (crc_of P) KEY (flash_of h4) \<noteq> - 1"
    using s(2) assms(3,5) by (simp_all add: flash_same_def)
  obtain h5 where 5: "store P KEY (key_blob_to_bytes ?blob) h4 = (Inr (), h5)" "healthy (h_flash h5)" "same_session h4 h5"
    "stored_blob P (flash_of h5) = Some ?blob" "\<And>r. r \<notin> {KeyA, KeyB} \<Longrightarrow> flash_of h5 r = flash_of h4 r"
    "fs_device_secret (pf P) (h_flash h5) = fs_device_secret (pf P) (h_flash h4)"
    by (rule store_key [OF h4(1) kb h4(2)]) blast
  have "resp = generated P seed \<and> h' = h5\<lparr>h_ca := Some ca, h_ca_pubkey := Some ?pk\<rparr>"
    using assms(1,6) 5(1) ws g(1) by (cases wt) (auto simp: generate_key_with_def 1 2 3 4 slt_def h4_def generated_def Let_def)
  then show thesis
    using s(2) 5 g(1,2) by (intro that [of seed slt nonce h5])
      (use assms(6) in \<open>auto simp: slt_def flash_same_def intro: same_session_trans\<close>)
qed

section \<open>A production device\<close>

text \<open>After an unlock the session holds the key-encryption key of the PIN and its salt.\<close>

lemma unlock_session:
  assumes "keyed P content healthy h pin seed" and "h_state h = ProdLocked" and "hsm_unlock P \<lparr> ur_pin = pin \<rparr> h = Some (unlock_ok, h1)"
  obtains cfg secret kek slt where "keyed P content healthy h1 pin seed" "h_state h1 = ProdReady" "h_config h1 = Some cfg" "mode cfg = Prod"
    "fs_device_secret (pf P) (h_flash h1) = Inr secret" "h_wrap_kek h1 = Some kek" "h_wrap_salt h1 = Some slt" "length slt = 16"
    "pin_kek (px P) (as_bytes pin) slt (argon2 cfg) secret = Inr kek" "\<And>r. r \<noteq> PinCounter \<Longrightarrow> flash_of h1 r = flash_of h r"
proof -
  obtain kek slt h2 where v: "verify_pin P pin h = Some (Inr (seed, kek, slt), h2)" "same_session h h2"
    "keyed P content healthy h2 pin seed" "\<And>r. r \<noteq> PinCounter \<Longrightarrow> flash_of h2 r = flash_of h r"
    using keyed_verify_pin [OF assms(1)] by metis
  have h1: "h1 = h2\<lparr>h_ca := Some (ca_from_seed seed), h_wrap_kek := Some kek, h_wrap_salt := Some slt, h_state := ProdReady\<rparr>"
    using assms(2,3) v(1) by (simp add: hsm_unlock_def)
  obtain cfg blob secret where b: "h_config h = Some cfg" "stored_blob P (flash_of h) = Some blob" "slt = salt blob"
    "fs_device_secret (pf P) (h_flash h) = Inr secret" "opens P cfg secret pin blob kek seed"
    using verify_pin_Inr [OF v(1)] .
  obtain secret' where s: "fs_device_secret (pf P) (h_flash h2) = Inr secret'" "mode cfg = Prod"
    using v(3) b(1) assms(1) by (auto simp: keyed_def)
  have "secret' = secret" using s(1) b(4) verify_pin_secret [OF v(1)] by simp
  then show thesis
    using that [of cfg secret kek slt] v(2,3) b stored_blob_ok [OF b(2)] s v(4)
    by (auto simp: h1 keyed_def same_session_def opens_def key_blob_ok_def)
qed

lemma keyed_generate:
  assumes "keyed P content healthy h pin seed" and "h_state h = ProdLocked" and "hsm_unlock P \<lparr> ur_pin = pin \<rparr> h = Some (unlock_ok, h1)"
    and "gr_force req" and "fst (prepare_keygen_entropy P h1) = Inr ()" and "lengths_ok (px P)" and "aead_correct (px P)"
    and "ab_max_seq (crc_of P) KEY (flash_of h) \<noteq> - 1"
  obtains seed' h2 where "hsm_generate_key P req h1 = (generated P seed', h2)" "h_ca h2 = Some (ca_from_seed seed')"
    "keyed P content healthy h2 pin seed'"
proof -
  obtain cfg secret kek slt where u: "keyed P content healthy h1 pin seed" "h_state h1 = ProdReady" "h_config h1 = Some cfg" "mode cfg = Prod"
    "fs_device_secret (pf P) (h_flash h1) = Inr secret" "h_wrap_kek h1 = Some kek" "h_wrap_salt h1 = Some slt" "length slt = 16"
    "pin_kek (px P) (as_bytes pin) slt (argon2 cfg) secret = Inr kek" "\<And>r. r \<noteq> PinCounter \<Longrightarrow> flash_of h1 r = flash_of h r"
    by (rule unlock_session [OF assms(1-3)]) blast
  obtain resp h2 where g: "generate_key_with P PinKek kek h1 = (resp, h2)" by fastforce
  then have req: "hsm_generate_key P req h1 = (resp, h2)" using assms(4) u(2-4,6) by (simp add: hsm_generate_key_def)
  have "healthy (h_flash h1)" "ab_max_seq (crc_of P) KEY (flash_of h1) \<noteq> - 1"
    using u(1,10) assms(8) by (simp_all add: keyed_def KEY_def ab_defs)
  note ok = generate_key_with_ok [OF g assms(5) this(1) assms(6) this(2)]
  obtain seed' slt' nonce h5 where r: "length seed' = 32" "resp = generated P seed'"
    "stored_blob P (flash_of h2) = Some (wrap_seed (px P) kek seed' (public_bytes (px P) (ca_from_seed seed')) PinKek slt' nonce)"
    "healthy (h_flash h2)" "\<And>r. r \<notin> {KeyA, KeyB} \<Longrightarrow> flash_of h2 r = flash_of h1 r"
    "fs_device_secret (pf P) (h_flash h2) = fs_device_secret (pf P) (h_flash h1)" "same_session h1 h5"
    "h2 = h5\<lparr>h_ca := Some (ca_from_seed seed'), h_ca_pubkey := Some (public_bytes (px P) (ca_from_seed seed'))\<rparr>"
    "h_wrap_salt h1 = Some slt'"
    by (rule ok) (use u(7,8) in auto)
  have slt: "slt' = slt" using r(9) u(7) by simp
  have "stored_config P (flash_of h2) = stored_config P (flash_of h1)" by (rule stored_config_cong) (use r(5) in auto)
  moreover have "used (h_flash h2) = used (h_flash h1)" using r(5) [of PinCounter] by simp
  moreover note opens_wrapped [OF assms(7) u(9), of seed' "public_bytes (px P) (ca_from_seed seed')" PinKek nonce]
  moreover have "h_config h2 = Some cfg" using r(7) u(3) by (simp add: r(8) same_session_def)
  ultimately have "keyed P content healthy h2 pin seed'"
    using u(1,3,5) r(1,3,4,6) slt by (auto simp: keyed_def) (simp add: r(8))
  then show thesis using that req r(2,8) by simp
qed

end

text \<open>C14: a generated key survives. On an unlocked production device with working flash and entropy a forced
  \<^verbatim>\<open>generateKey\<close> answers with the public key of a new seed and the session signs with it at once;
  after a power cycle the PIN that was in force before unlocks exactly this key. Without
  \<^verbatim>\<open>force\<close> the existing key is protected: the request is refused and nothing changes.\<close>

theorem generated_key_survives:
  assumes "reliable_flash (pf P) content healthy" and "lengths_ok (px P)" and "aead_correct (px P)"
    and "keyed P content healthy h pin seed" and "h_state h = ProdLocked" and "ab_max_seq (crc_of P) KEY (content (h_flash h)) \<noteq> - 1"
    and "hsm_unlock P \<lparr> ur_pin = pin \<rparr> h = Some (unlock_ok, h1)" and "fst (prepare_keygen_entropy P h1) = Inr ()"
  shows "if gr_force req
    then \<exists>seed' h2 h3. hsm_generate_key P req h1 = (generated P seed', h2) \<and> h_ca h2 = Some (ca_from_seed seed')
      \<and> hsm_unlock P \<lparr> ur_pin = pin \<rparr> (boot P e m (h_flash h2)) = Some (unlock_ok, h3) \<and> h_ca h3 = Some (ca_from_seed seed')
    else hsm_generate_key P req h1 = (hsm_err ''ERR_KEY_EXISTS'' ''key already exists; pass force=true'', h1)"
proof -
  have rel: "hsm_reliable P content healthy" using assms(1) by (simp add: hsm_reliable_def)
  show ?thesis
  proof (cases "gr_force req")
    case True
    obtain seed' h2 where g: "hsm_generate_key P req h1 = (generated P seed', h2)" "h_ca h2 = Some (ca_from_seed seed')"
      "keyed P content healthy h2 pin seed'"
      by (rule hsm_reliable.keyed_generate [OF rel assms(4,5,7) True assms(8,2,3,6)])
    note b = hsm_reliable.keyed_boot [OF rel g(3), of e m]
    from True g(1,2) hsm_reliable.keyed_unlock [OF rel b] show ?thesis by auto
  next
    case False
    have "keyed P content healthy h1 pin seed" "h_state h1 = ProdReady"
      by (rule hsm_reliable.unlock_session [OF rel assms(4,5,7)], assumption)+
    with False show ?thesis by (simp add: hsm_generate_key_def keyed_def)
  qed
qed

theorem generated_key_survives_witness:
  "\<exists>h1 seed' h2 h3. hsm_generate_key sample_platform \<lparr> gr_force = True \<rparr> h1 = (generated sample_platform seed', h2)
    \<and> hsm_unlock sample_platform \<lparr> ur_pin = ''123456'' \<rparr> (boot sample_platform 5 (mock_at 9) (h_flash h2)) = Some (unlock_ok, h3)
    \<and> h_ca h3 = Some (ca_from_seed seed')"
proof -
  let ?P = sample_platform
  obtain h where k: "keyed ?P mock_content mock_healthy h ''123456'' (replicate 32 7)" "h_state h = ProdLocked"
    "ab_max_seq (crc_of ?P) KEY (mock_content (h_flash h)) = 1"
    using sample_prod by metis
  obtain h1 where u: "hsm_unlock ?P \<lparr> ur_pin = ''123456'' \<rparr> h = Some (unlock_ok, h1)"
    using sample.keyed_unlock [OF k(1,2)] by blast
  have "reliable_flash (pf ?P) mock_content mock_healthy" "lengths_ok (px ?P)" "aead_correct (px ?P)"
    by (simp_all add: mock.reliable_flash_axioms)
  from generated_key_survives [OF this k(1,2) _ u sample_entropy, of "\<lparr> gr_force = True \<rparr>" 5 "mock_at 9"] k(3)
  show ?thesis by auto
qed

section \<open>A development device\<close>

context hsm_reliable
begin

lemma init_dev_ok:
  assumes "hsm_init P req h = (resp, h1)" and "\<not> is_err resp" and "ir_mode req = ''dev''" and "healthy (h_flash h)"
    and "ab_max_seq (crc_of P) CONFIG (flash_of h) \<noteq> - 1"
  obtains secret cfg where "fs_device_secret (pf P) (h_flash h1) = Inr secret" "h_wrap_kek h1 = Some (dev_kek (px P) secret)"
    "h_config h1 = Some cfg" "mode cfg = Dev" "stored_config P (flash_of h1) = Some cfg" "healthy (h_flash h1)" "h_state h1 = DevReady"
    "\<And>r. r \<notin> {ConfigA, ConfigB} \<Longrightarrow> flash_of h1 r = flash_of h r"
proof -
  let ?cfg = "\<lparr> mode = Dev, argon2 = DEFAULT_ARGON, max_retries = 0, wipe_on_lockout = False, fw_version = fw_version_triple \<rparr>"
  have i: "init_dev P h = (resp, h1)" using assms(1-3) by (auto simp: hsm_init_def err_defs split: if_splits)
  then obtain secret where secret: "fs_device_secret (pf P) (h_flash h) = Inr secret"
    using assms(2) by (auto simp: init_dev_def err_defs split: sum.splits)
  have ok: "device_config_ok ?cfg" by (simp add: device_config_ok_def fw_version_triple_def Let_def)
  obtain h2 where 2: "store P CONFIG (device_config_to_bytes ?cfg) h = (Inr (), h2)" "healthy (h_flash h2)"
    "stored_config P (flash_of h2) = Some ?cfg" "\<And>r. r \<notin> {ConfigA, ConfigB} \<Longrightarrow> flash_of h2 r = flash_of h r"
    "fs_device_secret (pf P) (h_flash h2) = fs_device_secret (pf P) (h_flash h)"
    by (rule store_config [OF assms(4) ok assms(5)]) blast
  have "h1 = h2\<lparr>h_config := Some ?cfg, h_state := DevReady, h_wrap_kek := Some (dev_kek (px P) secret)\<rparr>"
    using i by (simp add: init_dev_def secret 2(1) Let_def)
  then show thesis using that [of secret ?cfg] secret 2 by simp
qed

end

text \<open>C15: development mode. A device initialised in development mode whose key was then generated comes back
  from every power cycle ready to sign with that key, without a PIN.\<close>

theorem dev_key_survives:
  assumes "reliable_flash (pf P) content healthy" and "lengths_ok (px P)" and "aead_correct (px P)" and "healthy (h_flash h)"
    and "ab_max_seq (crc_of P) CONFIG (content (h_flash h)) \<noteq> - 1" and "ab_max_seq (crc_of P) KEY (content (h_flash h)) \<noteq> - 1"
    and "hsm_init P req h = (resp, h1)" and "\<not> is_err resp" and "ir_mode req = ''dev''"
    and "fst (prepare_keygen_entropy P h1) = Inr ()" and "gr_force greq \<or> h_ca_pubkey h1 = None"
  shows "\<exists>seed h2. hsm_generate_key P greq h1 = (generated P seed, h2) \<and> h_ca h2 = Some (ca_from_seed seed)
    \<and> h_state (boot P e m (h_flash h2)) = DevReady \<and> h_ca (boot P e m (h_flash h2)) = Some (ca_from_seed seed)
    \<and> h_ca_pubkey (boot P e m (h_flash h2)) = Some (public_bytes (px P) (ca_from_seed seed))"
proof -
  have rel: "hsm_reliable P content healthy" using assms(1) by (simp add: hsm_reliable_def)
  obtain secret cfg where i: "fs_device_secret (pf P) (h_flash h1) = Inr secret" "h_wrap_kek h1 = Some (dev_kek (px P) secret)"
    "h_config h1 = Some cfg" "mode cfg = Dev" "stored_config P (content (h_flash h1)) = Some cfg" "healthy (h_flash h1)"
    "h_state h1 = DevReady" "\<And>r. r \<notin> {ConfigA, ConfigB} \<Longrightarrow> content (h_flash h1) r = content (h_flash h) r"
    by (rule hsm_reliable.init_dev_ok [OF rel assms(7-9,4,5)]) blast
  let ?kek = "dev_kek (px P) secret"
  obtain gresp h2 where g: "generate_key_with P DevKek ?kek h1 = (gresp, h2)" by fastforce
  then have req: "hsm_generate_key P greq h1 = (gresp, h2)" using assms(11) i(2-4,7) by (auto simp: hsm_generate_key_def)
  have sq: "ab_max_seq (crc_of P) KEY (content (h_flash h1)) \<noteq> - 1" using i(8) assms(6) by (simp add: KEY_def ab_defs)
  note ok = hsm_reliable.generate_key_with_ok [OF rel g assms(10) i(6) assms(2) sq]
  obtain seed slt nonce h5 where r: "gresp = generated P seed"
    "stored_blob P (content (h_flash h2)) = Some (wrap_seed (px P) ?kek seed (public_bytes (px P) (ca_from_seed seed)) DevKek slt nonce)"
    "healthy (h_flash h2)" "\<And>r. r \<notin> {KeyA, KeyB} \<Longrightarrow> content (h_flash h2) r = content (h_flash h1) r"
    "fs_device_secret (pf P) (h_flash h2) = fs_device_secret (pf P) (h_flash h1)" "h_ca h2 = Some (ca_from_seed seed)"
    by (rule ok) auto
  have "stored_config P (content (h_flash h2)) = stored_config P (content (h_flash h1))"
    by (rule hsm_reliable.stored_config_cong [OF rel]) (use r(4) in auto)
  then have "stored_config P (content (h_flash h2)) = Some cfg" using i(5) by simp
  moreover have "fs_device_secret (pf P) (h_flash h2) = Inr secret" using r(5) i(1) by simp
  ultimately have b: "h_state (boot P e m (h_flash h2)) = DevReady" "h_ca (boot P e m (h_flash h2)) = Some (ca_from_seed seed)"
    "h_ca_pubkey (boot P e m (h_flash h2)) = Some (public_bytes (px P) (ca_from_seed seed))"
    using hsm_reliable.boot_dev_reliable [OF rel r(3) _ i(4) r(2)] unwrap_wrap [OF assms(3)] by simp_all
  show ?thesis using req r(1,6) b by blast
qed

theorem dev_key_survives_witness:
  "\<exists>h1 seed h2. hsm_generate_key sample_platform \<lparr> gr_force = False \<rparr> h1 = (generated sample_platform seed, h2)
    \<and> h_state (boot sample_platform 5 (mock_at 9) (h_flash h2)) = DevReady
    \<and> h_ca (boot sample_platform 5 (mock_at 9) (h_flash h2)) = Some (ca_from_seed seed)"
proof -
  let ?P = sample_platform and ?q = "\<lparr> ir_mode = ''dev'', ir_pin = None, ir_max_retries = None, ir_wipe_on_lockout = None \<rparr>"
  let ?cfg = "\<lparr> mode = Dev, argon2 = DEFAULT_ARGON, max_retries = 0, wipe_on_lockout = False, fw_version = fw_version_triple \<rparr>"
  have a: "reliable_flash (pf ?P) mock_content mock_healthy" "lengths_ok (px ?P)" "aead_correct (px ?P)" "mock_healthy (h_flash sample_boot)"
    "ab_max_seq (crc_of ?P) CONFIG (mock_content (h_flash sample_boot)) \<noteq> - 1"
    "ab_max_seq (crc_of ?P) KEY (mock_content (h_flash sample_boot)) \<noteq> - 1"
    by (simp_all add: mock.reliable_flash_axioms)
  have ok: "device_config_ok ?cfg" by (simp add: device_config_ok_def fw_version_triple_def Let_def)
  obtain h2 where 2: "store ?P CONFIG (device_config_to_bytes ?cfg) sample_boot = (Inr (), h2)" "same_session sample_boot h2"
    by (rule sample.store_config [OF a(4) ok a(5)]) blast
  have "h_ca_pubkey sample_boot = None"
    using sample.boot_blank_reliable(8) [of mock_flash_new 0 "mock_at 0"] by (simp add: sample_boot_def stored_config_def stored_blob_def)
  then obtain resp h1 where i: "hsm_init ?P ?q sample_boot = (resp, h1)" "\<not> is_err resp" "h_ca_pubkey h1 = None"
    using 2 by (simp add: hsm_init_def init_dev_def Let_def err_defs same_session_def)
  from dev_key_survives [OF a i(1,2) _ sample_entropy, of "\<lparr> gr_force = False \<rparr>" 5 "mock_at 9"] i(3) show ?thesis by auto
qed

section \<open>Lockout\<close>

context hsm_reliable
begin

lemma reject_pin_last:
  assumes "reject_pin P cfg n h = (resp, h')" and "unat (max_retries cfg) \<le> n" and "n \<le> SECTOR_LEN" and "healthy (h_flash h)"
  shows "h_state h' = LockedOut" "h_ca h' = None" "h_wrap_kek h' = None" "h_wrap_salt h' = None" "h_config h' = h_config h"
    "h_ca_pubkey h' = (if wipe_on_lockout cfg then None else h_ca_pubkey h)"
    "stored_blob P (flash_of h') = (if wipe_on_lockout cfg then None else stored_blob P (flash_of h))"
    "map_option he_code (hr_error resp) = Some ''ERR_LOCKED_OUT''" "map_option he_remaining_attempts (hr_error resp) = Some (Some 0)"
proof -
  obtain f where f: "erase_key_loop (pf P) (crc_of P) 2 (h_flash h) = (True, f)" by (rule erase_key_succeeds [OF assms(4)])
  have "ab_latest (crc_of P) KEY (content f) = None" using erase_key_loop_frame(3) [OF f] by simp
  then have b: "stored_blob P (content f) = None" by (simp add: stored_blob_def)
  have "(ucast (max_retries cfg) :: u32) \<le> of_nat n"
    using assms(2,3) unat_of_nat_u32 [of n] by (simp add: word_le_nat_alt SECTOR_LEN_def unat_ucast_u8_u32)
  then show "h_state h' = LockedOut" "h_ca h' = None" "h_wrap_kek h' = None" "h_wrap_salt h' = None" "h_config h' = h_config h"
    "h_ca_pubkey h' = (if wipe_on_lockout cfg then None else h_ca_pubkey h)"
    "stored_blob P (flash_of h') = (if wipe_on_lockout cfg then None else stored_blob P (flash_of h))"
    "map_option he_code (hr_error resp) = Some ''ERR_LOCKED_OUT''" "map_option he_remaining_attempts (hr_error resp) = Some (Some 0)"
    using assms(1) b
    by (auto simp: reject_pin_def erase_key_verified_def enter_locked_out_def drop_live_secrets_def f pin_error_def Let_def
        split: if_splits)
qed

lemma verify_pin_last:
  assumes "verify_pin P pin h = Some (Inl resp, h')" and "rejected_pin resp" and "healthy (h_flash h)" and "h_config h = Some cfg"
    and "unat (max_retries cfg) \<le> Suc (used (h_flash h))"
  obtains n h0 where "reject_pin P cfg n h0 = (resp, h')" "unat (max_retries cfg) \<le> n" "n \<le> SECTOR_LEN" "healthy (h_flash h0)"
    "same_session h h0" "stored_blob P (flash_of h0) = stored_blob P (flash_of h)"
proof -
  obtain k f1 n f2 where v: "pin_count (pf P) (h_flash h) = (Inr k, f1)" "pin_tick (pf P) f1 = (Inr n, f2)"
    "check_pin P cfg n pin (h\<lparr>h_flash := f2\<rparr>) = (Inl resp, h')"
    by (rule verify_pin_rejected [OF assms(1,2)]) (use assms(4) in auto)
  obtain b f3 where c: "read_latest (pf P) (crc_of P) KEY f2 = (Inr (Some b), f3)" "reject_pin P cfg n (h\<lparr>h_flash := f3\<rparr>) = (resp, h')"
    by (rule check_pin_rejected [OF v(3) assms(2)]) auto
  have f3: "healthy f3" using assms(3) v(1,2) c(1) healthy_ops by blast
  have "used f1 \<le> SECTOR_LEN" using count_used_le [of "content f1 PinCounter"] by (simp add: content_length)
  then have n: "n = (if used (h_flash h) < SECTOR_LEN then Suc (used (h_flash h)) else SECTOR_LEN)"
    using pin_tick_ok(1,2) [OF v(2)] pin_count_spec(1) [OF v(1)] by auto
  have "unat (max_retries cfg) < 2 ^ 8" using unat_u8_less [of "max_retries cfg"] by simp
  then have "unat (max_retries cfg) \<le> n" "n \<le> SECTOR_LEN" using n assms(5) by (auto simp: SECTOR_LEN_def)
  moreover have "stored_blob P (content f3) = stored_blob P (flash_of h)"
    using read_latest_spec(1) [OF c(1)] stored_blob_tick [OF v(1,2)] by simp
  ultimately show thesis using that [OF c(2)] f3 by simp
qed

lemma no_blob_no_unlock:
  assumes "stored_blob P (flash_of h) = None" and "h_state h \<noteq> ProdReady" and "hsm_unlock P r h = Some (resp, h')"
  shows "h_state h' \<noteq> ProdReady"
  using assms verify_pin_Inr by (metis hsm_unlock_verified option.distinct(1))

end

text \<open>C9: the last attempt. On a production device with working flash the rejected unlock that uses up
  \<^verbatim>\<open>max_retries\<close> is answered \<^verbatim>\<open>ERR_LOCKED_OUT\<close> with no attempt left, and the device is locked out with no
  secret in RAM. With \<^verbatim>\<open>wipe_on_lockout\<close> no readable key record is left in flash and no PIN unlocks
  the device after a power cycle; without it the key record is kept and the device comes back
  locked out.\<close>

theorem lockout_at_last_attempt:
  assumes "reliable_flash (pf P) content healthy" and "healthy (h_flash h)" and "h_state h = ProdLocked"
    and "h_config h = Some cfg" and "stored_config P (content (h_flash h)) = Some cfg" and "mode cfg = Prod"
    and "hsm_unlock P req h = Some (resp, h')" and "rejected_pin resp"
    and "unat (max_retries cfg) \<le> Suc (count_used (content (h_flash h) PinCounter))"
  shows "map_option he_code (hr_error resp) = Some ''ERR_LOCKED_OUT'' \<and> map_option he_remaining_attempts (hr_error resp) = Some (Some 0)
    \<and> h_state h' = LockedOut \<and> h_ca h' = None \<and> h_wrap_kek h' = None \<and> h_wrap_salt h' = None
    \<and> (if wipe_on_lockout cfg
       then stored_blob P (content (h_flash h')) = None \<and> h_ca_pubkey h' = None
         \<and> (\<forall>e m r resp2 h2. hsm_unlock P r (boot P e m (h_flash h')) = Some (resp2, h2) \<longrightarrow> h_state h2 \<noteq> ProdReady)
       else stored_blob P (content (h_flash h')) = stored_blob P (content (h_flash h))
         \<and> (\<forall>e m. h_state (boot P e m (h_flash h')) = LockedOut))"
proof -
  have rel: "hsm_reliable P content healthy" using assms(1) by (simp add: hsm_reliable_def)
  then have fl: "hsm_flash P content" by (simp add: hsm_flash_def hsm_reliable_def reliable_flash_def)
  have v: "verify_pin P (ur_pin req) h = Some (Inl resp, h')"
    using assms(3,7,8) by (auto simp: hsm_unlock_def split: option.splits prod.splits sum.splits)
  obtain n h0 where r: "reject_pin P cfg n h0 = (resp, h')" "unat (max_retries cfg) \<le> n" "n \<le> SECTOR_LEN" "healthy (h_flash h0)"
    "same_session h h0" "stored_blob P (content (h_flash h0)) = stored_blob P (content (h_flash h))"
    by (rule hsm_reliable.verify_pin_last [OF rel v assms(8,2,4,9)])
  note l = hsm_reliable.reject_pin_last [OF rel r(1-4)]
  obtain k where k: "k = (if count_used (content (h_flash h) PinCounter) < SECTOR_LEN
      then Suc (count_used (content (h_flash h) PinCounter)) else SECTOR_LEN)"
    and c: "k \<le> count_used (content (h_flash h') PinCounter)" "stored_blob P (content (h_flash h)) \<noteq> None"
      "\<And>r. r \<notin> {KeyA, KeyB, PinCounter} \<Longrightarrow> content (h_flash h') r = content (h_flash h) r"
    by (rule hsm_flash.verify_pin_charged [OF fl v assms(8)]) blast
  have le: "unat (max_retries cfg) \<le> k" using k assms(9) r(2,3) by (simp split: if_splits)
  have hl: "healthy (h_flash h')" by (rule hsm_reliable.verify_pin_rejected_healthy [OF rel v assms(8,2)])
  have "stored_config P (content (h_flash h')) = stored_config P (content (h_flash h))"
    by (rule hsm_reliable.stored_config_cong [OF rel]) (use c(3) in auto)
  then have sc: "stored_config P (content (h_flash h')) = Some cfg" using assms(5) by simp
  note b = hsm_reliable.boot_prod_reliable [OF rel hl sc assms(6)]
  have "h_state h2 \<noteq> ProdReady" if "wipe_on_lockout cfg" "hsm_unlock P r (boot P e m (h_flash h')) = Some (resp2, h2)" for e m r resp2 h2
    using hsm_reliable.no_blob_no_unlock [OF rel _ _ that(2)] b(2,5) [of e m] l(7) that(1) by simp
  moreover have "h_state (boot P e m (h_flash h')) = LockedOut" if "\<not> wipe_on_lockout cfg" for e m
    using b(5) [of e m] c(1,2) le l(7) r(6) that by simp
  ultimately show ?thesis using l r(6) by simp
qed

theorem lockout_at_last_attempt_witness:
  "\<exists>h h' resp. hsm_unlock sample_platform \<lparr> ur_pin = ''654321'' \<rparr> h = Some (resp, h') \<and> stored_blob sample_platform (mock_content (h_flash h)) \<noteq> None
    \<and> h_state h' = LockedOut \<and> stored_blob sample_platform (mock_content (h_flash h')) = None"
proof -
  let ?P = sample_platform and ?cfg = "sample_prod_config\<lparr>max_retries := 1, wipe_on_lockout := True\<rparr>"
  have cfg: "mode ?cfg = Prod" "argon2 ?cfg = DEFAULT_ARGON" "max_retries ?cfg \<noteq> 0" "device_config_ok ?cfg"
    by (simp_all add: sample_prod_config_def device_config_ok_def fw_version_triple_def Let_def)
  obtain f h where k: "keyed ?P mock_content mock_healthy h ''123456'' (replicate 32 7)" "h_state h = ProdLocked" "h_config h = Some ?cfg"
    using sample_prod_with [OF cfg] by metis
  obtain resp h' where g: "hsm_unlock ?P \<lparr> ur_pin = ''654321'' \<rparr> h = Some (resp, h')" "rejected_pin resp"
    by (rule sample_wrong_unlock [OF k cfg(2)])
  have "reliable_flash (pf ?P) mock_content mock_healthy" by (simp add: mock.reliable_flash_axioms)
  moreover have "mock_healthy (h_flash h)" "stored_config ?P (mock_content (h_flash h)) = Some ?cfg"
    "stored_blob ?P (mock_content (h_flash h)) \<noteq> None"
    using k(1,3) by (auto simp: keyed_def)
  ultimately show ?thesis using lockout_at_last_attempt [OF _ _ k(2,3) _ cfg(1) g] g(1) by fastforce
qed

end
