(* ===== verification/CoreTests.thy ===== *)
theory CoreTests
  imports KeyGen LineIo
begin

text \<open>
  The unit tests that the modules of \<^verbatim>\<open>hsm-core/src\<close> carry, run on the model: a test function is a boolean
  definition with the assertions of the test in order, a panic (\<^verbatim>\<open>unwrap\<close> of an error) being false,
  and each is proved to hold. Tests of values of the real primitives (known signatures, curve points,
  rejected authentication tags) and tests that go through the JSON codec are not included.
\<close>

section \<open>Clock\<close>

definition unset_returns_none :: bool where
  "unset_returns_none = (let c = clock_new; m = mock_clock_new in now_unix mock_clock_ops m c = Some None)"

definition advances_with_monotonic :: bool where
  "advances_with_monotonic =
     (let m = mock_clock_new; (r, c) = clock_set mock_clock_ops m clock_new 1700000000 in
      r = Inr False \<and> now_unix mock_clock_ops m c = Some (Some 1700000000)
      \<and> (case advance_secs m 42 of
           None \<Rightarrow> False
         | Some m1 \<Rightarrow> now_unix mock_clock_ops m1 c = Some (Some 1700000042)
             \<and> fst (clock_set mock_clock_ops m1 c 1700000100) = Inr True))"

definition first_set_rejects_implausible_values :: bool where
  "first_set_rejects_implausible_values =
     (let m = mock_clock_new;
          (r1, c1) = clock_set mock_clock_ops m clock_new (- 1);
          (r2, c2) = clock_set mock_clock_ops m c1 0;
          (r3, c3) = clock_set mock_clock_ops m c2 0x7FFFFFFFFFFFFFFF;
          (r4, c4) = clock_set mock_clock_ops m c3 1700000000
      in r1 = Inl Rejected \<and> r2 = Inl Rejected \<and> r3 = Inl Rejected \<and> \<not> clock_is_set c3
        \<and> r4 = Inr False \<and> clock_is_set c4)"

definition subsequent_set_rejects_large_forward_jump :: bool where
  "subsequent_set_rejects_large_forward_jump =
     (let m = mock_clock_new;
          (r1, c1) = clock_set mock_clock_ops m clock_new 1700000000;
          one_year = 365 * 24 * 3600;
          (r2, c2) = clock_set mock_clock_ops m c1 (1700000000 + one_year)
      in r1 = Inr False \<and> r2 = Inl Rejected \<and> now_unix mock_clock_ops m c2 = Some (Some 1700000000))"

definition subsequent_set_rejects_large_backward_jump :: bool where
  "subsequent_set_rejects_large_backward_jump =
     (let m = mock_clock_new; (r, c) = clock_set mock_clock_ops m clock_new 1700100000
      in r = Inr False \<and> fst (clock_set mock_clock_ops m c 1700000000) = Inl Rejected)"

definition subsequent_set_allows_small_resync :: bool where
  "subsequent_set_allows_small_resync =
     (let m = mock_clock_new; (r, c) = clock_set mock_clock_ops m clock_new 1700000000
      in r = Inr False
        \<and> (case advance_secs m 300 of
             None \<Rightarrow> False
           | Some m1 \<Rightarrow> fst (clock_set mock_clock_ops m1 c 1700000300) = Inr True))"

definition repeated_resyncs_cannot_ratchet_time_forward :: bool where
  "repeated_resyncs_cannot_ratchet_time_forward =
     (let m = mock_clock_new;
          (r1, c1) = clock_set mock_clock_ops m clock_new 1700000000;
          (r2, c2) = clock_set mock_clock_ops m c1 1700000900;
          (r3, c3) = clock_set mock_clock_ops m c2 1700001800
      in r1 = Inr False \<and> r2 = Inr True \<and> r3 = Inl Rejected
        \<and> trusted_now mock_clock_ops m c3 = Some 1700000000)"

lemma clock_tests:
  "unset_returns_none" "advances_with_monotonic" "first_set_rejects_implausible_values"
  "subsequent_set_rejects_large_forward_jump" "subsequent_set_rejects_large_backward_jump"
  "subsequent_set_allows_small_resync" "repeated_resyncs_cannot_ratchet_time_forward"
  by (simp_all add: unset_returns_none_def advances_with_monotonic_def first_set_rejects_implausible_values_def
      subsequent_set_rejects_large_forward_jump_def subsequent_set_rejects_large_backward_jump_def
      subsequent_set_allows_small_resync_def repeated_resyncs_cannot_ratchet_time_forward_def
      clock_example mock_clock_new_def advance_secs_def advance_micros_def)

section \<open>PIN counter\<close>

definition ticks_and_resets :: bool where
  "ticks_and_resets =
     (let (r1, f1) = pin_count mock_ops mock_flash_new;
          (r2, f2) = pin_tick mock_ops f1;
          (r3, f3) = pin_tick mock_ops f2;
          (r4, f4) = pin_count mock_ops f3;
          (r5, f5) = pin_reset mock_ops f4;
          (r6, f6) = pin_count mock_ops f5
      in r1 = Inr 0 \<and> r2 = Inr 1 \<and> r3 = Inr 2 \<and> r4 = Inr 2 \<and> r5 = Inr () \<and> r6 = Inr 0)"

definition partial_tick_counts_fail_closed :: bool where
  "partial_tick_counts_fail_closed =
     (let f = mock_corrupt mock_flash_new PinCounter 0 0xFE in fst (pin_count mock_ops f) = Inr 1)"

definition backoff_schedule :: bool where
  "backoff_schedule \<longleftrightarrow> backoff_ms 0 = 250 \<and> backoff_ms 1 = 500 \<and> backoff_ms 4 = 4000 \<and> backoff_ms 6 = 16000
     \<and> backoff_ms 7 = 30000 \<and> backoff_ms 20 = 30000"

lemma pin_count_mock: "mock_healthy f \<Longrightarrow> pin_count mock_ops f = (Inr (count_used (mock_content f PinCounter)), f)"
  by (simp add: pin_count_def mock_read_def mock_healthy_def mock_content_def)

text \<open>A tick on a log whose bytes from the count on are blank.\<close>

lemma pin_tick_mock:
  assumes "mock_healthy f" and "count_used (mock_content f PinCounter) < SECTOR_LEN"
    and "\<And>i. count_used (mock_content f PinCounter) < i \<Longrightarrow> i < SECTOR_LEN \<Longrightarrow> mock_content f PinCounter ! i = 0xFF"
  obtains f' where "pin_tick mock_ops f = (Inr (Suc (count_used (mock_content f PinCounter))), f')" "mock_healthy f'"
    "count_used (mock_content f' PinCounter) = Suc (count_used (mock_content f PinCounter))"
    "\<And>i. Suc (count_used (mock_content f PinCounter)) < i \<Longrightarrow> i < SECTOR_LEN \<Longrightarrow> mock_content f' PinCounter ! i = 0xFF"
proof -
  let ?n = "count_used (mock_content f PinCounter)"
  let ?page = "(replicate PAGE_LEN 0xFF)[?n mod PAGE_LEN := 0x00] :: bytes"
  have fits: "?n div PAGE_LEN * PAGE_LEN + length ?page \<le> SECTOR_LEN"
    using assms(2) by (auto simp: PAGE_LEN_def SECTOR_LEN_def)
  define f' where "f' = mock_region_mut f PinCounter (\<lambda>s. sector_and s (?n div PAGE_LEN * PAGE_LEN) ?page)"
  have t: "pin_tick mock_ops f = (Inr (Suc ?n), f')"
    using assms(1,2) fits by (simp add: pin_tick_def pin_count_mock mock_program_def f'_def Let_def)
  have c: "mock_content f' PinCounter = program_bytes (mock_content f PinCounter) (?n div PAGE_LEN * PAGE_LEN) ?page"
    using fits by (simp add: f'_def mock_content_def)
  have len: "length (mock_content f PinCounter) = SECTOR_LEN" by (simp add: mock_content_def)
  have "mock_content f' PinCounter ! i = 0xFF" if "Suc ?n < i" "i < SECTOR_LEN" for i
    using that tick_program_nth [OF len assms(2) that(2)] assms(3) [of i] by (simp add: c)
  moreover have "mock_healthy f'" using assms(1) by (simp add: f'_def mock_healthy_def)
  ultimately show thesis using that t mock.pin_tick_ok(4) [OF t assms(3)] by simp
qed

lemma pin_tests: "ticks_and_resets" "partial_tick_counts_fail_closed" "backoff_schedule"
proof -
  have len: "SECTOR_LEN = 4096" by (simp add: SECTOR_LEN_def)
  then have er: "erased_sector ! i = 0xFF" if "i < 4096" for i using that by (simp add: erased_sector_def)
  obtain f1 where 1: "pin_tick mock_ops mock_flash_new = (Inr 1, f1)" "mock_healthy f1" "count_used (mock_content f1 PinCounter) = 1"
    "\<And>i. 1 < i \<Longrightarrow> i < SECTOR_LEN \<Longrightarrow> mock_content f1 PinCounter ! i = 0xFF"
    by (rule pin_tick_mock [of mock_flash_new]) (auto simp: len er)
  obtain f2 where 2: "pin_tick mock_ops f1 = (Inr 2, f2)" "mock_healthy f2" "count_used (mock_content f2 PinCounter) = 2"
    by (rule pin_tick_mock [of f1]) (use 1 in \<open>auto simp: len\<close>)
  have "pin_reset mock_ops f2 = (Inr (), mock_region_mut f2 PinCounter (\<lambda>_. sector_fill_ff))"
    using 2(2) by (simp add: pin_reset_def mock_erase_def mock_healthy_def)
  moreover have "mock_healthy (mock_region_mut f2 PinCounter (\<lambda>_. sector_fill_ff))" using 2(2) by (simp add: mock_healthy_def)
  ultimately show "ticks_and_resets"
    using 1(1) 2 by (simp add: ticks_and_resets_def pin_count_mock mock_content_def)
  have "count_used (erased_sector[0 := 0xFE]) = 1"
    by (rule count_used_eqI) (simp_all add: erased_sector_def len nth_list_update)
  then show "partial_tick_counts_fail_closed"
    by (simp add: partial_tick_counts_fail_closed_def mock_corrupt_def pin_count_mock mock_healthy_def mock_content_def mock_flash_new_def)
  show "backoff_schedule" by code_simp
qed

section \<open>Line framing\<close>

definition splits_lines_and_trims_cr :: bool where
  "splits_lines_and_trims_cr =
     (let (events, a) = drive line_assembler_new (as_bytes (''hello'' @ [CHR 0x0D, CHR 0x0A] @ ''world'' @ [CHR 0x0A])) in
      length events = 2 \<and> events ! 0 = Line (as_bytes ''hello'') \<and> events ! 1 = Line (as_bytes ''world''))"

definition reports_oversize :: bool where
  "reports_oversize =
     (let big = replicate (MAX_LINE + 100) (of_char (CHR ''x''));
          (events1, a1) = drive line_assembler_new big;
          (events2, a2) = drive a1 [0x0A];
          (events3, a3) = drive a2 (as_bytes (''ok'' @ [CHR 0x0A]))
      in events1 = [] \<and> events2 = [TooLong] \<and> (case events3 of [Line _] \<Rightarrow> True | _ \<Rightarrow> False))"

lemma drive_text: "list_all (\<lambda>b. b \<noteq> 0x0A) bs \<Longrightarrow> drive (pending l) bs = ([], pending (l @ bs))"
  by (induction bs arbitrary: l) (simp_all add: push_byte)

lemma framing_tests: "splits_lines_and_trims_cr" "reports_oversize"
proof -
  show "splits_lines_and_trims_cr"
    by (simp add: splits_lines_and_trims_cr_def as_bytes_def line_assembler_new_def push_def MAX_LINE_def)
  have "list_all (\<lambda>b. b \<noteq> (0x0A :: u8)) (replicate n (of_char (CHR ''x'')))" for n by (simp add: list_all_iff)
  then show "reports_oversize"
    using drive_text [of "replicate (MAX_LINE + 100) (of_char (CHR ''x''))" "[]"]
    by (simp add: reports_oversize_def line_assembler_new_pending pending_def as_bytes_def push_def MAX_LINE_def)
qed

section \<open>Durations\<close>

definition parses_go_test_vectors :: bool where
  "parses_go_test_vectors = list_all (\<lambda>(s, want). parse_duration s = Some (Inr want))
     [(''0'', 0), (''5s'', 5000000000), (''30s'', 30000000000), (''1478s'', 1478000000000),
      (''-5s'', - 5000000000), (''+5s'', 5000000000), (''-0'', 0), (''+0'', 0),
      (''5.0s'', 5000000000), (''5.6s'', 5600000000), (''5.s'', 5000000000), (''.5s'', 500000000),
      (''1.0s'', 1000000000), (''1.004s'', 1004000000), (''100.00100s'', 100001000000),
      (''10ns'', 10), (''11us'', 11000),
      (''12'' @ [CHR 0xC2, CHR 0xB5, CHR ''s''], 12000), (''12'' @ [CHR 0xCE, CHR 0xBC, CHR ''s''], 12000),
      (''13ms'', 13000000), (''14s'', 14000000000), (''15m'', 900000000000), (''16h'', 57600000000000),
      (''3h30m'', 3 * 3600000000000 + 30 * 60000000000),
      (''10.5s4m'', 4 * 60000000000 + 10500000000),
      (''-2m3.4s'', - (2 * 60000000000 + 3400000000)),
      (''1h2m3s4ms5us6ns'', 3600000000000 + 2 * 60000000000 + 3000000000 + 4000000 + 5000 + 6),
      (''39h9m14.425s'', 39 * 3600000000000 + 9 * 60000000000 + 14425000000),
      (''52763797000ns'', 52763797000), (''0.3333333333333333333h'', 20 * 60000000000),
      (''9223372036854775807ns'', 9223372036854775807), (''9223372036854775.807us'', 9223372036854775807),
      (''-9223372036854775808ns'', - 9223372036854775808), (''-9223372036854775.808us'', - 9223372036854775808)]"

definition rejects_with_exact_go_messages :: bool where
  "rejects_with_exact_go_messages = list_all (\<lambda>(s, want). parse_duration s = Some (Inl want))
     [('''', ''time: invalid duration \"\"''), (''3'', ''time: missing unit in duration \"3\"''),
      (''-'', ''time: invalid duration \"-\"''), (''s'', ''time: invalid duration \"s\"''),
      (''.'', ''time: invalid duration \".\"''), (''-.'', ''time: invalid duration \"-.\"''),
      (''.s'', ''time: invalid duration \".s\"''), (''+.s'', ''time: invalid duration \"+.s\"''),
      (''1d'', ''time: unknown unit \"d\" in duration \"1d\"''), (''5x'', ''time: unknown unit \"x\" in duration \"5x\"''),
      (''3000000h'', ''time: invalid duration \"3000000h\"'')]"

definition formats_like_go :: bool where
  "formats_like_go \<longleftrightarrow> format_duration 0 = Some ''0s'' \<and> format_duration (ucast SECOND) = Some ''1s''
     \<and> format_duration 1500000000 = Some ''1.5s'' \<and> format_duration (ucast HOUR) = Some ''1h0m0s''
     \<and> format_duration (24 * ucast HOUR) = Some ''24h0m0s'' \<and> format_duration (25 * ucast HOUR) = Some ''25h0m0s''
     \<and> format_duration (- ucast HOUR) = Some ''-1h0m0s'' \<and> format_duration (90 * ucast MINUTE) = Some ''1h30m0s''
     \<and> format_duration 1 = Some ''1ns'' \<and> format_duration 1000 = Some (''1'' @ [CHR 0xC2, CHR 0xB5, CHR ''s''])
     \<and> format_duration 1000000 = Some ''1ms''"

lemma duration_rows_1:
  "parse_duration ''0'' = Some (Inr 0)
   \<and> parse_duration ''5s'' = Some (Inr 5000000000)
   \<and> parse_duration ''30s'' = Some (Inr 30000000000)
   \<and> parse_duration ''1478s'' = Some (Inr 1478000000000)
   \<and> parse_duration ''-5s'' = Some (Inr (- 5000000000))
   \<and> parse_duration ''+5s'' = Some (Inr 5000000000)
   \<and> parse_duration ''-0'' = Some (Inr 0)
   \<and> parse_duration ''+0'' = Some (Inr 0)
   \<and> parse_duration ''5.0s'' = Some (Inr 5000000000)
   \<and> parse_duration ''5.6s'' = Some (Inr 5600000000)
   \<and> parse_duration ''5.s'' = Some (Inr 5000000000)
   \<and> parse_duration ''.5s'' = Some (Inr 500000000)
   \<and> parse_duration ''1.0s'' = Some (Inr 1000000000)
   \<and> parse_duration ''1.004s'' = Some (Inr 1004000000)
   \<and> parse_duration ''100.00100s'' = Some (Inr 100001000000)"
  by code_simp

lemma duration_rows_2:
  "parse_duration ''10ns'' = Some (Inr 10)
   \<and> parse_duration ''11us'' = Some (Inr 11000)
   \<and> parse_duration (''12'' @ [CHR 0xC2, CHR 0xB5, CHR ''s'']) = Some (Inr 12000)
   \<and> parse_duration (''12'' @ [CHR 0xCE, CHR 0xBC, CHR ''s'']) = Some (Inr 12000)
   \<and> parse_duration ''13ms'' = Some (Inr 13000000)
   \<and> parse_duration ''14s'' = Some (Inr 14000000000)
   \<and> parse_duration ''15m'' = Some (Inr 900000000000)
   \<and> parse_duration ''16h'' = Some (Inr 57600000000000)
   \<and> parse_duration ''3h30m'' = Some (Inr (3 * 3600000000000 + 30 * 60000000000))
   \<and> parse_duration ''10.5s4m'' = Some (Inr (4 * 60000000000 + 10500000000))
   \<and> parse_duration ''-2m3.4s'' = Some (Inr (- (2 * 60000000000 + 3400000000)))
   \<and> parse_duration ''1h2m3s4ms5us6ns'' = Some (Inr (3600000000000 + 2 * 60000000000 + 3000000000 + 4000000 + 5000 + 6))"
  by code_simp

lemma duration_rows_3:
  "parse_duration ''39h9m14.425s'' = Some (Inr (39 * 3600000000000 + 9 * 60000000000 + 14425000000))
   \<and> parse_duration ''52763797000ns'' = Some (Inr 52763797000)"
  by code_simp

lemma duration_row_third:
  "parse_duration ''0.3333333333333333333h'' = Some (Inr (20 * 60000000000))"
  by code_simp

lemma duration_rows_4:
  "parse_duration ''9223372036854775807ns'' = Some (Inr 9223372036854775807)
   \<and> parse_duration ''9223372036854775.807us'' = Some (Inr 9223372036854775807)
   \<and> parse_duration ''-9223372036854775808ns'' = Some (Inr (- 9223372036854775808))
   \<and> parse_duration ''-9223372036854775.808us'' = Some (Inr (- 9223372036854775808))"
  by code_simp

lemma duration_rows_5:
  "parse_duration '''' = Some (Inl ''time: invalid duration \"\"'')
   \<and> parse_duration ''3'' = Some (Inl ''time: missing unit in duration \"3\"'')
   \<and> parse_duration ''-'' = Some (Inl ''time: invalid duration \"-\"'')
   \<and> parse_duration ''s'' = Some (Inl ''time: invalid duration \"s\"'')
   \<and> parse_duration ''.'' = Some (Inl ''time: invalid duration \".\"'')
   \<and> parse_duration ''-.'' = Some (Inl ''time: invalid duration \"-.\"'')
   \<and> parse_duration ''.s'' = Some (Inl ''time: invalid duration \".s\"'')
   \<and> parse_duration ''+.s'' = Some (Inl ''time: invalid duration \"+.s\"'')
   \<and> parse_duration ''1d'' = Some (Inl ''time: unknown unit \"d\" in duration \"1d\"'')
   \<and> parse_duration ''5x'' = Some (Inl ''time: unknown unit \"x\" in duration \"5x\"'')
   \<and> parse_duration ''3000000h'' = Some (Inl ''time: invalid duration \"3000000h\"'')"
  by code_simp

lemma duration_tests: "parses_go_test_vectors" "rejects_with_exact_go_messages" "formats_like_go"
proof -
  show "parses_go_test_vectors"
    by (simp only: parses_go_test_vectors_def list.pred_inject prod.case simp_thms duration_rows_1 duration_rows_2 duration_rows_3 duration_row_third duration_rows_4)
  show "rejects_with_exact_go_messages"
    by (simp only: rejects_with_exact_go_messages_def list.pred_inject prod.case simp_thms duration_rows_5)
  show "formats_like_go" by code_simp
qed

text \<open>A checksum that notices the change of any one byte, as a CRC does.\<close>

definition crc_detects_byte :: "(bytes \<Rightarrow> u32) \<Rightarrow> bool" where
  "crc_detects_byte crc \<longleftrightarrow> (\<forall>bs i b. i < length bs \<longrightarrow> bs ! i \<noteq> b \<longrightarrow> crc (bs[i := b]) \<noteq> crc bs)"

section \<open>Storage\<close>

definition config_roundtrip :: bool where
  "config_roundtrip =
     (let cfg = \<lparr> mode = Prod, argon2 = \<lparr> m_cost = 64, t_cost = 8, parallelism = 1 \<rparr>, max_retries = 10,
            wipe_on_lockout = True, fw_version = [0, 1, 0] \<rparr>
      in device_config_from_bytes (device_config_to_bytes cfg) = Some cfg)"

definition keyblob_roundtrip :: bool where
  "keyblob_roundtrip =
     (let kb = \<lparr> wrap_type = PinKek, aead_nonce = replicate 12 1, pubkey = replicate 32 2, ciphertext = replicate 32 3,
            tag = replicate 16 4, salt = replicate 16 5 \<rparr>
      in key_blob_from_bytes (key_blob_to_bytes kb) = Some kb)"

definition ab_write_read_latest :: "(bytes \<Rightarrow> u32) \<Rightarrow> bool" where
  "ab_write_read_latest crc =
     (let (r0, f0) = read_latest mock_ops crc CONFIG mock_flash_new;
          (w1, f1) = ab_write mock_ops crc CONFIG f0 (as_bytes ''first'');
          (r1, f2) = read_latest mock_ops crc CONFIG f1;
          (w2, f3) = ab_write mock_ops crc CONFIG f2 (as_bytes ''second'');
          (r2, f4) = read_latest mock_ops crc CONFIG f3;
          (w3, f5) = ab_write mock_ops crc CONFIG f4 (as_bytes ''third'');
          (r3, f6) = read_latest mock_ops crc CONFIG f5
      in r0 = Inr None \<and> w1 = Inr () \<and> r1 = Inr (Some (as_bytes ''first'')) \<and> w2 = Inr ()
        \<and> r2 = Inr (Some (as_bytes ''second'')) \<and> w3 = Inr () \<and> r3 = Inr (Some (as_bytes ''third'')))"

definition time_floor_uses_the_same_power_fail_safe_records :: "(bytes \<Rightarrow> u32) \<Rightarrow> bool" where
  "time_floor_uses_the_same_power_fail_safe_records crc =
     (let (w, f) = ab_write mock_ops crc TIME_FLOOR mock_flash_new (to_be_bytes 8 (1700000000 :: i64))
      in w = Inr () \<and> fst (read_latest mock_ops crc TIME_FLOOR f) = Inr (Some (to_be_bytes 8 (1700000000 :: i64))))"

definition fail_closed_read_distinguishes_erased_from_invalid_records :: "(bytes \<Rightarrow> u32) \<Rightarrow> bool" where
  "fail_closed_read_distinguishes_erased_from_invalid_records crc =
     (let (r1, f) = read_latest_fail_closed mock_ops crc TIME_FLOOR mock_flash_new;
          (r2, _) = read_latest_fail_closed mock_ops crc TIME_FLOOR (mock_corrupt f TimeA 0 0x00)
      in r1 = Inr None \<and> r2 = Inl Flash)"

definition fail_closed_read_recovers_from_one_invalid_copy :: "(bytes \<Rightarrow> u32) \<Rightarrow> bool" where
  "fail_closed_read_recovers_from_one_invalid_copy crc =
     (let (w1, f1) = ab_write mock_ops crc TIME_FLOOR mock_flash_new (as_bytes ''old'');
          (w2, f2) = ab_write mock_ops crc TIME_FLOOR f1 (as_bytes ''new'');
          (r, _) = read_latest_fail_closed mock_ops crc TIME_FLOOR (mock_corrupt f2 TimeB HEADER 0x00)
      in w1 = Inr () \<and> w2 = Inr () \<and> r = Inr (Some (as_bytes ''old'')))"

definition ab_survives_corrupt_newer_copy :: "(bytes \<Rightarrow> u32) \<Rightarrow> bool" where
  "ab_survives_corrupt_newer_copy crc =
     (let (w1, f1) = ab_write mock_ops crc CONFIG mock_flash_new (as_bytes ''good-old'');
          (w2, f2) = ab_write mock_ops crc CONFIG f1 (as_bytes ''good-new'');
          (r, _) = read_latest mock_ops crc CONFIG (mock_corrupt f2 ConfigB HEADER 0xFF)
      in w1 = Inr () \<and> w2 = Inr () \<and> r = Inr (Some (as_bytes ''good-old'')))"

definition corruption_at_every_offset_never_panics :: "(bytes \<Rightarrow> u32) \<Rightarrow> bool" where
  "corruption_at_every_offset_never_panics crc =
     list_all (\<lambda>off.
        let (w, f) = ab_write mock_ops crc CONFIG mock_flash_new (as_bytes ''hello'');
            f1 = mock_corrupt f ConfigA off 0x00;
            f2 = mock_corrupt f1 ConfigA off 0xFF
        in w = Inr () \<and> is_ok (fst (read_latest mock_ops crc CONFIG f2))) [0..<HEADER + 5 + 4]"

lemma codec_tests: "config_roundtrip" "keyblob_roundtrip"
  using device_config_codec key_blob_codec
  by (simp_all add: config_roundtrip_def keyblob_roundtrip_def device_config_ok_def key_blob_ok_def)

lemma mock_write:
  assumes "mock_healthy f" and "HEADER + length p + 4 \<le> SECTOR_LEN"
  obtains f' where "ab_write mock_ops crc ab f p = (Inr (), f')" "mock_healthy f'"
    "mock_content f' = (mock_content f)(ab_target crc ab (mock_content f) := record_sector crc (ab_max_seq crc ab (mock_content f) + 1) p)"
  using mock.ab_write_healthy [OF assms, of crc ab] mock.ab_write_ok by blast

lemma mock_corrupt_content [simp]:
  "mock_content (mock_corrupt f r i b) = (mock_content f)(r := (mock_content f r)[i := b])"
  "mock_healthy (mock_corrupt f r i b) = mock_healthy f"
  by (auto simp: mock_corrupt_def mock_content_def mock_healthy_def fun_eq_iff)

lemma read_latest_mock_ok: "mock_healthy f \<Longrightarrow> read_latest mock_ops crc ab f = (Inr (ab_latest crc ab (mock_content f)), f)"
  by (simp add: read_latest_mock mock_healthy_def)

text \<open>Two writes to a blank pair: the first record is in copy A, the second in copy B.\<close>

lemma two_writes:
  assumes "ab \<in> {CONFIG, TIME_FLOOR}" and "length p \<le> 100" and "length q \<le> 100"
  obtains f1 f2 where "ab_write mock_ops crc ab mock_flash_new p = (Inr (), f1)" "mock_healthy f1"
    "mock_content f1 = (\<lambda>_. erased_sector)(ab_a ab := record_sector crc 1 p)"
    "ab_write mock_ops crc ab f1 q = (Inr (), f2)" "mock_healthy f2"
    "mock_content f2 = (\<lambda>_. erased_sector)(ab_a ab := record_sector crc 1 p, ab_b ab := record_sector crc 2 q)"
proof -
  have fits: "HEADER + length p + 4 \<le> SECTOR_LEN" "HEADER + length q + 4 \<le> SECTOR_LEN"
    using assms(2,3) by (simp_all add: HEADER_def SECTOR_LEN_def)
  have ne: "ab_a ab \<noteq> ab_b ab" using assms(1) by (auto simp: CONFIG_def TIME_FLOOR_def)
  obtain f1 where 1: "ab_write mock_ops crc ab mock_flash_new p = (Inr (), f1)" "mock_healthy f1"
    "mock_content f1 = (\<lambda>_. erased_sector)(ab_a ab := record_sector crc 1 p)"
    by (rule mock_write [OF mock_healthy_new fits(1), of crc ab]) (auto simp: ab_defs)
  have "ab_target crc ab (mock_content f1) = ab_b ab" "ab_max_seq crc ab (mock_content f1) = 1"
    using ne parse_record_sector [OF fits(1), of crc 1] by (simp_all add: 1(3) ab_defs)
  then obtain f2 where "ab_write mock_ops crc ab f1 q = (Inr (), f2)" "mock_healthy f2"
    "mock_content f2 = (\<lambda>_. erased_sector)(ab_a ab := record_sector crc 1 p, ab_b ab := record_sector crc 2 q)"
    using mock_write [OF 1(2) fits(2), of crc ab] 1(3) by auto
  then show thesis using that 1 by blast
qed

lemma parse_corrupt:
  assumes "crc_detects_byte crc" and "parse_record crc sec = Some (seq, p)" and "HEADER \<le> i" and "i < HEADER + length p" and "sec ! i \<noteq> b"
  shows "parse_record crc (sec[i := b]) = None"
proof -
  define len where "len = unat (from_be_bytes [sec ! 10, sec ! 11] :: u16)"
  let ?e = "HEADER + len"
  have p: "?e + 4 \<le> length sec" "p = take len (drop HEADER sec)"
    "crc (take ?e sec) = from_be_bytes [sec ! ?e, sec ! (?e + 1), sec ! (?e + 2), sec ! (?e + 3)]"
    using assms(2) by (auto simp: parse_record_def len_def Let_def split: if_splits)
  then have i: "i < ?e" using assms(4) by (simp add: HEADER_def)
  have same: "sec[i := b] ! k = sec ! k" if "k < HEADER \<or> ?e \<le> k" for k using that assms(3) i by (auto simp: nth_list_update)
  have hd: "take 4 (sec[i := b]) = take 4 sec" using assms(3) by (simp add: take_update_cancel HEADER_def)
  have "take ?e (sec[i := b]) = (take ?e sec)[i := b]" by (simp add: take_update_swap)
  moreover have "crc ((take ?e sec)[i := b]) \<noteq> crc (take ?e sec)"
    using assms(1,5) i p(1) by (simp add: crc_detects_byte_def)
  ultimately have "crc (take ?e (sec[i := b])) \<noteq> from_be_bytes [sec ! ?e, sec ! (?e + 1), sec ! (?e + 2), sec ! (?e + 3)]"
    using p(3) by simp
  then show ?thesis
    by (simp add: parse_record_def Let_def hd same HEADER_def flip: len_def)
qed

lemma corrupt_payload:
  assumes "crc_detects_byte crc" and "length p \<le> 100" and "p \<noteq> []" and "hd p \<noteq> b"
  shows "parse_record crc ((record_sector crc seq p)[HEADER := b]) = None"
proof -
  have "parse_record crc (record_sector crc seq p) = Some (seq, p)"
    using assms(2) by (simp add: parse_record_sector HEADER_def SECTOR_LEN_def)
  moreover have "record_sector crc seq p ! HEADER = hd p"
    using assms(2,3) by (simp add: record_sector_eq HEADER_def SECTOR_LEN_def record_bytes_def Let_def nth_append hd_conv_nth)
  ultimately show ?thesis using parse_corrupt [OF assms(1)] assms(3,4) by simp
qed

lemma record_tests:
  "ab_write_read_latest crc" "time_floor_uses_the_same_power_fail_safe_records crc"
  "fail_closed_read_distinguishes_erased_from_invalid_records crc" "corruption_at_every_offset_never_panics crc"
proof -
  have len: "HEADER + n + 4 \<le> SECTOR_LEN" if "n \<le> 100" for n using that by (simp add: HEADER_def SECTOR_LEN_def)
  obtain f1 f2 where w: "ab_write mock_ops crc CONFIG mock_flash_new (as_bytes ''first'') = (Inr (), f1)" "mock_healthy f1"
    "mock_content f1 = (\<lambda>_. erased_sector)(ab_a CONFIG := record_sector crc 1 (as_bytes ''first''))"
    "ab_write mock_ops crc CONFIG f1 (as_bytes ''second'') = (Inr (), f2)" "mock_healthy f2"
    "mock_content f2 = (\<lambda>_. erased_sector)(ab_a CONFIG := record_sector crc 1 (as_bytes ''first''),
       ab_b CONFIG := record_sector crc 2 (as_bytes ''second''))"
    by (rule two_writes [of CONFIG "as_bytes ''first''" "as_bytes ''second''" crc]) simp_all
  note ps = parse_record_sector [OF len]
  have m: "ab_max_seq crc CONFIG (mock_content f2) = 2" by (simp add: w(6) CONFIG_def ab_defs ps)
  obtain f3 where 3: "ab_write mock_ops crc CONFIG f2 (as_bytes ''third'') = (Inr (), f3)" "mock_healthy f3"
    using mock_write [OF w(5) len, of "as_bytes ''third''" crc CONFIG] by auto
  have "ab_latest crc CONFIG (mock_content f3) = Some (as_bytes ''third'')"
    by (rule mock.ab_write_latest(1) [OF 3(1)]) (simp_all add: m)
  moreover have "ab_latest crc CONFIG (mock_content f1) = Some (as_bytes ''first'')"
    "ab_latest crc CONFIG (mock_content f2) = Some (as_bytes ''second'')"
    by (simp_all add: w(3,6) CONFIG_def ab_defs ps word_le_nat_alt)
  ultimately show "ab_write_read_latest crc"
    using w 3 by (simp add: ab_write_read_latest_def read_latest_mock_ok)
  obtain g where g: "ab_write mock_ops crc TIME_FLOOR mock_flash_new (to_be_bytes 8 (1700000000 :: i64)) = (Inr (), g)" "mock_healthy g"
    using mock_write [OF mock_healthy_new len, of "to_be_bytes 8 (1700000000 :: i64)" crc TIME_FLOOR] by auto
  have "ab_latest crc TIME_FLOOR (mock_content g) = Some (to_be_bytes 8 (1700000000 :: i64))"
    by (rule mock.ab_write_latest(1) [OF g(1)]) (simp_all add: ab_defs)
  then show "time_floor_uses_the_same_power_fail_safe_records crc"
    using g by (simp add: time_floor_uses_the_same_power_fail_safe_records_def read_latest_mock_ok)
  have "take 4 (erased_sector[0 := 0]) ! 0 \<noteq> MAGIC ! 0"
    by (simp add: erased_sector_def MAGIC_def as_bytes_def SECTOR_LEN_def)
  then have "take 4 (erased_sector[0 := 0]) \<noteq> MAGIC" by metis
  then have bad: "parse_record crc (erased_sector[0 := 0]) = None" by (simp add: parse_record_def)
  have "(erased_sector[0 := 0]) ! 0 \<noteq> erased_sector ! 0" by (simp add: erased_sector_def SECTOR_LEN_def)
  then have ne: "erased_sector[0 := 0] \<noteq> erased_sector" by metis
  have read: "fst (read_latest_fail_closed mock_ops crc TIME_FLOOR f) = (case ab_latest crc TIME_FLOOR (mock_content f) of
      Some p \<Rightarrow> Inr (Some p)
    | None \<Rightarrow> if mock_content f TimeA = erased_sector \<and> mock_content f TimeB = erased_sector then Inr None else Inl Flash)"
    and same: "mock_content (snd (read_latest_fail_closed mock_ops crc TIME_FLOOR f)) = mock_content f"
    and ok: "mock_healthy (snd (read_latest_fail_closed mock_ops crc TIME_FLOOR f))" if "mock_healthy f" for f
    using mock.read_latest_fail_closed_healthy [OF that, of crc TIME_FLOOR] mock.read_latest_fail_closed_spec(1) [of crc TIME_FLOOR f]
    by (auto simp: TIME_FLOOR_def)
  obtain r0 f0 where 0: "read_latest_fail_closed mock_ops crc TIME_FLOOR mock_flash_new = (r0, f0)" by fastforce
  have "r0 = Inr None" "mock_content f0 = (\<lambda>_. erased_sector)" "mock_healthy f0"
    using read [OF mock_healthy_new] same [OF mock_healthy_new] ok [OF mock_healthy_new] by (simp_all add: 0 ab_defs)
  moreover from this have "fst (read_latest_fail_closed mock_ops crc TIME_FLOOR (mock_corrupt f0 TimeA 0 0)) = Inl Flash"
    using read [of "mock_corrupt f0 TimeA 0 0"] ne bad by (simp add: TIME_FLOOR_def ab_defs)
  ultimately show "fail_closed_read_distinguishes_erased_from_invalid_records crc"
    by (simp add: fail_closed_read_distinguishes_erased_from_invalid_records_def 0 case_prod_unfold)
  obtain h where h: "ab_write mock_ops crc CONFIG mock_flash_new (as_bytes ''hello'') = (Inr (), h)" "mock_healthy h"
    using mock_write [OF mock_healthy_new len, of "as_bytes ''hello''" crc CONFIG] by auto
  then show "corruption_at_every_offset_never_panics crc"
    by (simp add: corruption_at_every_offset_never_panics_def read_latest_mock_ok list_all_iff)
qed

lemma corruption_tests:
  assumes "crc_detects_byte crc"
  shows "fail_closed_read_recovers_from_one_invalid_copy crc" "ab_survives_corrupt_newer_copy crc"
proof -
  have len: "HEADER + n + 4 \<le> SECTOR_LEN" if "n \<le> 100" for n using that by (simp add: HEADER_def SECTOR_LEN_def)
  note ps = parse_record_sector [OF len]
  obtain f1 f2 where w: "ab_write mock_ops crc TIME_FLOOR mock_flash_new (as_bytes ''old'') = (Inr (), f1)"
    "ab_write mock_ops crc TIME_FLOOR f1 (as_bytes ''new'') = (Inr (), f2)" "mock_healthy f2"
    "mock_content f2 = (\<lambda>_. erased_sector)(ab_a TIME_FLOOR := record_sector crc 1 (as_bytes ''old''),
       ab_b TIME_FLOOR := record_sector crc 2 (as_bytes ''new''))"
    by (rule two_writes [of TIME_FLOOR "as_bytes ''old''" "as_bytes ''new''" crc]) simp_all
  have "parse_record crc ((record_sector crc 2 (as_bytes ''new''))[HEADER := 0]) = None"
    by (rule corrupt_payload [OF assms]) (simp_all add: as_bytes_def)
  then have "ab_latest crc TIME_FLOOR (mock_content (mock_corrupt f2 TimeB HEADER 0)) = Some (as_bytes ''old'')"
    by (simp add: w(4) TIME_FLOOR_def ab_defs ps)
  then show "fail_closed_read_recovers_from_one_invalid_copy crc"
    using mock.read_latest_fail_closed_healthy [of "mock_corrupt f2 TimeB HEADER 0" crc TIME_FLOOR] w(1-3)
    by (auto simp: fail_closed_read_recovers_from_one_invalid_copy_def simp del: mock_corrupt_content(1))
  obtain g1 g2 where v: "ab_write mock_ops crc CONFIG mock_flash_new (as_bytes ''good-old'') = (Inr (), g1)"
    "ab_write mock_ops crc CONFIG g1 (as_bytes ''good-new'') = (Inr (), g2)" "mock_healthy g2"
    "mock_content g2 = (\<lambda>_. erased_sector)(ab_a CONFIG := record_sector crc 1 (as_bytes ''good-old''),
       ab_b CONFIG := record_sector crc 2 (as_bytes ''good-new''))"
    by (rule two_writes [of CONFIG "as_bytes ''good-old''" "as_bytes ''good-new''" crc]) simp_all
  have "parse_record crc ((record_sector crc 2 (as_bytes ''good-new''))[HEADER := 0xFF]) = None"
    by (rule corrupt_payload [OF assms]) (simp_all add: as_bytes_def)
  then have "ab_latest crc CONFIG (mock_content (mock_corrupt g2 ConfigB HEADER 0xFF)) = Some (as_bytes ''good-old'')"
    by (simp add: v(4) CONFIG_def ab_defs ps)
  then show "ab_survives_corrupt_newer_copy crc"
    using v(1-3) by (simp add: ab_survives_corrupt_newer_copy_def read_latest_mock_ok del: mock_corrupt_content(1))
qed

section \<open>The in-memory flash\<close>

definition restore_accepts_legacy_snapshot_with_an_empty_time_journal :: bool where
  "restore_accepts_legacy_snapshot_with_an_empty_time_journal =
     (let current = mock_snapshot mock_flash_new;
          legacy = take (5 * SECTOR_LEN) (drop (2 * SECTOR_LEN) current) @ drop (7 * SECTOR_LEN) current;
          (accepted, restored) = mock_restore mock_flash_new legacy
      in accepted \<and> mock_peek restored TimeA 0 = Some 0xFF \<and> mock_peek restored TimeB 0 = Some 0xFF
        \<and> mock_snapshot restored = current)"

lemma restore_test: "restore_accepts_legacy_snapshot_with_an_empty_time_journal"
proof -
  let ?n = "mock_flash_new" and ?uid = "replicate 8 (0x42 :: 8 word)"
  let ?img = "\<lambda>rs. concat (map (\<lambda>r. sector_bytes sector_fill_ff) rs) @ ?uid"
  let ?legacy = "?img legacy_regions"
  have new: "mock_region ?n r = sector_fill_ff" "unique_id ?n = ?uid" for r by (cases r; simp add: mock_flash_new_def)+
  have snap: "mock_snapshot ?n = ?img all_regions" by (simp add: mock_snapshot_def new)
  have leg: "take (5 * SECTOR_LEN) (drop (2 * SECTOR_LEN) (mock_snapshot ?n)) @ drop (7 * SECTOR_LEN) (mock_snapshot ?n) = ?legacy"
    by (simp add: snap all_regions_def legacy_regions_def)
  have len: "length ?legacy = 5 * SECTOR_LEN + 8" by (simp add: legacy_regions_def)
  have pos: "SECTOR_LEN \<noteq> 0" by (simp add: SECTOR_LEN_def)
  have "distinct legacy_regions" by (simp add: legacy_regions_def)
  note rr = restore_regions_region [OF this]
  have reg: "mock_region (restore_regions ?legacy 0 legacy_regions h) r = sector_fill_ff"
    if "\<And>r. mock_region h r = sector_fill_ff" for h r
    using that takeWhile_index [of r legacy_regions] sector_nth_concat [of "length (takeWhile (\<lambda>x. x \<noteq> r) legacy_regions)"
        legacy_regions "\<lambda>_. sector_fill_ff" ?uid]
    by (auto simp: rr sector_fill_ff_def)
  have upd: "mock_region (h\<lparr>unique_id := u\<rparr>) r = mock_region h r" for h u r by (cases r) simp_all
  have same: "?n\<lparr>time_a := sector_fill_ff, time_b := sector_fill_ff\<rparr> = ?n" by (simp add: mock_flash_new_def)
  have uid: "drop (5 * SECTOR_LEN) ?legacy = ?uid" by (simp add: legacy_regions_def)
  define legacy where "legacy = ?legacy"
  have "length legacy = 5 * SECTOR_LEN + 8" "drop (5 * SECTOR_LEN) legacy = ?uid" using len uid by (simp_all add: legacy_def)
  then have "mock_restore ?n legacy = (True, (restore_regions legacy 0 legacy_regions ?n)\<lparr>unique_id := ?uid\<rparr>)"
    using pos by (simp add: mock_restore_def Let_def same)
  then have "mock_restore ?n ?legacy = (True, (restore_regions ?legacy 0 legacy_regions ?n)\<lparr>unique_id := ?uid\<rparr>)"
    unfolding legacy_def .
  moreover have "(restore_regions ?legacy 0 legacy_regions ?n)\<lparr>unique_id := ?uid\<rparr> = ?n"
    by (rule mock_flash_eqI) (simp_all add: upd reg [OF new(1), simplified] new)
  ultimately have r: "mock_restore ?n ?legacy = (True, ?n)" by simp
  have "mock_peek ?n r 0 = Some 0xFF" for r by (simp add: mock_peek_def new erased_sector_def SECTOR_LEN_def)
  then show ?thesis by (simp add: restore_accepts_legacy_snapshot_with_an_empty_time_journal_def leg r [simplified] Let_def)
qed

section \<open>Health checks of the generator\<close>

definition health_check_rejects_stuck_source :: bool where
  "health_check_rejects_stuck_source \<longleftrightarrow> health_check (replicate SEED_SAMPLE 0) = Inl Entropy"

definition health_check_rejects_biased_source :: bool where
  "health_check_rejects_biased_source =
     (let biased = map (\<lambda>i. if i mod 5 = 0 then of_nat (i AND 0xFF) else 0xAA) [0..<SEED_SAMPLE]
      in health_check biased = Inl Entropy)"

lemma count_list_map_ge:
  "(\<And>i. P i \<Longrightarrow> f i = b) \<Longrightarrow> length (filter P xs) \<le> count_list (map f xs) b"
  by (induction xs) auto

lemma health_tests: "health_check_rejects_stuck_source" "health_check_rejects_biased_source"
proof -
  have "replicate SEED_SAMPLE (0 :: u8) = [] @ replicate 24 0 @ replicate 232 0"
    by (simp add: SEED_SAMPLE_def flip: replicate_add)
  then have "max_run (replicate SEED_SAMPLE 0) \<ge> 24" using max_run_ge_iff [of 24] by fastforce
  then show "health_check_rejects_stuck_source" by (simp add: health_check_rejects_stuck_source_def health_check_def RCT_CUTOFF_def)
  let ?f = "\<lambda>i. if i mod 5 = 0 then of_nat (i AND 0xFF) else 0xAA :: u8"
  have "64 < length (filter (\<lambda>i. i mod 5 \<noteq> 0) [0..<SEED_SAMPLE])" by code_simp
  also have "\<dots> \<le> count_list (map ?f [0..<SEED_SAMPLE]) 0xAA" by (rule count_list_map_ge) simp
  finally have "list_ex (\<lambda>c. c > 64) (byte_counts (map ?f [0..<SEED_SAMPLE]))" using byte_counts_exceeds by blast
  then show "health_check_rejects_biased_source"
    by (simp add: health_check_rejects_biased_source_def health_check_def APT_MAX_def SEED_SAMPLE_def Let_def)
qed

section \<open>Wrapping and signing\<close>

definition TEST_SECRET :: bytes where
  "TEST_SECRET = replicate 32 0x5A"

definition test_params :: argon2_params where
  "test_params = \<lparr> m_cost = 32, t_cost = 2, parallelism = 1 \<rparr>"

definition dev_wrap_roundtrip :: "'r externs \<Rightarrow> bool" where
  "dev_wrap_roundtrip X =
     (let kek = dev_kek X TEST_SECRET;
          seed = replicate 32 9;
          pk = replicate 32 7;
          blob = wrap_seed X kek seed pk DevKek (replicate 16 0) (replicate 12 0)
      in unwrap_seed X kek blob = Inr seed)"

definition pin_wrap_roundtrip :: "'r externs \<Rightarrow> bool" where
  "pin_wrap_roundtrip X =
     (case pin_kek X (as_bytes ''correct horse'') (replicate 16 0xAB) test_params TEST_SECRET of
        Inl _ \<Rightarrow> False
      | Inr kek \<Rightarrow>
          let seed = replicate 32 5;
              pk = replicate 32 3;
              blob = wrap_seed X kek seed pk PinKek (replicate 16 0) (replicate 12 1)
          in unwrap_seed X kek blob = Inr seed)"

definition signature_verifies :: "'r externs \<Rightarrow> bool" where
  "signature_verifies X =
     (let key = ca_from_seed (replicate 32 3);
          msg = as_bytes ''hello certificate'';
          sig = ca_sign X key msg
      in ed_point X (public_bytes X key) \<and> ed_verify X (public_bytes X key) msg sig)"

text \<open>Argon2id accepts one lane, at least 8 blocks of memory and one pass, and then has a result.\<close>

definition argon2_accepts :: "'r externs \<Rightarrow> bool" where
  "argon2_accepts X \<longleftrightarrow> (\<forall>m t pin s. 8 \<le> m \<longrightarrow> 0 < t \<longrightarrow> 8 \<le> length s \<longrightarrow>
     argon2_params_ok X m t 1 \<and> argon2id X m t 1 pin s \<noteq> None)"

lemma wrap_tests:
  shows "aead_correct X \<Longrightarrow> dev_wrap_roundtrip X" and "aead_correct X \<Longrightarrow> argon2_accepts X \<Longrightarrow> pin_wrap_roundtrip X"
    and "ed_correct X \<Longrightarrow> signature_verifies X"
proof -
  show "aead_correct X \<Longrightarrow> dev_wrap_roundtrip X" by (simp add: dev_wrap_roundtrip_def unwrap_wrap)
  show "ed_correct X \<Longrightarrow> signature_verifies X"
    by (simp add: signature_verifies_def ed_correct_def public_bytes_def ca_sign_def Let_def)
  assume a: "aead_correct X" "argon2_accepts X"
  have "argon2_params_ok X 32 2 1 \<and> argon2id X 32 2 1 (as_bytes ''correct horse'') (replicate 16 0xAB) \<noteq> None"
    using a(2) [unfolded argon2_accepts_def, rule_format, of 32 2 "replicate 16 0xAB" "as_bytes ''correct horse''"] by simp
  then show "pin_wrap_roundtrip X" using a(1) by (auto simp: pin_wrap_roundtrip_def pin_kek_def test_params_def unwrap_wrap)
qed

end
