(* ===== verification/WireTests.thy ===== *)
theory WireTests
  imports CoreTests
begin

text \<open>
  The unit tests of the key parser (\<^verbatim>\<open>sshwire.rs\<close>), the request validation (\<^verbatim>\<open>validate.rs\<close>) and the certificate
  builder (\<^verbatim>\<open>cert.rs\<close>), run on the model. The base64 codec stays a parameter: the lines of the tests are
  words of printable characters, and the parser is shown to see exactly these words.
\<close>

section \<open>Lines of printable words\<close>

definition graphic :: "char \<Rightarrow> bool" where
  "graphic c \<longleftrightarrow> 33 \<le> (of_char c :: nat) \<and> (of_char c :: nat) \<le> 126"

lemma ws_len_graphic [simp]: "graphic c \<Longrightarrow> ws_len (c # s) = 0" "graphic c \<Longrightarrow> ws_len_rev (c # s) = 0"
  by (auto simp: graphic_def ws_len_def ws_len_rev_def ws1_def ws2_def ws3_def split: list.splits)

lemma ws_len_space [simp]: "ws_len (CHR '' '' # s) = 1"
  by (simp add: ws_len_def ws1_def)

lemma trim_graphic:
  assumes "s \<noteq> []" and "graphic (hd s)" and "graphic (last s)"
  shows "trim s = s"
proof -
  obtain c t where s: "s = c # t" using assms(1) by (cases s) auto
  obtain d u where r: "rev s = d # u" using assms(1) by (cases "rev s") auto
  have "d = last s" using r by (metis list.sel(1) hd_rev)
  then have "trim_rev (rev s) = rev s" using assms(3) by (subst trim_rev.simps) (simp add: r)
  moreover have "trim_start s = s" using assms(2) by (subst trim_start.simps) (simp add: s)
  ultimately show ?thesis by (simp add: trim_def)
qed

lemma split_ws_word: "list_all graphic w \<Longrightarrow> split_ws acc (w @ s) = split_ws (acc @ w) s"
proof (induction w arbitrary: acc)
  case (Cons c w)
  then show ?case by (subst split_ws.simps) simp
qed simp

definition word :: "string \<Rightarrow> bool" where
  "word w \<longleftrightarrow> w \<noteq> [] \<and> list_all graphic w"

definition words_line :: "string \<Rightarrow> string list \<Rightarrow> string" where
  "words_line w ws = w @ concat (map (\<lambda>v. '' '' @ v) ws)"

lemma split_ws_words: "word w \<Longrightarrow> list_all word ws \<Longrightarrow> split_ws [] (words_line w ws) = w # ws"
proof (induction ws arbitrary: w)
  case Nil
  then show ?case using split_ws_word [of w "[]" "[]"] by (simp add: words_line_def word_def split_ws.simps [of w "[]"])
next
  case (Cons v ws)
  have "split_ws [] (words_line w (v # ws)) = split_ws w (CHR '' '' # words_line v ws)"
    using Cons.prems split_ws_word [of w "[]"] by (simp add: words_line_def word_def)
  also have "\<dots> = w # split_ws [] (words_line v ws)"
    using Cons.prems by (subst split_ws.simps) (simp add: word_def)
  finally show ?case using Cons by simp
qed

lemma hd_words_line: "word w \<Longrightarrow> words_line w ws \<noteq> [] \<and> graphic (hd (words_line w ws))"
  by (cases w) (simp_all add: words_line_def word_def)

lemma last_words_line: "word w \<Longrightarrow> list_all word ws \<Longrightarrow> graphic (last (words_line w ws))"
proof (induction ws arbitrary: w)
  case Nil
  then show ?case by (simp add: words_line_def word_def list_all_iff)
next
  case (Cons v ws)
  have "last (words_line w (v # ws)) = last (words_line v ws)"
    using hd_words_line [of v ws] Cons.prems by (simp add: words_line_def word_def)
  then show ?case using Cons by simp
qed

lemma trim_words_line: "word w \<Longrightarrow> list_all word ws \<Longrightarrow> trim (words_line w ws) = words_line w ws"
  using trim_graphic hd_words_line last_words_line by blast

lemma lines_acc_text: "CHR 0x0A \<notin> set t \<Longrightarrow> lines_acc acc (t @ s) = lines_acc (acc @ t) s"
  by (induction t arbitrary: acc) auto

lemma words_line_chars: "word w \<Longrightarrow> list_all word ws \<Longrightarrow> c \<in> set (words_line w ws) \<Longrightarrow> graphic c \<or> c = CHR '' ''"
  by (auto simp: words_line_def word_def list_all_iff split: if_splits)

lemma words_line_no_newline: "word w \<Longrightarrow> list_all word ws \<Longrightarrow> CHR 0x0A \<notin> set (words_line w ws)"
  using words_line_chars [of w ws "CHR 0x0A"] by (auto simp: graphic_def)

lemma str_lines_words: "word w \<Longrightarrow> list_all word ws \<Longrightarrow> str_lines (words_line w ws) = [words_line w ws]"
  using lines_acc_text [OF words_line_no_newline, of w ws "[]" "[]"] hd_words_line [of w ws] by (simp add: str_lines_def)

section \<open>Parsing a key line\<close>

text \<open>The text of the base64 encoder consists of printable characters and is empty only for no bytes.\<close>

definition base64_text :: "'r externs \<Rightarrow> bool" where
  "base64_text X \<longleftrightarrow> (\<forall>b. list_all graphic (base64_encode X b) \<and> (b \<noteq> [] \<longrightarrow> base64_encode X b \<noteq> []))"

lemma cert_algo_word: "cert_algo_for a \<noteq> None \<Longrightarrow> word a"
  by (auto simp: cert_algo_for_def word_def graphic_def split: if_splits)

lemma parse_words_line:
  assumes "word w" and "list_all word ws"
  shows "parse_authorized_key X W (words_line w ws) =
    (case locate_type 0 (w # ws) of
       Inl e \<Rightarrow> Some (Inl e)
     | Inr None \<Rightarrow> Some (Inl Parse)
     | Inr (Some idx) \<Rightarrow>
         if idx > 0 then Some (Inl Options)
         else if ws = [] then Some (Inl Parse)
         else case b64_decode X (hd ws) of
             Inl e \<Rightarrow> Some (Inl e)
           | Inr blob \<Rightarrow> (case cert_algo_for w of None \<Rightarrow> None | Some ca \<Rightarrow> parse_blob X W w ca blob))"
proof -
  have ne: "words_line w ws \<noteq> []" using hd_words_line [OF assms(1)] by blast
  have p: "parse_authorized_key X W (words_line w ws) =
    (case locate_type 0 (w # ws) of
       Inl e \<Rightarrow> Some (Inl e)
     | Inr None \<Rightarrow> Some (Inl Parse)
     | Inr (Some idx) \<Rightarrow>
         if idx > 0 then Some (Inl Options)
         else if length (w # ws) \<le> idx + 1 then Some (Inl Parse)
         else case b64_decode X ((w # ws) ! (idx + 1)) of
             Inl e \<Rightarrow> Some (Inl e)
           | Inr blob \<Rightarrow> (case cert_algo_for ((w # ws) ! idx) of None \<Rightarrow> None | Some ca \<Rightarrow> parse_blob X W ((w # ws) ! idx) ca blob))"
    unfolding parse_authorized_key_def Let_def str_lines_words [OF assms] trim_words_line [OF assms] split_whitespace_def
      split_ws_words [OF assms]
    using ne trim_words_line [OF assms] by (simp del: locate_type.simps)
  show ?thesis
  proof (cases "locate_type 0 (w # ws)")
    case (Inr i)
    then show ?thesis unfolding p by (cases i; cases ws) (auto simp del: locate_type.simps split: sum.split option.split)
  qed (simp add: p del: locate_type.simps)
qed

lemma parse_key_line:
  assumes "base64_correct X" and "base64_text X" and "cert_algo_for a = Some ca" and "blob \<noteq> []" and "list_all word ws"
  shows "parse_authorized_key X W (words_line a (b64_encode X blob # ws)) = parse_blob X W a ca blob"
proof -
  have "word (b64_encode X blob)" using assms(2,4) by (simp add: base64_text_def b64_encode_def word_def)
  moreover have "word a" using assms(3) cert_algo_word by simp
  ultimately show ?thesis
    using assms(1,3,5) by (subst parse_words_line) (simp_all add: b64_decode_def b64_encode_def base64_correct_def)
qed

lemma read_first:
  assumes "length s < 2 ^ 32" and "4 + length s < 2 ^ W"
  shows "read_string W (reader_new (ssh_string s @ post)) = Some (Inr s, \<lparr> r_buf = ssh_string s @ post, r_pos = 4 + length s \<rparr>)"
  using read_string_put [of s "[]" W post] assms by (simp add: reader_new_def)

lemma parse_blob_ed25519:
  assumes "8 \<le> W" and "length pk = 32"
  shows "parse_blob X W ''ssh-ed25519'' ca (ssh_string (as_bytes ''ssh-ed25519'') @ ssh_string pk @ post) =
    (if post = [] then Some (Inr \<lparr> algo = ''ssh-ed25519'', cert_algo = ca, key_body = ssh_string pk, kind = Ed25519 \<rparr>)
     else Some (Inl Trailing))"
proof -
  have W: "(2 :: nat) ^ 8 \<le> 2 ^ W" using assms(1) by (rule power_increasing) simp
  have 1: "read_string W (reader_new (ssh_string (as_bytes ''ssh-ed25519'') @ ssh_string pk @ post))
      = Some (Inr (as_bytes ''ssh-ed25519''), \<lparr> r_buf = ssh_string (as_bytes ''ssh-ed25519'') @ ssh_string pk @ post, r_pos = 15 \<rparr>)"
    using W by (subst read_first) simp_all
  have 2: "read_string W \<lparr> r_buf = ssh_string (as_bytes ''ssh-ed25519'') @ ssh_string pk @ post, r_pos = 15 \<rparr>
      = Some (Inr pk, \<lparr> r_buf = ssh_string (as_bytes ''ssh-ed25519'') @ ssh_string pk @ post, r_pos = 51 \<rparr>)"
    using read_string_put [of pk "ssh_string (as_bytes ''ssh-ed25519'')" W post] W assms(2) by simp
  show ?thesis
    using assms(2) by (simp add: parse_blob_def parse_key_kind_def parse_ed25519_def read_then_def try_then_def 1 2 reader_is_empty_def Let_def)
qed

section \<open>SSH wire format\<close>

definition put_string_frames_length :: bool where
  "put_string_frames_length = (put_string [] (as_bytes ''abc'') = [0, 0, 0, 3] @ as_bytes ''abc'')"

definition positive_mpint_validation_rejects_noncanonical_values :: bool where
  "positive_mpint_validation_rejects_noncanonical_values \<longleftrightarrow>
     positive_mpint_bit_len [0x00, 0xFF] = Some (Some 8) \<and> positive_mpint_bit_len [0x01, 0x00] = Some (Some 9)
     \<and> positive_mpint_bit_len [] = Some None \<and> positive_mpint_bit_len [0x00] = Some None
     \<and> positive_mpint_bit_len [0x00, 0x7F] = Some None \<and> positive_mpint_bit_len [0x80] = Some None"

definition rsa_line :: "'r externs \<Rightarrow> bytes \<Rightarrow> string" where
  "rsa_line X exponent =
     (let blob1 = put_string [] (as_bytes ''ssh-rsa'');
          blob2 = put_string blob1 exponent;
          blob3 = put_string blob2 [1, 0, 1]
      in ''ssh-rsa '' @ b64_encode X blob3)"

definition rsa_rejects_invalid_public_exponents :: "'r externs \<Rightarrow> nat \<Rightarrow> bool" where
  "rsa_rejects_invalid_public_exponents X W \<longleftrightarrow>
     list_all (\<lambda>exponent. \<exists>m. parse_authorized_key X W (rsa_line X exponent) = Some (Inl (RejectedKey m)))
       [[], [0], [1], [4], [0x80], [0, 3]]
     \<and> (\<exists>pk. parse_authorized_key X W (rsa_line X [1, 0, 1]) = Some (Inr pk))"

definition ed25519_blob :: bytes where
  "ed25519_blob = put_string (put_string [] (as_bytes ''ssh-ed25519'')) (replicate 32 0)"

definition parse_ed25519_roundtrip :: "'r externs \<Rightarrow> nat \<Rightarrow> bool" where
  "parse_ed25519_roundtrip X W =
     (let line = ''ssh-ed25519 '' @ b64_encode X ed25519_blob @ '' comment@host'' in
      case parse_authorized_key X W line of
        Some (Inr pk) \<Rightarrow> algo pk = ''ssh-ed25519'' \<and> cert_algo pk = ''ssh-ed25519-cert-v01@openssh.com''
          \<and> kind pk = Ed25519 \<and> length (key_body pk) = 36
      | _ \<Rightarrow> False)"

definition options_prefix_rejected :: "'r externs \<Rightarrow> nat \<Rightarrow> bool" where
  "options_prefix_rejected X W =
     (let line = ''no-pty ssh-ed25519 '' @ b64_encode X ed25519_blob
      in parse_authorized_key X W line = Some (Inl Options))"

definition trailing_line_rejected :: "'r externs \<Rightarrow> nat \<Rightarrow> bool" where
  "trailing_line_rejected X W =
     (let b = b64_encode X ed25519_blob;
          line = ''ssh-ed25519 '' @ b @ [CHR 0x0A] @ ''ssh-ed25519 '' @ b
      in parse_authorized_key X W line = Some (Inl Trailing))"

definition trailing_bytes_inside_blob_rejected :: "'r externs \<Rightarrow> nat \<Rightarrow> bool" where
  "trailing_bytes_inside_blob_rejected X W =
     (let blob = ed25519_blob @ [0xDE, 0xAD, 0xBE, 0xEF]; line = ''ssh-ed25519 '' @ b64_encode X blob
      in parse_authorized_key X W line = Some (Inl Trailing))"

definition dsa_rejected_not_parse_error :: "'r externs \<Rightarrow> nat \<Rightarrow> bool" where
  "dsa_rejected_not_parse_error X W \<longleftrightarrow>
     (\<exists>m. parse_authorized_key X W ''ssh-dss AAAAB3NzaC1kc3M='' = Some (Inl (RejectedKey m)))"

lemma wire_tests: "put_string_frames_length" "positive_mpint_validation_rejects_noncanonical_values"
  by (simp_all add: put_string_frames_length_def put_string_def put_u32_def to_be_bytes_4
      positive_mpint_validation_rejects_noncanonical_values_def positive_mpint_bit_len_def positive_mpint_magnitude_def
      leading_zeros_def upt_rec)

lemma ed25519_line_as_words: "''ssh-ed25519 '' @ b = words_line ''ssh-ed25519'' [b]"
  by (simp add: words_line_def)

lemma ed25519_line_parses:
  assumes "base64_correct X" and "base64_text X" and "8 \<le> W" and "list_all word ws"
  shows "parse_authorized_key X W (words_line ''ssh-ed25519'' (b64_encode X (ed25519_blob @ post) # ws)) =
    (if post = [] then Some (Inr \<lparr> algo = ''ssh-ed25519'', cert_algo = ''ssh-ed25519-cert-v01@openssh.com'',
       key_body = ssh_string (replicate 32 0), kind = Ed25519 \<rparr>) else Some (Inl Trailing))"
proof -
  have blob: "ed25519_blob @ post = ssh_string (as_bytes ''ssh-ed25519'') @ ssh_string (replicate 32 0) @ post"
    by (simp add: ed25519_blob_def put_simps)
  have ca: "cert_algo_for ''ssh-ed25519'' = Some ''ssh-ed25519-cert-v01@openssh.com''" by (simp add: cert_algo_for_def)
  have ne: "ed25519_blob @ post \<noteq> []" by (simp add: blob ssh_string_def)
  show ?thesis
    using parse_key_line [OF assms(1,2) ca ne assms(4), of W] parse_blob_ed25519 [OF assms(3), of "replicate 32 0" X _ post]
    by (simp add: blob)
qed

lemma key_line_tests:
  assumes "base64_correct X" and "base64_text X" and "8 \<le> W"
  shows "parse_ed25519_roundtrip X W" "options_prefix_rejected X W" "trailing_line_rejected X W"
    "trailing_bytes_inside_blob_rejected X W" "dsa_rejected_not_parse_error X W"
proof -
  note parses = ed25519_line_parses [OF assms]
  let ?b = "b64_encode X ed25519_blob"
  have b: "word ?b" using assms(2) by (simp add: base64_text_def b64_encode_def word_def ed25519_blob_def put_simps ssh_string_def)
  have lit: "word ''ssh-ed25519''" "word ''no-pty''" "word ''comment@host''" "word ''ssh-dss''" "word ''AAAAB3NzaC1kc3M=''"
    by (simp_all add: word_def graphic_def)
  have "''ssh-ed25519 '' @ ?b @ '' comment@host'' = words_line ''ssh-ed25519'' [?b, ''comment@host'']" by (simp add: words_line_def)
  then show "parse_ed25519_roundtrip X W"
    using parses [of "[''comment@host'']" "[]"] lit by (simp add: parse_ed25519_roundtrip_def)
  have "''no-pty ssh-ed25519 '' @ ?b = words_line ''no-pty'' [''ssh-ed25519'', ?b]" by (simp add: words_line_def)
  moreover have "parse_authorized_key X W (words_line ''no-pty'' [''ssh-ed25519'', ?b]) = Some (Inl Options)"
    using b lit by (subst parse_words_line) (simp_all add: cert_algo_for_def is_known_unsupported_def)
  ultimately show "options_prefix_rejected X W" by (simp add: options_prefix_rejected_def)
  show "trailing_bytes_inside_blob_rejected X W"
    using parses [of "[]" "[0xDE, 0xAD, 0xBE, 0xEF]"]
    unfolding trailing_bytes_inside_blob_rejected_def Let_def ed25519_line_as_words by simp
  have "''ssh-dss AAAAB3NzaC1kc3M='' = words_line ''ssh-dss'' [''AAAAB3NzaC1kc3M='']" by (simp add: words_line_def)
  moreover have "parse_authorized_key X W (words_line ''ssh-dss'' [''AAAAB3NzaC1kc3M='']) = Some (Inl (RejectedKey (''unsupported public key type: ssh-dss'')))"
    using lit by (subst parse_words_line) (simp_all add: cert_algo_for_def is_known_unsupported_def)
  ultimately show "dsa_rejected_not_parse_error X W" by (simp add: dsa_rejected_not_parse_error_def)
  let ?l = "words_line ''ssh-ed25519'' [?b]"
  have l: "word ''ssh-ed25519''" "list_all word [?b]" using b lit by simp_all
  have "str_lines (?l @ [CHR 0x0A] @ ?l) = strip_cr ?l # str_lines ?l"
    using lines_acc_text [OF words_line_no_newline [OF l], of "[]"] by (simp add: str_lines_def)
  moreover have "strip_cr ?l = ?l" using last_words_line [OF l] by (auto simp: strip_cr_def graphic_def)
  ultimately have "str_lines (?l @ [CHR 0x0A] @ ?l) = [?l, ?l]" using str_lines_words [OF l] by simp
  moreover have "trim ?l \<noteq> []" using trim_words_line [OF l] hd_words_line [OF l(1), of "[?b]"] by metis
  ultimately have "parse_authorized_key X W (?l @ [CHR 0x0A] @ ?l) = Some (Inl Trailing)"
    unfolding parse_authorized_key_def Let_def by simp
  moreover have "''ssh-ed25519 '' @ ?b @ [CHR 0x0A] @ ''ssh-ed25519 '' @ ?b = ?l @ [CHR 0x0A] @ ?l" by (simp add: words_line_def)
  ultimately show "trailing_line_rejected X W" unfolding trailing_line_rejected_def Let_def by simp
qed

section \<open>RSA keys\<close>

lemma parse_blob_rsa:
  assumes "length e < 2 ^ 32" and "length n < 2 ^ 32" and "19 + length e + length n < 2 ^ W"
  shows "parse_blob X W ''ssh-rsa'' ca (ssh_string (as_bytes ''ssh-rsa'') @ ssh_string e @ ssh_string n) =
    (case positive_mpint_u64 e of
       None \<Rightarrow> Some (Inl (RejectedKey ''malformed RSA public exponent''))
     | Some v \<Rightarrow>
         if v < 3 \<or> v mod 2 = 0 then Some (Inl (RejectedKey ''RSA public exponent must be an odd integer >= 3''))
         else case positive_mpint_bit_len n of
             None \<Rightarrow> None
           | Some None \<Rightarrow> Some (Inl (RejectedKey ''malformed RSA modulus''))
           | Some (Some bits) \<Rightarrow> Some (Inr \<lparr> algo = ''ssh-rsa'', cert_algo = ca, key_body = ssh_string e @ ssh_string n, kind = Rsa bits \<rparr>))"
proof -
  let ?a = "ssh_string (as_bytes ''ssh-rsa'')"
  let ?b = "?a @ ssh_string e @ ssh_string n"
  have 1: "read_string W (reader_new ?b) = Some (Inr (as_bytes ''ssh-rsa''), \<lparr> r_buf = ?b, r_pos = 11 \<rparr>)"
    using assms(3) by (subst read_first) simp_all
  have 2: "read_string W \<lparr> r_buf = ?b, r_pos = 11 \<rparr> = Some (Inr e, \<lparr> r_buf = ?b, r_pos = 15 + length e \<rparr>)"
    using read_string_put [of e ?a W "ssh_string n"] assms by simp
  have 3: "read_string W \<lparr> r_buf = ?b, r_pos = 15 + length e \<rparr> = Some (Inr n, \<lparr> r_buf = ?b, r_pos = 19 + length e + length n \<rparr>)"
    using read_string_put [of n "?a @ ssh_string e" W "[]"] assms by simp
  show ?thesis
    by (simp add: parse_blob_def parse_key_kind_def parse_rsa_def read_then_def try_then_def 1 2 3 reader_is_empty_def Let_def
        split: option.split)
qed

lemma rsa_blob_parses:
  assumes "base64_correct X" and "base64_text X" and "length e < 2 ^ 32" and "length n < 2 ^ 32" and "19 + length e + length n < 2 ^ W"
  shows "parse_authorized_key X W (''ssh-rsa '' @ b64_encode X (ssh_string (as_bytes ''ssh-rsa'') @ ssh_string e @ ssh_string n))
    = parse_blob X W ''ssh-rsa'' ''ssh-rsa-cert-v01@openssh.com'' (ssh_string (as_bytes ''ssh-rsa'') @ ssh_string e @ ssh_string n)"
  using parse_key_line [OF assms(1,2), of "''ssh-rsa''" "''ssh-rsa-cert-v01@openssh.com''"
      "ssh_string (as_bytes ''ssh-rsa'') @ ssh_string e @ ssh_string n" "[]" W]
  by (simp add: cert_algo_for_def words_line_def)

lemma rsa_test:
  assumes "base64_correct X" and "base64_text X" and "8 \<le> W"
  shows "rsa_rejects_invalid_public_exponents X W"
proof -
  have W: "(2 :: nat) ^ 8 \<le> 2 ^ W" using assms(3) by (rule power_increasing) simp
  have line: "rsa_line X e = ''ssh-rsa '' @ b64_encode X (ssh_string (as_bytes ''ssh-rsa'') @ ssh_string e @ ssh_string [1, 0, 1])" for e
    by (simp add: rsa_line_def put_simps Let_def)
  have p: "parse_authorized_key X W (rsa_line X e) = (case positive_mpint_u64 e of
       None \<Rightarrow> Some (Inl (RejectedKey ''malformed RSA public exponent''))
     | Some v \<Rightarrow> if v < 3 \<or> v mod 2 = 0 then Some (Inl (RejectedKey ''RSA public exponent must be an odd integer >= 3''))
         else Some (Inr \<lparr> algo = ''ssh-rsa'', cert_algo = ''ssh-rsa-cert-v01@openssh.com'',
           key_body = ssh_string e @ ssh_string [1, 0, 1], kind = Rsa 17 \<rparr>))" if "length e \<le> 3" for e
  proof -
    have "positive_mpint_bit_len [1, 0, 1] = Some (Some 17)"
      by (simp add: positive_mpint_bit_len_def positive_mpint_magnitude_def leading_zeros_def upt_rec)
    then show ?thesis
      unfolding line using that W assms(1,2)
      by (subst rsa_blob_parses) (simp_all add: parse_blob_rsa split: option.split)
  qed
  have "positive_mpint_u64 [] = None" "positive_mpint_u64 [0] = None" "positive_mpint_u64 [1] = Some 1" "positive_mpint_u64 [4] = Some 4"
    "positive_mpint_u64 [0x80] = None" "positive_mpint_u64 [0, 3] = None" "positive_mpint_u64 [1, 0, 1] = Some 65537"
    by (simp_all add: positive_mpint_u64_def positive_mpint_magnitude_def)
  then show ?thesis by (simp add: rsa_rejects_invalid_public_exponents_def p)
qed

section \<open>Validation of signing requests\<close>

definition ed25519_line :: "'r externs \<Rightarrow> string" where
  "ed25519_line X =
     (let blob = put_string (put_string [] (as_bytes ''ssh-ed25519'')) (replicate 32 0)
      in ''ssh-ed25519 '' @ b64_encode X blob)"

definition rsa_line_bits :: "'r externs \<Rightarrow> nat \<Rightarrow> string" where
  "rsa_line_bits X bits =
     (let blob1 = put_string [] (as_bytes ''ssh-rsa'');
          blob2 = put_string blob1 [1, 0, 1];
          nbytes = div_ceil bits 8;
          n = (replicate nbytes 0)[0 := 0x80];
          mpint = [0x00] @ n;
          blob3 = put_string blob2 mpint
      in ''ssh-rsa '' @ b64_encode X blob3)"

definition base_req :: "'r externs \<Rightarrow> enclave_signing_request" where
  "base_req X = \<lparr> ssh_key = ed25519_line X, key_id = ''kid'', principals = [''alice''], validity = ''1h'',
     permissions = [], custom_attributes = [], critical_options = [] \<rparr>"

definition accepts_valid_request :: "'r externs \<Rightarrow> nat \<Rightarrow> bool" where
  "accepts_valid_request X W =
     (case validate X W (base_req X) of Some (Inr v) \<Rightarrow> v_duration_ns v = 3600000000000 | _ \<Rightarrow> False)"

definition error_messages_match_cerberus :: "'r externs \<Rightarrow> nat \<Rightarrow> bool" where
  "error_messages_match_cerberus X W =
     list_all (\<lambda>(req, want). validate X W req = Some (Inl want))
       [((base_req X)\<lparr>ssh_key := ''  ''\<rparr>, ''invalid request: SSH key cannot be empty''),
        ((base_req X)\<lparr>key_id := ''''\<rparr>, ''invalid request: KeyID cannot be empty''),
        ((base_req X)\<lparr>validity := ''''\<rparr>, ''invalid request: validity duration cannot be empty''),
        ((base_req X)\<lparr>validity := ''5x''\<rparr>,
         ''invalid request: invalid validity duration format: time: unknown unit \"x\" in duration \"5x\"''),
        ((base_req X)\<lparr>principals := []\<rparr>, ''invalid request: principals cannot be empty''),
        ((base_req X)\<lparr>principals := [''a'', ''  '']\<rparr>, ''invalid request: principal at index 1 cannot be empty''),
        ((base_req X)\<lparr>validity := ''25h''\<rparr>, ''validity duration 25h0m0s exceeds maximum allowed 24h0m0s'')]"

definition too_many_principals :: "'r externs \<Rightarrow> nat \<Rightarrow> bool" where
  "too_many_principals X W =
     (let req = (base_req X)\<lparr>principals := map (\<lambda>i. ''p'' @ show_nat i) [0..<101]\<rparr>
      in validate X W req = Some (Inl ''invalid request: too many principals: 101 (maximum: 100)''))"

definition permissions_custom_collision :: "'r externs \<Rightarrow> nat \<Rightarrow> bool" where
  "permissions_custom_collision X W =
     (let req = base_req X;
          req1 = req\<lparr>permissions := btree_insert ''permit-pty'' '''' (permissions req)\<rparr>;
          req2 = req1\<lparr>custom_attributes := btree_insert ''permit-pty'' ''x'' (custom_attributes req1)\<rparr>
      in validate X W req2
        = Some (Inl ''invalid request: key \"permit-pty\" present in both permissions and custom_attributes''))"

definition rsa_size_policy :: "'r externs \<Rightarrow> nat \<Rightarrow> bool" where
  "rsa_size_policy X W \<longleftrightarrow>
     validate X W ((base_req X)\<lparr>ssh_key := rsa_line_bits X 1024\<rparr>)
       = Some (Inl ''rejected public key: RSA key too small: 1024 bits (minimum 2048)'')
     \<and> (\<exists>v. validate X W ((base_req X)\<lparr>ssh_key := rsa_line_bits X 2048\<rparr>) = Some (Inr v))
     \<and> (\<exists>m. validate X W ((base_req X)\<lparr>ssh_key := rsa_line_bits X 16384\<rparr>)
              = Some (Inl (''rejected public key: RSA key too large'' @ m)))"

definition options_and_trailing_rejected :: "'r externs \<Rightarrow> nat \<Rightarrow> bool" where
  "options_and_trailing_rejected X W =
     (let b = b64_encode X (put_string (put_string [] (as_bytes ''ssh-ed25519'')) (replicate 32 0));
          opt = (base_req X)\<lparr>ssh_key := ''no-pty ssh-ed25519 '' @ b\<rparr>;
          trail = (base_req X)\<lparr>ssh_key := ''ssh-ed25519 '' @ b @ [CHR 0x0A] @ ''ssh-ed25519 '' @ b\<rparr>
      in validate X W opt = Some (Inl ''public key must not carry SSH options'')
        \<and> validate X W trail = Some (Inl ''public key must not carry trailing data''))"

text \<open>The fields of the base request besides the key are in order.\<close>

lemma base_request:
  assumes "trim k \<noteq> []"
  shows "validate_request ((base_req X)\<lparr>ssh_key := k\<rparr>) = Some (Inr 3600000000000)"
proof -
  have "parse_duration ''1h'' = Some (Inr 3600000000000)" by code_simp
  moreover have "trim ''kid'' \<noteq> []" "trim ''1h'' \<noteq> []" "trim ''alice'' \<noteq> []" by code_simp+
  ultimately show ?thesis using assms by (simp add: validate_request_def base_req_def MAX_PRINCIPALS_def btree_keys_def)
qed

lemma validate_key:
  assumes "trim k \<noteq> []" and "parse_authorized_key X W k = Some r"
  shows "validate X W ((base_req X)\<lparr>ssh_key := k\<rparr>) = (case r of
      Inl e \<Rightarrow> Some (Inl (map_key_error e))
    | Inr pk \<Rightarrow> (case validate_public_key (kind pk) of
        Inl m \<Rightarrow> Some (Inl m)
      | Inr _ \<Rightarrow> Some (Inr \<lparr> v_key = pk, v_duration_ns = 3600000000000, v_extensions = [], v_critical_options = [] \<rparr>)))"
  using base_request [OF assms(1), of X] assms(2)
  by (simp add: validate_def try_then_def base_req_def MAX_VALIDITY_NS_def split: sum.split)

lemma mpint_top_bit:
  assumes "n < 2 ^ 20"
  shows "positive_mpint_bit_len (0 # 0x80 # replicate n 0) = Some (Some (of_nat (8 * n + 8)))"
proof -
  have "Suc n mod 2 ^ 32 = Suc n" using assms by (intro mod_less) simp
  then show ?thesis
    using assms by (simp add: positive_mpint_bit_len_def positive_mpint_magnitude_def leading_zeros_def upt_rec Let_def)
qed

lemma rsa_bits_parses:
  assumes "base64_correct X" and "base64_text X" and "13 \<le> W" and "m \<le> 2048" and "0 < m"
  shows "\<exists>body. parse_authorized_key X W (rsa_line_bits X (8 * m))
    = Some (Inr \<lparr> algo = ''ssh-rsa'', cert_algo = ''ssh-rsa-cert-v01@openssh.com'', key_body = body, kind = Rsa (of_nat (8 * m)) \<rparr>)"
    and "trim (rsa_line_bits X (8 * m)) \<noteq> []"
proof -
  have W: "(2 :: nat) ^ 13 \<le> 2 ^ W" using assms(3) by (rule power_increasing) simp
  obtain n where m: "m = Suc n" using assms(5) by (cases m) auto
  let ?n = "0 # 0x80 # replicate n (0 :: 8 word)"
  let ?blob = "ssh_string (as_bytes ''ssh-rsa'') @ ssh_string [1, 0, 1] @ ssh_string ?n"
  have "div_ceil (8 * m) 8 = Suc n" by (simp add: div_ceil_def m)
  then have line: "rsa_line_bits X (8 * m) = ''ssh-rsa '' @ b64_encode X ?blob"
    by (simp add: rsa_line_bits_def put_simps Let_def)
  have e: "positive_mpint_u64 [1, 0, 1] = Some 65537" by (simp add: positive_mpint_u64_def positive_mpint_magnitude_def)
  show "\<exists>body. parse_authorized_key X W (rsa_line_bits X (8 * m))
    = Some (Inr \<lparr> algo = ''ssh-rsa'', cert_algo = ''ssh-rsa-cert-v01@openssh.com'', key_body = body, kind = Rsa (of_nat (8 * m)) \<rparr>)"
    unfolding line using W assms(1,2,4)
    by (subst rsa_blob_parses) (simp_all add: parse_blob_rsa e mpint_top_bit m)
  have "word (b64_encode X ?blob)" using assms(2) by (simp add: base64_text_def b64_encode_def word_def ssh_string_def)
  moreover have "word ''ssh-rsa''" by (simp add: word_def graphic_def)
  moreover have "rsa_line_bits X (8 * m) = words_line ''ssh-rsa'' [b64_encode X ?blob]" by (simp add: line words_line_def)
  ultimately show "trim (rsa_line_bits X (8 * m)) \<noteq> []"
    using trim_words_line [of "''ssh-rsa''" "[b64_encode X ?blob]"] hd_words_line [of "''ssh-rsa''" "[b64_encode X ?blob]"] by simp
qed

lemma request_tests:
  assumes "base64_correct X" and "base64_text X" and "13 \<le> W"
  shows "accepts_valid_request X W" "rsa_size_policy X W" "options_and_trailing_rejected X W"
proof -
  have W: "8 \<le> W" using assms(3) by simp
  let ?b = "b64_encode X ed25519_blob" and ?l = "words_line ''ssh-ed25519'' [b64_encode X ed25519_blob]"
  have b: "word ?b" "word ''ssh-ed25519''" "word ''no-pty''"
    using assms(2) by (simp_all add: base64_text_def b64_encode_def word_def graphic_def ed25519_blob_def put_simps ssh_string_def)
  have line: "ed25519_line X = ?l" by (simp add: ed25519_line_def ed25519_blob_def words_line_def Let_def)
  have t: "trim ?l \<noteq> []" using trim_words_line [of "''ssh-ed25519''" "[?b]"] hd_words_line [of "''ssh-ed25519''" "[?b]"] b by simp
  have same: "(base_req X)\<lparr>ssh_key := ed25519_line X\<rparr> = base_req X" by (simp add: base_req_def)
  have p: "parse_authorized_key X W ?l = Some (Inr \<lparr> algo = ''ssh-ed25519'', cert_algo = ''ssh-ed25519-cert-v01@openssh.com'',
       key_body = ssh_string (replicate 32 0), kind = Ed25519 \<rparr>)"
    using ed25519_line_parses [OF assms(1,2) W, of "[]" "[]"] by simp
  show "accepts_valid_request X W"
    using validate_key [OF t p] same line by (simp add: accepts_valid_request_def)
  note r = rsa_bits_parses [OF assms]
  have s: "show_nat (unat (1024 :: u32)) = ''1024''" "show_nat (unat MIN_RSA_BITS) = ''2048''" 
    by (simp_all add: MIN_RSA_BITS_def show_nat.simps digit_char_def char_of_eq_iff)
  have "\<exists>body. parse_authorized_key X W (rsa_line_bits X 1024) = Some (Inr \<lparr> algo = ''ssh-rsa'', cert_algo = ''ssh-rsa-cert-v01@openssh.com'',
      key_body = body, kind = Rsa 1024 \<rparr>)" "trim (rsa_line_bits X 1024) \<noteq> []" using r [of 128] by simp_all
  then have small: "validate X W ((base_req X)\<lparr>ssh_key := rsa_line_bits X 1024\<rparr>)
      = Some (Inl ''rejected public key: RSA key too small: 1024 bits (minimum 2048)'')"
    using s by (auto simp: validate_key MIN_RSA_BITS_def)
  have "\<exists>body. parse_authorized_key X W (rsa_line_bits X 2048) = Some (Inr \<lparr> algo = ''ssh-rsa'', cert_algo = ''ssh-rsa-cert-v01@openssh.com'',
      key_body = body, kind = Rsa 2048 \<rparr>)" "trim (rsa_line_bits X 2048) \<noteq> []" using r [of 256] by simp_all
  then have fine: "\<exists>v. validate X W ((base_req X)\<lparr>ssh_key := rsa_line_bits X 2048\<rparr>) = Some (Inr v)"
    by (auto simp: validate_key MIN_RSA_BITS_def MAX_RSA_BITS_def)
  have "\<exists>body. parse_authorized_key X W (rsa_line_bits X 16384) = Some (Inr \<lparr> algo = ''ssh-rsa'', cert_algo = ''ssh-rsa-cert-v01@openssh.com'',
      key_body = body, kind = Rsa 16384 \<rparr>)" "trim (rsa_line_bits X 16384) \<noteq> []" using r [of 2048] by simp_all
  then have big: "\<exists>m. validate X W ((base_req X)\<lparr>ssh_key := rsa_line_bits X 16384\<rparr>) = Some (Inl (''rejected public key: RSA key too large'' @ m))"
    by (auto simp: validate_key MIN_RSA_BITS_def MAX_RSA_BITS_def)
  from small fine big show "rsa_size_policy X W" by (simp add: rsa_size_policy_def)
  note k = key_line_tests [OF assms(1,2) W]
  have "trim (words_line ''no-pty'' [''ssh-ed25519'', ?b]) \<noteq> []"
    using trim_words_line [of "''no-pty''" "[''ssh-ed25519'', ?b]"] hd_words_line [of "''no-pty''" "[''ssh-ed25519'', ?b]"] b by simp
  then have o: "trim (''no-pty ssh-ed25519 '' @ ?b) \<noteq> []" by (simp add: words_line_def)
  have "trim (?l @ [CHR 0x0A] @ ?l) = ?l @ [CHR 0x0A] @ ?l"
    using hd_words_line [of "''ssh-ed25519''" "[?b]"] last_words_line [of "''ssh-ed25519''" "[?b]"] b by (intro trim_graphic) auto
  then have tr: "trim (''ssh-ed25519 '' @ ?b @ [CHR 0x0A] @ ''ssh-ed25519 '' @ ?b) \<noteq> []" by (simp add: words_line_def)
  show "options_and_trailing_rejected X W"
    using validate_key [OF o k(2) [unfolded options_prefix_rejected_def Let_def]]
      validate_key [OF tr k(3) [unfolded trailing_line_rejected_def Let_def]]
    unfolding options_and_trailing_rejected_def Let_def ed25519_blob_def by simp
qed

lemma message_tests:
  assumes "base64_correct X" and "base64_text X" and "8 \<le> W"
  shows "error_messages_match_cerberus X W" "too_many_principals X W" "permissions_custom_collision X W"
proof -
  let ?b = "b64_encode X ed25519_blob"
  have "word ?b" "word ''ssh-ed25519''"
    using assms(2) by (simp_all add: base64_text_def b64_encode_def word_def graphic_def ed25519_blob_def put_simps ssh_string_def)
  moreover have l: "ed25519_line X = words_line ''ssh-ed25519'' [?b]" by (simp add: ed25519_line_def ed25519_blob_def words_line_def Let_def)
  ultimately have t: "trim (ed25519_line X) \<noteq> []"
    using trim_words_line [of "''ssh-ed25519''" "[?b]"] hd_words_line [of "''ssh-ed25519''" "[?b]"] by simp
  have trims: "trim ''  '' = []" "trim [] = []" "trim ''kid'' \<noteq> []" "trim ''1h'' \<noteq> []" "trim ''25h'' \<noteq> []" "trim ''5x'' \<noteq> []"
      "trim ''alice'' \<noteq> []" "trim ''a'' \<noteq> []" by code_simp+
  have dur: "parse_duration ''1h'' = Some (Inr 3600000000000) \<and> parse_duration ''25h'' = Some (Inr 90000000000000)
      \<and> parse_duration ''5x'' = Some (Inl ''time: unknown unit \"x\" in duration \"5x\"'')" by code_simp
  have fmt: "format_duration 90000000000000 = Some ''25h0m0s'' \<and> format_duration MAX_VALIDITY_NS = Some ''24h0m0s''" by code_simp
  have q: "quote ''permit-pty'' = ''\"permit-pty\"''" by code_simp
  obtain pk where p: "parse_authorized_key X W (ed25519_line X) = Some (Inr pk)" "kind pk = Ed25519"
    using ed25519_line_parses [OF assms, of "[]" "[]"] by (simp add: l)
  show "error_messages_match_cerberus X W"
    using t trims dur fmt p
    by (simp add: error_messages_match_cerberus_def validate_def validate_request_def base_req_def try_then_def MAX_PRINCIPALS_def
        btree_keys_def show_nat.simps digit_char_def char_of_eq_iff MAX_VALIDITY_NS_def)
  have "show_nat 101 = ''101''" "show_nat MAX_PRINCIPALS = ''100''"
    by (simp_all add: show_nat.simps digit_char_def char_of_eq_iff MAX_PRINCIPALS_def)
  then show "too_many_principals X W"
    using t trims dur by (simp add: too_many_principals_def validate_def validate_request_def base_req_def try_then_def MAX_PRINCIPALS_def)
  show "permissions_custom_collision X W"
    using t trims dur q by (simp add: permissions_custom_collision_def validate_def validate_request_def base_req_def try_then_def MAX_PRINCIPALS_def
      btree_keys_def btree_contains_key_def Let_def)
qed

section \<open>Certificates\<close>

definition ed25519_key_body :: bytes where
  "ed25519_key_body = put_string [] (replicate 32 0x11)"

definition certificate_structure_roundtrips :: "'r externs \<Rightarrow> nat \<Rightarrow> bool" where
  "certificate_structure_roundtrips X W =
     (let ca = ca_from_seed (replicate 32 9);
          exts = btree_insert ''permit-pty'' '''' [];
          crit = btree_insert ''force-command'' ''/bin/true'' [];
          params = \<lparr> cp_cert_algo = ''ssh-ed25519-cert-v01@openssh.com'', cp_key_body = ed25519_key_body,
            cp_nonce = replicate 32 0xAA, cp_serial = 0x0102030405060708, cp_key_id = ''test-key'',
            cp_principals = [''alice'', ''bob''], cp_valid_after = 1000, cp_valid_before = 2000,
            cp_critical_options = crit, cp_extensions = exts \<rparr>;
          line = build_certificate X params ca;
          algo = takeWhile (\<lambda>c. c \<noteq> CHR '' '') line;
          b64 = drop (length algo + 1) line
      in algo = ''ssh-ed25519-cert-v01@openssh.com''
        \<and> (case b64_decode X b64 of
             Inl _ \<Rightarrow> False
           | Inr raw \<Rightarrow>
               (case read_string W (reader_new raw) of
                  Some (Inr s1, r1) \<Rightarrow> s1 = as_bytes algo
                    \<and> (case read_string W r1 of
                         Some (Inr s2, r2) \<Rightarrow> length s2 = 32
                           \<and> (case read_string W r2 of Some (Inr s3, r3) \<Rightarrow> s3 = replicate 32 0x11 | _ \<Rightarrow> False)
                       | _ \<Rightarrow> False)
                | _ \<Rightarrow> False)))"

definition empty_maps_produce_empty_blobs :: bool where
  "empty_maps_produce_empty_blobs \<longleftrightarrow> marshal_tuples [] [] = []"

definition flag_extension_is_single_empty_value :: bool where
  "flag_extension_is_single_empty_value =
     (let m = btree_insert ''permit-X11-forwarding'' '''' [];
          expect = put_string [] (as_bytes ''permit-X11-forwarding'') @ [0, 0, 0, 0]
      in marshal_tuples m [] = expect)"

definition valued_option_has_double_length_prefix :: bool where
  "valued_option_has_double_length_prefix =
     (let m = btree_insert ''force-command'' ''ls'' [];
          inner = put_string [] (as_bytes ''ls'');
          expect = put_string (put_string [] (as_bytes ''force-command'')) inner
      in marshal_tuples m [] = expect)"

lemma tuple_tests: "empty_maps_produce_empty_blobs" "flag_extension_is_single_empty_value" "valued_option_has_double_length_prefix"
  by (simp_all add: empty_maps_produce_empty_blobs_def flag_extension_is_single_empty_value_def
      valued_option_has_double_length_prefix_def put_simps ssh_string_def to_be_bytes_4)

lemma three_strings:
  fixes post :: bytes
  assumes "7 \<le> W" and "length a \<le> 32" and "length b \<le> 32" and "length c \<le> 32"
  defines "raw \<equiv> ssh_string a @ ssh_string b @ ssh_string c @ post"
  shows "read_string W (reader_new raw) = Some (Inr a, \<lparr> r_buf = raw, r_pos = 4 + length a \<rparr>)"
    "read_string W \<lparr> r_buf = raw, r_pos = 4 + length a \<rparr> = Some (Inr b, \<lparr> r_buf = raw, r_pos = 8 + length a + length b \<rparr>)"
    "read_string W \<lparr> r_buf = raw, r_pos = 8 + length a + length b \<rparr>
      = Some (Inr c, \<lparr> r_buf = raw, r_pos = 12 + length a + length b + length c \<rparr>)"
proof -
  have W: "(2 :: nat) ^ 7 \<le> 2 ^ W" using assms(1) by (rule power_increasing) simp
  show "read_string W (reader_new raw) = Some (Inr a, \<lparr> r_buf = raw, r_pos = 4 + length a \<rparr>)"
    "read_string W \<lparr> r_buf = raw, r_pos = 4 + length a \<rparr> = Some (Inr b, \<lparr> r_buf = raw, r_pos = 8 + length a + length b \<rparr>)"
    "read_string W \<lparr> r_buf = raw, r_pos = 8 + length a + length b \<rparr>
      = Some (Inr c, \<lparr> r_buf = raw, r_pos = 12 + length a + length b + length c \<rparr>)"
    using read_first [of a W "ssh_string b @ ssh_string c @ post"] read_string_put [of b "ssh_string a" W "ssh_string c @ post"]
      read_string_put [of c "ssh_string a @ ssh_string b" W post] W assms(2-4)
    by (simp_all add: raw_def ac_simps)
qed

lemma certificate_test:
  assumes "base64_correct X" and "7 \<le> W"
  shows "certificate_structure_roundtrips X W"
proof -
  define algo where "algo = ''ssh-ed25519-cert-v01@openssh.com''"
  define params where "params = \<lparr> cp_cert_algo = algo, cp_key_body = ed25519_key_body,
            cp_nonce = replicate 32 0xAA, cp_serial = 0x0102030405060708, cp_key_id = ''test-key'',
            cp_principals = [''alice'', ''bob''], cp_valid_after = 1000, cp_valid_before = 2000,
            cp_critical_options = btree_insert ''force-command'' ''/bin/true'' [], cp_extensions = btree_insert ''permit-pty'' '''' [] \<rparr>"
  let ?ca = "ca_from_seed (replicate 32 9)"
  obtain post where "put_string (cert_tbs X params ?ca) (signature_blob X ?ca (cert_tbs X params ?ca))
      = ssh_string (as_bytes algo) @ ssh_string (replicate 32 0xAA) @ ssh_string (replicate 32 0x11) @ post" (is "_ = ?raw")
    by (simp add: cert_tbs_def params_def ed25519_key_body_def put_simps Let_def)
  then have line: "build_certificate X params ?ca = algo @ '' '' @ base64_encode X ?raw"
    by (simp add: build_certificate_def params_def b64_encode_def Let_def)
  have len: "length (as_bytes algo) \<le> 32" by (simp add: algo_def)
  have tw: "takeWhile (\<lambda>c. c \<noteq> CHR '' '') (algo @ '' '' @ s) = algo" for s by (simp add: algo_def)
  have dec: "b64_decode X (base64_encode X ?raw) = Inr ?raw" using assms(1) by (simp add: b64_decode_def base64_correct_def)
  note r = three_strings [OF assms(2) len, of "replicate 32 0xAA" "replicate 32 0x11" post, simplified]
  show ?thesis
    unfolding certificate_structure_roundtrips_def Let_def params_def [unfolded algo_def, symmetric] line tw
    using r dec by (simp add: algo_def)
qed

section \<open>All tests\<close>

text \<open>All of them together, with the crates constrained only by their documented behaviour and for any width of
  \<^verbatim>\<open>usize\<close> from 13 bits on.\<close>

lemma unit_tests_hold:
  assumes "crc_detects_byte (crc32 X)" and "base64_correct X" and "base64_text X" and "aead_correct X" and "argon2_accepts X"
    and "ed_correct X" and "13 \<le> W"
  shows "unset_returns_none \<and> advances_with_monotonic \<and> first_set_rejects_implausible_values
    \<and> subsequent_set_rejects_large_forward_jump \<and> subsequent_set_rejects_large_backward_jump
    \<and> subsequent_set_allows_small_resync \<and> repeated_resyncs_cannot_ratchet_time_forward
    \<and> ticks_and_resets \<and> partial_tick_counts_fail_closed \<and> backoff_schedule
    \<and> splits_lines_and_trims_cr \<and> reports_oversize
    \<and> parses_go_test_vectors \<and> rejects_with_exact_go_messages \<and> formats_like_go
    \<and> config_roundtrip \<and> keyblob_roundtrip \<and> ab_write_read_latest (crc32 X)
    \<and> time_floor_uses_the_same_power_fail_safe_records (crc32 X)
    \<and> fail_closed_read_distinguishes_erased_from_invalid_records (crc32 X)
    \<and> fail_closed_read_recovers_from_one_invalid_copy (crc32 X) \<and> ab_survives_corrupt_newer_copy (crc32 X)
    \<and> corruption_at_every_offset_never_panics (crc32 X)
    \<and> restore_accepts_legacy_snapshot_with_an_empty_time_journal
    \<and> health_check_rejects_stuck_source \<and> health_check_rejects_biased_source
    \<and> dev_wrap_roundtrip X \<and> pin_wrap_roundtrip X \<and> signature_verifies X
    \<and> put_string_frames_length \<and> positive_mpint_validation_rejects_noncanonical_values
    \<and> rsa_rejects_invalid_public_exponents X W \<and> parse_ed25519_roundtrip X W \<and> options_prefix_rejected X W
    \<and> trailing_line_rejected X W \<and> trailing_bytes_inside_blob_rejected X W \<and> dsa_rejected_not_parse_error X W
    \<and> accepts_valid_request X W \<and> error_messages_match_cerberus X W \<and> too_many_principals X W
    \<and> permissions_custom_collision X W \<and> rsa_size_policy X W \<and> options_and_trailing_rejected X W
    \<and> certificate_structure_roundtrips X W \<and> empty_maps_produce_empty_blobs
    \<and> flag_extension_is_single_empty_value \<and> valued_option_has_double_length_prefix"
proof -
  have W: "7 \<le> W" "8 \<le> W" using assms(7) by simp_all
  note wire = wire_tests tuple_tests rsa_test [OF assms(2,3) W(2)] key_line_tests [OF assms(2,3) W(2)]
    request_tests [OF assms(2,3,7)] message_tests [OF assms(2,3) W(2)] certificate_test [OF assms(2) W(1)]
  note core = clock_tests pin_tests framing_tests duration_tests codec_tests record_tests corruption_tests [OF assms(1)] restore_test
    health_tests wrap_tests(1) [OF assms(4)] wrap_tests(2) [OF assms(4,5)] wrap_tests(3) [OF assms(6)]
  show ?thesis by (intro conjI; (rule core wire))
qed

text \<open>Crates for which all the hypotheses hold: the sample crates with the sum of the bytes as checksum.\<close>

definition checked_externs :: "nat externs" where
  "checked_externs = sample_externs\<lparr>crc32 := \<lambda>bs. sum_list (map ucast bs)\<rparr>"

lemma sum_list_word_update:
  fixes f :: "'a \<Rightarrow> 'b :: len word"
  assumes "i < length xs"
  shows "sum_list (map f (xs[i := x])) = sum_list (map f xs) - f (xs ! i) + f x"
  using assms by (subst (2) id_take_nth_drop [OF assms]) (simp add: upd_conv_take_nth_drop)

lemma checked_externs_ok:
  "crc_detects_byte (crc32 checked_externs)" "base64_correct checked_externs" "base64_text checked_externs"
  "aead_correct checked_externs" "argon2_accepts checked_externs" "ed_correct checked_externs"
proof -
  have "ucast b = (ucast c :: u32) \<longleftrightarrow> b = c" for b c :: u8 by (metis unat_ucast_u8_u32 word_unat_eq_iff)
  then show "crc_detects_byte (crc32 checked_externs)"
    by (simp add: crc_detects_byte_def checked_externs_def sum_list_word_update diff_add_eq)
  have "list_all graphic hex_digits" by code_simp
  then have g: "graphic (hex_digits ! i)" if "i < 16" for i using that by (simp add: list_all_length hex_digits_def)
  have "list_all graphic (hex_encode b)" for b by (induction b) (simp_all add: g u8_nibbles)
  moreover have "hex_encode b \<noteq> []" if "b \<noteq> []" for b using that by (cases b) simp_all
  ultimately show "base64_text checked_externs" by (simp add: base64_text_def checked_externs_def sample_externs_def)
  show "argon2_accepts checked_externs" by (simp add: checked_externs_def argon2_accepts_def sample_externs_def)
  show "base64_correct checked_externs" "aead_correct checked_externs" "ed_correct checked_externs"
    using sample_externs_ok by (simp_all add: checked_externs_def base64_correct_def aead_correct_def ed_correct_def)
qed

lemma unit_tests_on_checked_externs:
  "advances_with_monotonic \<and> ab_survives_corrupt_newer_copy (\<lambda>bs. sum_list (map ucast bs)) \<and> rsa_size_policy checked_externs 32"
  using unit_tests_hold [OF checked_externs_ok, of 32] by (simp add: checked_externs_def)

end
