(* ===== verification/Spec2Isabelle.thy ===== *)
theory Spec2Isabelle
  imports PowerCycle Sim WireTests
begin

text \<open>
  PicoSignet: an SSH certificate authority on a USB device

  The program keeps an Ed25519 CA key on an RP2350 board and signs SSH user certificates over a
  line-based JSON protocol. \<^verbatim>\<open>hsm-core\<close> is the portable core: storage, PIN gate, clock, random generator,
  certificate builder and the request dispatcher. \<^verbatim>\<open>hsm-fw\<close> is the firmware: the HAL of the board and the
  USB transport. \<^verbatim>\<open>hsm-sim\<close> runs the same core on an in-memory HAL. This library models all three.

  \<^bold>\<open>How the program is modelled.\<close> A struct is a record, an enum a datatype, a method a function from
  state to result and state. \<^verbatim>\<open>Result\<close> is the sum \<open>'e + 'a\<close> with \<open>Inl\<close> the error; a panic is \<open>None\<close> of
  an option type around the result. Machine integers are words, with the checked, saturating and wrapping operations
  of the source; lengths and offsets that the source bounds are naturals, and where the width of
  \<^verbatim>\<open>usize\<close> matters (the reader of SSH strings) it is the parameter \<open>pw\<close> of the platform, 32 on the
  device and 64 on the host. A Rust string is the list of its UTF-8 bytes as characters. Secrets are
  values; zeroisation has no effect in the model beyond the fields that are cleared.

  \<^bold>\<open>Parameters.\<close> Code that is not in the repository is a parameter: the crates (record \<open>externs\<close>:
  CRC-32, SHA-512, ChaCha20, Ed25519, HKDF, Argon2id, the AEAD, base64, curve point checks), the JSON
  codec (\<open>from_slice\<close>, \<open>to_vec\<close>), the drivers of flash, OTP, timer, TRNG, glitch detectors and USB class
  of the \<^verbatim>\<open>embassy\<close> crates, and the files and output stream of the simulator. What is relied on
  is a named hypothesis (\<open>lengths_ok\<close>, \<open>aead_correct\<close>, \<open>ed_correct\<close>, \<open>base64_correct\<close>) or a locale, and each
  locale is interpreted on a concrete provider: \<open>flash_store\<close> and \<open>reliable_flash\<close> (Hal) by the in-memory
  flash and, as sublocales of \<open>nor_driver\<close> and \<open>nor_reliable\<close>, by the device flash; \<open>monotonic_clock\<close> by the mock clock and,
  through \<open>running_timer\<close>, by the device timer; \<open>otp_rom\<close> and \<open>otp_reliable\<close> by an array of rows with page locks; \<open>file_store\<close> by a map.

  \<^bold>\<open>The theories, with the files they model.\<close>

  \<^item> Prelude: words, byte order, UTF-8 white space, decimal printing, ordered maps, result types.
  \<^item> Hal, TestHal, Externs (\<^verbatim>\<open>hal.rs\<close>, \<^verbatim>\<open>testhal.rs\<close>): the HAL traits and their contracts, the in-memory HAL, the crates.
  \<^item> Storage, Pin, Clock, LineIo, Rng, Hex (\<^verbatim>\<open>storage.rs\<close>, \<^verbatim>\<open>pin.rs\<close>, \<^verbatim>\<open>clock.rs\<close>, \<^verbatim>\<open>lineio.rs\<close>, \<^verbatim>\<open>rng.rs\<close>, helpers
    of \<^verbatim>\<open>dispatch.rs\<close>): power-fail-safe records, the attempt counter, the wall clock, line framing, the
    generator with its health checks.
  \<^item> SshWire, Keys, Wrap, Cert (\<^verbatim>\<open>sshwire.rs\<close>, \<^verbatim>\<open>keys.rs\<close>, \<^verbatim>\<open>wrap.rs\<close>, \<^verbatim>\<open>cert.rs\<close>): key parsing, the CA key, key wrapping, certificates.
  \<^item> GoDuration, Proto, Validate, DeviceState, Metrics, SelfTest (\<^verbatim>\<open>goduration.rs\<close>, \<^verbatim>\<open>proto.rs\<close>, \<^verbatim>\<open>validate.rs\<close>,
    \<^verbatim>\<open>state.rs\<close>, \<^verbatim>\<open>metrics.rs\<close>, \<^verbatim>\<open>selftest.rs\<close>): durations, messages, the checks on signing requests.
  \<^item> Dispatch (\<^verbatim>\<open>dispatch.rs\<close>): the record \<open>hsm\<close>, \<open>boot\<close>, every handler, \<open>handle_line\<close> and \<open>process_line\<close>.
  \<^item> Session, Device, Signing, PinGate, Guessing, Provisioning, KeyGen, Lifecycle, TimeFloor, Sample: the library over the
    dispatcher. Session has the invariant \<open>hsm_inv\<close> and that every handler keeps it; Device the event system
    \<open>device_step\<close> and its runs \<open>device_run\<close>; PinGate and Provisioning what the PIN operations do to the flash, in the
    locales \<open>hsm_flash\<close> and \<open>hsm_reliable\<close>; Guessing the runs \<open>guess_run\<close> of an attacker without the PIN and \<open>locked_run\<close> of any host after lockout;
    KeyGen key generation and the wiping of the key; Lifecycle the abstract state machine of \<^verbatim>\<open>state.rs\<close>; TimeFloor
    the persisted time; Sample a concrete device for the examples.
  \<^item> FlashHal, OtpSecret, Board (\<^verbatim>\<open>hsm-fw/src/flash_hal.rs\<close>, \<^verbatim>\<open>otp_secret.rs\<close>, \<^verbatim>\<open>time_hal.rs\<close>,
    \<^verbatim>\<open>entropy_hal.rs\<close>, \<^verbatim>\<open>security.rs\<close>, \<^verbatim>\<open>led.rs\<close>): the HAL of the board.
  \<^item> Transport, Usb, PowerCycle (\<^verbatim>\<open>hsm-fw/src/usb.rs\<close>): the boot of the firmware and the protocol task as a step
    relation \<open>usb_run\<close> in which the bus handler may run between any two steps; a power cycle.
  \<^item> Sim (\<^verbatim>\<open>hsm-sim/src/main.rs\<close>): the host simulator.
  \<^item> CoreTests, WireTests: the unit tests of \<^verbatim>\<open>hsm-core/src\<close> as boolean definitions over the model, each proved.

  \<^bold>\<open>What is shown.\<close> In this theory, over every reachable state and across the components: when a
  certificate is issued and what it certifies; that guesses of the PIN are bounded by the retry budget over any mix of
  requests, relocks, waits and power cycles, and that no answer about a PIN is given before the attempt is
  charged; that lockout is final until the recovery gesture, wipes the key where configured, and factory reset erases; that an initialised or changed PIN unlocks
  after a power cycle, to the key generated last; that the time floor survives; that the session invariant holds, that every
  line is answered, and that management commands refine the life cycle. In the component theories:
  power safety and round trips of storage, framing, drift bounds of the clock, soundness and totality of the
  parsers, injectivity of the signed bytes. For the firmware: the device flash keeps the contract the
  core relies on, the OTP secret is whole, provisioned on the first boot, stable, and never taken from a provisioning that lost power
  at any operation, the busy-wait ends, sessions answer every line and relock, and a power cycle keeps the key.

  \<^bold>\<open>Loops and bounds.\<close> Loops are structural recursion or recursion with a measure, so they are total; the retry loops of the
  generator and of the key erasure have the bounds of the source. The busy-wait on the timer is a partial
  function, and it is proved to return on every timer that does not go back and keeps running, however often it is polled. The monotonic clock is read as
  constant during one request, and time passes between requests.

  \<^bold>\<open>Faults.\<close> The contracts \<open>flash_store\<close> and \<open>otp_rom\<close> let every operation fail, with anything left where it wrote. Loss
  of power is a prefix of the flash operations (\<open>ab_write_states\<close>) or an OTP that stops responding after a number of
  operations (\<open>cut_power\<close>). \<open>reliable_flash\<close> and \<open>otp_reliable\<close> add when operations succeed; the latter promises nothing of writes
  to locked pages. What the entropy source delivered is kept in a log (\<open>logged\<close>), which the statement about seeding reads.

  \<^bold>\<open>Over-approximation.\<close> Bus events, reboots and waits may happen between any two steps of the protocol task, in
  particular at points where the task does not yield. A reset into the bootloader is the end of a run.

  \<^bold>\<open>Not modelled.\<close> \<^verbatim>\<open>hsm-fw/src/main.rs\<close> and \<^verbatim>\<open>hsm-fw/build.rs\<close> (heap, boot block and linker set-up), USB
  descriptors and peripheral initialisation in \<^verbatim>\<open>usb.rs\<close>, the WS2812 output, serde attributes (the JSON
  codec is a parameter), the unit tests that go through that codec or check values of the real primitives, the Go host tools, packaging and scripts.
\<close>

section \<open>The session\<close>

text \<open>C3: the invariant of the session. In every state a device can reach by requests, transport resets,
  firmware calls, the passage of time and power cycles, the state agrees with the configured mode;
  the CA key, the wrapping key and its salt are in RAM only while the state allows it (none while
  uninitialised, locked or locked out, all three while unlocked); and the clock is within its bounds.\<close>

theorem session_invariant:
  assumes "device_run P from_slice to_vec h"
  shows "mode_ok (h_state h) (h_config h) \<and> secrets_ok (h_state h) (h_ca h) (h_wrap_kek h) (h_wrap_salt h)
    \<and> clock_inv (now_micros (pm P) (h_mono h)) (h_clock h)"
  using device_run_inv [OF assms] by (simp add: hsm_inv_def)

theorem session_invariant_witness:
  "mode_ok (h_state (relock_on_transport_reset sample_boot)) (h_config (relock_on_transport_reset sample_boot))"
proof -
  have "device_run sample_platform (\<lambda>_. Inl []) (\<lambda>_. None) sample_boot"
    unfolding sample_boot_def by (rule booted)
  then have "device_run sample_platform (\<lambda>_. Inl []) (\<lambda>_. None) (relock_on_transport_reset sample_boot)"
    by (rule stepped) (rule transport_reset)
  from session_invariant [OF this] show ?thesis by blast
qed

text \<open>C6: every request line is answered. In every reachable state the dispatcher returns a response to
  every line, whatever the JSON decoder makes of it, unless the line is a signing request whose key
  text makes the key parser panic.\<close>

theorem every_request_answered:
  assumes "device_run P from_slice to_vec h"
    and "\<forall>q s. from_slice line = Inr q \<and> rq_sign_ssh_key q = Some s
      \<longrightarrow> parse_authorized_key (px P) (pw P) (ssh_key s) \<noteq> None"
  shows "\<exists>out h'. process_line P from_slice to_vec line h = Some (out, h') \<and> hsm_inv P h'"
proof -
  note inv = device_run_inv [OF assms(1)]
  have "process_line P from_slice to_vec line h \<noteq> None"
  proof
    assume "process_line P from_slice to_vec line h = None"
    then obtain q s where "from_slice line = Inr q" "rq_sign_ssh_key q = Some s"
      "parse_authorized_key (px P) (pw P) (ssh_key s) = None"
      by (rule process_line_panics [OF _ inv])
    with assms(2) show False by blast
  qed
  then show ?thesis using process_line_inv [OF _ inv] by fastforce
qed

definition sample_sign :: request where
  "sample_sign = request_default\<lparr>rq_sign_ssh_key := Some sample_request\<rparr>"

lemma sample_boot_run: "device_run sample_platform from_slice to_vec sample_boot"
  unfolding sample_boot_def by (rule booted)

theorem every_request_answered_witness:
  "\<exists>out h'. process_line sample_platform (\<lambda>_. Inr sample_sign) (\<lambda>_. None) [0x7B] sample_boot = Some (out, h')"
proof -
  have "parse_authorized_key sample_externs 64 (ssh_key sample_request) \<noteq> None"
    by (simp add: sample_request_def sample_key_parses)
  then show ?thesis
    using every_request_answered [OF sample_boot_run, of "\<lambda>_. Inr sample_sign" "[0x7B]" "\<lambda>_. None"]
    by (auto simp: sample_sign_def)
qed

text \<open>C5: management commands refine the abstract life cycle: a request changes the state only along a
  transition of \<open>lifecycle\<close> for the command it carries. In particular only an unlock request reaches the
  unlocked state, and a locked-out device leaves that state only by a factory reset under the
  physical recovery gesture.\<close>

theorem management_refines_lifecycle:
  assumes "device_run P from_slice to_vec h" and "handle_hsm P q h = Some (resp, h')"
  shows "lifecycle (command_of q) (h_physical_recovery_authorized h) (h_state h) (h_state h')
    \<and> (h_state h = LockedOut \<and> h_state h' \<noteq> LockedOut \<longrightarrow> command_of q = FactoryReset \<and> h_physical_recovery_authorized h)
    \<and> (h_state h \<noteq> ProdReady \<and> h_state h' = ProdReady \<longrightarrow> command_of q = Unlock \<and> h_state h = ProdLocked)"
proof -
  have l: "lifecycle (command_of q) (h_physical_recovery_authorized h) (h_state h) (h_state h')"
    by (rule handle_hsm_refines [OF assms(2) device_run_inv [OF assms(1)]])
  then show ?thesis by (auto elim: lifecycle_locked_outE lifecycle_readyE)
qed

theorem management_refines_lifecycle_witness:
  "\<exists>resp h'. handle_hsm sample_platform (hsm_request_default\<lparr>hq_init := Some sample_init_req\<rparr>) sample_boot = Some (resp, h')
     \<and> h_state h' = ProdLocked \<and> lifecycle Init False Uninitialized ProdLocked"
proof -
  obtain h seed where k: "h_state h = ProdLocked" "\<exists>resp. hsm_init sample_platform sample_init_req sample_boot = (resp, h) \<and> \<not> is_err resp"
    using sample_keyed by metis
  let ?q = "hsm_request_default\<lparr>hq_init := Some sample_init_req\<rparr>"
  obtain resp where r: "handle_hsm sample_platform ?q sample_boot = Some (resp, h)"
    using k(2) by (auto simp: handle_hsm_def count_set_def hsm_request_default_def)
  have c: "command_of ?q = Init" by (simp add: command_of_def)
  have f: "h_physical_recovery_authorized sample_boot = False"
    using sample.boot_floor_reliable(4) [OF mock_healthy_new] by (simp add: sample_boot_def)
  show ?thesis
    using management_refines_lifecycle [OF sample_boot_run r] r k(1) by (auto simp: c f)
qed

section \<open>Signing\<close>

text \<open>C1: a certificate is issued only by a device that is ready, holds its CA key, has a set clock and a
  seeded generator, for a request that passed validation; it is signed by that CA key, is valid from
  300 s before the device's time for exactly the requested whole seconds, at most 24 hours, and the
  arithmetic on its validity window never wraps.\<close>

theorem certificate_only_when_allowed:
  assumes "device_run P from_slice to_vec h"
    and "handle_request P q h = Some (resp, h')" and "rs_sign_ssh_key resp = Some sg"
  shows "\<exists>req ca now v p. rq_sign_ssh_key q = Some req
    \<and> (h_state h = DevReady \<or> h_state h = ProdReady) \<and> h_ca h = Some ca \<and> seeded (h_drbg h')
    \<and> now_unix (pm P) (h_mono h) (h_clock h) = Some (Some now)
    \<and> validate (px P) (pw P) req = Some (Inr v)
    \<and> sg_signed_key sg = build_certificate (px P) p ca
    \<and> cp_key_id p = key_id req \<and> cp_principals p = principals req \<and> cp_extensions p = v_extensions v
    \<and> cp_critical_options p = critical_options req
    \<and> uint (cp_valid_after p) = sint now - 300
    \<and> uint (cp_valid_before p) = sint now + sint (v_duration_ns v) div 10 ^ 9
    \<and> uint (cp_valid_before p) \<le> sint now + 86400"
proof -
  obtain req where req: "rq_sign_ssh_key q = Some req" "handle_sign P req h = Some (resp, h')"
    using handle_request_signed [OF assms(2,3)] .
  obtain ca now v nonce serial where s: "signer_ready (h_state h)" "h_ca h = Some ca"
    "now_unix (pm P) (h_mono h) (h_clock h) = Some (Some now)" "validate (px P) (pw P) req = Some (Inr v)"
    "sg_signed_key sg = build_certificate (px P) (cert_params_of req v now nonce serial) ca" "seeded (h_drbg h')"
    using handle_sign_signed [OF req(2) assms(3)] .
  let ?p = "cert_params_of req v now nonce serial"
  note v = validate_ok [OF s(4)]
  have "clock_inv (now_micros (pm P) (h_mono h)) (h_clock h)"
    using device_run_inv [OF assms(1)] by (simp add: hsm_inv_def)
  note now = now_unix_range [OF this s(3)]
  have "sint (v_duration_ns v) \<le> 24 * 3600 * 10 ^ 9" using v(5) by (simp add: MAX_VALIDITY_NS_def)
  note w = cert_window [OF now v(4) this]
  have "h_state h = DevReady \<or> h_state h = ProdReady" using s(1) by (cases "h_state h") simp_all
  moreover have "cp_key_id ?p = key_id req" "cp_principals ?p = principals req" "cp_extensions ?p = v_extensions v"
    "cp_critical_options ?p = critical_options req" using v(6) by (simp_all add: cert_params_of_def Let_def)
  ultimately show ?thesis using req(1) s w by fastforce
qed


lemma sample_seeded: "\<exists>h1. ensure_seeded sample_platform h = (Inr (), h1)"
  by (cases "seeded (h_drbg h)") (auto simp: ensure_seeded_def drbg_seed_def counting_gather Let_def)

theorem certificate_only_when_allowed_witness:
  "\<exists>(h :: (nat, mock_clock, mock_flash, nat) hsm) resp h' sg p ca.
     handle_request sample_platform sample_sign h = Some (resp, h') \<and> rs_sign_ssh_key resp = Some sg
     \<and> sg_signed_key sg = build_certificate sample_externs p ca \<and> uint (cp_valid_before p) \<le> 1700086400"
proof -
  let ?P = sample_platform and ?tv = "\<lambda>_. None" and ?t = "request_default\<lparr>rq_hsm := Some (hsm_request_default\<lparr>hq_set_time := Some sample_time\<rparr>)\<rparr>"
  obtain f where f: "mock_healthy f" "stored_config ?P (mock_content f) = Some sample_dev_config"
    "stored_blob ?P (mock_content f) = Some sample_dev_blob" "device_secret f = Inr MOCK_DEVICE_SECRET"
    "mock_content f TimeA = erased_sector" "mock_content f TimeB = erased_sector"
    using sample_dev_flash .
  let ?h0 = "boot ?P 0 (mock_at 0) f"
  have u: "unwrap_seed (px ?P) (dev_kek (px ?P) MOCK_DEVICE_SECRET) sample_dev_blob = Inr (replicate 32 7)"
    by (simp add: sample_dev_blob_def unwrap_wrap)
  have "mode sample_dev_config = Dev" "fs_device_secret (pf ?P) f = Inr MOCK_DEVICE_SECRET"
    using f(4) by (simp_all add: sample_dev_config_def)
  note b = sample.boot_dev_reliable [OF f(1,2) this(1) f(3) this(2) u, of 0 "mock_at 0"]
  have sf: "stored_floor ?P (mock_content f) = (None, False)"
    using f(5,6) by (simp add: stored_floor_def TIME_FLOOR_def ab_defs)
  note fl = sample.boot_floor_reliable [OF f(1), of 0 "mock_at 0"]
  obtain resp h c where t: "hsm_set_time ?P sample_time ?h0 = Some (resp, h)" "\<not> is_err resp"
    "h_clock h = c" "h_state h = h_state ?h0" "h_ca h = h_ca ?h0" "h_mono h = mock_at 0" "h_trusted_time_floor h = Some 1700000000"
    "now_unix mock_clock_ops (mock_at 0) c = Some (Some 1700000000)"
    by (rule sample_set_time [of ?h0]) (use b fl sf f(5,6) in simp_all)
  have "device_run ?P (\<lambda>_. Inr ?t) ?tv ?h0" by (rule booted)
  moreover have "process_line ?P (\<lambda>_. Inr ?t) ?tv [0x7B] ?h0 = Some (as_bytes ''{\"error\":\"internal error\"}'', h)"
    using t(1) by (simp add: process_line_def handle_line_def json_ws_def handle_request_def handle_hsm_def count_set_def
        request_default_def hsm_request_default_def Let_def)
  ultimately have run: "device_run ?P (\<lambda>_. Inr ?t) ?tv h" by (blast intro: stepped serve)
  obtain h1 where e: "ensure_seeded ?P h = (Inr (), h1)" using sample_seeded by blast
  have ca: "h_ca h1 = Some (ca_from_seed (replicate 32 7))" using ensure_seeded_frame [OF e] t(5) b(2) by (simp add: same_session_def)
  obtain nonce h2 where n: "hsm_random ?P 32 h1 = (nonce, h2)" by fastforce
  have ca2: "h_ca h2 = Some (ca_from_seed (replicate 32 7))" using hsm_random_frame [OF n] ca by (simp add: same_session_def)
  obtain serial d where d: "drbg_next_u64 sample_externs (h_drbg h2) = (serial, d)" by fastforce
  obtain resp' sg where s: "handle_request ?P sample_sign h = Some (resp', h2\<lparr>h_drbg := d\<rparr>)" "rs_sign_ssh_key resp' = Some sg"
    using t(3-6,8) b(1,2) e n d ca2
    by (simp add: handle_request_def sample_sign_def request_default_def count_set_def handle_sign_def sample_request_valid Let_def)
  from certificate_only_when_allowed [OF run s] obtain ca p where
    "sg_signed_key sg = build_certificate sample_externs p ca" "uint (cp_valid_before p) \<le> 1700000000 + 86400"
    using t(3,6,8) by auto
  then show ?thesis using s by fastforce
qed

section \<open>The PIN\<close>

text \<open>C2: brute force is bounded. Whoever drives a locked production device with requests of any kind, through every
  command that takes a PIN, with losses of the transport, waits and power cycles, in any order and
  number, but without the right PIN and without the recovery gesture, learns of at most
  \<^verbatim>\<open>max_retries\<close> PINs that they are wrong, and the device stays locked: the counter in flash outlives
  the power cycles.\<close>

theorem brute_force_bounded:
  assumes "reliable_flash (pf P) content healthy" and "healthy (h_flash h0)"
    and "h_state h0 = ProdLocked \<or> h_state h0 = LockedOut" and "h_config h0 = Some cfg" and "mode cfg = Prod" and "max_retries cfg \<noteq> 0"
    and "stored_config P (content (h_flash h0)) = Some cfg" and "\<not> h_physical_recovery_authorized h0" and "guess_run P h0 n h"
  shows "n \<le> unat (max_retries cfg) \<and> (h_state h = ProdLocked \<or> h_state h = LockedOut)"
proof -
  have rel: "hsm_reliable P content healthy" using assms(1) by (simp add: hsm_reliable_def)
  have "hsm_reliable.guess_inv P content healthy cfg 0 h0"
    using assms by (auto simp: hsm_reliable.guess_inv_def [OF rel] unat_gt_0)
  from hsm_reliable.guess_run_inv [OF rel assms(9) this assms(5)] show ?thesis
    by (auto simp: hsm_reliable.guess_inv_def [OF rel])
qed

theorem brute_force_bounded_witness:
  "\<exists>h0 h cfg. guess_run sample_platform h0 1 h \<and> h_config h0 = Some cfg \<and> 1 \<le> unat (max_retries cfg)"
proof -
  let ?P = sample_platform
  obtain f h0 where k: "h0 = boot ?P 0 (mock_at 0) f" "keyed ?P mock_content mock_healthy h0 ''123456'' (replicate 32 7)"
    "h_state h0 = ProdLocked" "h_config h0 = Some sample_prod_config"
    using sample_prod by metis
  obtain m h where g: "hsm_unlock ?P \<lparr> ur_pin = ''654321'' \<rparr> h0 = Some (m, h)" "rejected_pin m"
    by (rule sample_wrong_unlock [OF k(2-4)]) simp
  have "guess_run ?P h0 (if rejected_answer (response_default\<lparr>rs_hsm := Some m\<rparr>) then Suc 0 else 0) h"
    by (rule guess_run.asks [OF guess_run.begins _ unlock_request_wrong [OF g k(3)]]) (simp add: handle_unlock_request g(1))
  then have run: "guess_run ?P h0 1 h" using g(2) by (simp add: rejected_answer_def)
  have "reliable_flash (pf ?P) mock_content mock_healthy" "mode sample_prod_config = Prod" "max_retries sample_prod_config \<noteq> 0"
    by (simp_all add: mock.reliable_flash_axioms)
  moreover have "mock_healthy (h_flash h0)" "stored_config ?P (mock_content (h_flash h0)) = Some sample_prod_config"
    using k(2,4) by (auto simp: keyed_def)
  moreover have "\<not> h_physical_recovery_authorized h0" using k(1) boot_no_recovery [of ?P 0 "mock_at 0" f] by simp
  ultimately have "1 \<le> unat (max_retries sample_prod_config)"
    using brute_force_bounded [OF _ _ disjI1 [OF k(3)] k(4) _ _ _ _ run] by blast
  then show ?thesis using run k(4) by blast
qed

text \<open>C7: no free guess. If the answer of a device to an unlock request depends at all on the PIN in it, the
  device was locked, no backoff was pending, and the attempt had been written to the persistent
  counter before the PIN was looked at: whatever the PIN, it is checked on the flash with the charged
  counter, and unless the device ends up unlocked that charged counter is what the flash holds
  afterwards.\<close>

theorem no_free_guess:
  assumes "flash_store (pf P) content" and "hsm_unlock P r1 h \<noteq> hsm_unlock P r2 h"
  shows "h_state h = ProdLocked \<and> (\<exists>cfg f1 n f2. pin_count (pf P) (h_flash h) = (Inr (count_used (content (h_flash h) PinCounter)), f1)
    \<and> (count_used (content (h_flash h) PinCounter) = 0 \<or> h_pin_backoff_until_ms h \<le> now_ms P h)
    \<and> pin_tick (pf P) f1 = (Inr n, f2) \<and> n \<le> count_used (content f2 PinCounter)
    \<and> (count_used (content (h_flash h) PinCounter) < SECTOR_LEN \<longrightarrow> n = Suc (count_used (content (h_flash h) PinCounter)))
    \<and> (\<forall>pin. verify_pin P pin h = Some (check_pin P cfg n pin (h\<lparr>h_flash := f2\<rparr>)))
    \<and> (\<forall>r resp h'. hsm_unlock P r h = Some (resp, h') \<longrightarrow>
         h_state h' = ProdReady \<or> content (h_flash h') PinCounter = content f2 PinCounter))"
proof -
  have st: "hsm_flash P content" using assms(1) by (simp add: hsm_flash_def)
  obtain cr f1 where c: "pin_count (pf P) (h_flash h) = (cr, f1)" by fastforce
  obtain tr f2 where t: "pin_tick (pf P) f1 = (tr, f2)" by fastforce
  have s: "h_state h = ProdLocked" using assms(2) by (cases "h_state h") (auto simp: hsm_unlock_def)
  obtain cfg where cfg: "h_config h = Some cfg"
    using assms(2) s by (cases "h_config h") (auto simp: hsm_unlock_def verify_pin_def)
  have differ: "verify_pin P (ur_pin r1) h \<noteq> verify_pin P (ur_pin r2) h" using assms(2) s by (auto simp: hsm_unlock_def)
  then obtain k n where k: "cr = Inr k" "tr = Inr n" "k = 0 \<or> h_pin_backoff_until_ms h \<le> now_ms P h"
    by (cases cr; cases tr) (auto simp: verify_pin_def cfg c t Let_def now_ms_def not_less split: if_splits)
  have v: "verify_pin P pin h = Some (check_pin P cfg n pin (h\<lparr>h_flash := f2\<rparr>))" for pin
    using k t by (auto simp: verify_pin_def cfg c Let_def now_ms_def)
  have "content (h_flash h') PinCounter = content f2 PinCounter"
    if "hsm_unlock P r h = Some (resp, h')" "h_state h' \<noteq> ProdReady" for r resp h'
    using that s hsm_flash.check_pin_Inl_counter [OF st, of cfg n "ur_pin r" "h\<lparr>h_flash := f2\<rparr>" resp h']
    by (auto simp: hsm_unlock_def v split: sum.splits prod.splits)
  moreover note cs = flash_store.pin_count_spec [OF assms(1) c]
  have "k = count_used (content (h_flash h) PinCounter)" using cs(3) k(1) by blast
  moreover note flash_store.pin_tick_ok(1,3) [OF assms(1) t [unfolded k(2)]]
  ultimately show ?thesis
    using s c t k v cs(1) by (intro conjI exI [of _ cfg] exI [of _ f1] exI [of _ n] exI [of _ f2]) auto
qed

theorem no_free_guess_witness:
  "\<exists>(h :: (nat, mock_clock, mock_flash, nat) hsm) f1 n f2. h_state h = ProdLocked \<and> pin_count mock_ops (h_flash h) = (Inr 0, f1) \<and> pin_tick mock_ops f1 = (Inr n, f2) \<and> n = 1"
proof -
  let ?P = sample_platform
  obtain h where k: "keyed ?P mock_content mock_healthy h ''123456'' (replicate 32 7)" "h_state h = ProdLocked"
    "h_config h = Some sample_prod_config"
    using sample_prod by metis
  have u0: "count_used (mock_content (h_flash h) PinCounter) = 0" using k(1) by (simp add: keyed_def)
  obtain h1 where u: "hsm_unlock ?P \<lparr> ur_pin = ''123456'' \<rparr> h = Some (unlock_ok, h1)" using sample.keyed_unlock [OF k(1,2)] by blast
  obtain resp h2 where w: "hsm_unlock ?P \<lparr> ur_pin = ''654321'' \<rparr> h = Some (resp, h2)" "rejected_pin resp"
    by (rule sample_wrong_unlock [OF k]) simp
  have "\<not> rejected_pin unlock_ok" by (simp add: rejected_pin_def unlock_ok_def hsm_with_def hsm_response_default_def)
  then have d: "hsm_unlock ?P \<lparr> ur_pin = ''123456'' \<rparr> h \<noteq> hsm_unlock ?P \<lparr> ur_pin = ''654321'' \<rparr> h" using u w by auto
  have "flash_store (pf ?P) mock_content" by (simp add: mock.flash_store_axioms)
  from no_free_guess [OF this d, unfolded u0] obtain f1 n f2 where
    "pin_count (pf ?P) (h_flash h) = (Inr 0, f1)" "pin_tick (pf ?P) f1 = (Inr n, f2)" "n = Suc 0"
    by (auto simp: SECTOR_LEN_def simp del: sample_platform_simps)
  then show ?thesis using k(2) by auto
qed

text \<open>C4: only the PIN opens the device. When an unlock request brings a device to the unlocked state, the
  key record in flash decrypts under the key derived from the PIN of that request (and from the
  device secret), and the CA key loaded is the one in the record.\<close>

theorem unlock_needs_pin:
  assumes "flash_store (pf P) content" and "hsm_unlock P req h = Some (resp, h')"
    and "h_state h \<noteq> ProdReady" and "h_state h' = ProdReady"
  shows "h_state h = ProdLocked \<and> (\<exists>cfg blob secret kek seed. h_config h = Some cfg
    \<and> stored_blob P (content (h_flash h)) = Some blob \<and> fs_device_secret (pf P) (h_flash h) = Inr secret
    \<and> pin_kek (px P) (as_bytes (ur_pin req)) (salt blob) (argon2 cfg) secret = Inr kek
    \<and> unwrap_seed (px P) kek blob = Inr seed
    \<and> h_ca h' = Some (ca_from_seed seed) \<and> h_wrap_kek h' = Some kek \<and> h_wrap_salt h' = Some (salt blob))"
proof -
  obtain seed kek slt h1 where u: "h_state h = ProdLocked" "verify_pin P (ur_pin req) h = Some (Inr (seed, kek, slt), h1)"
    "h' = h1\<lparr>h_ca := Some (ca_from_seed seed), h_wrap_kek := Some kek, h_wrap_salt := Some slt, h_state := ProdReady\<rparr>"
    by (rule hsm_unlock_verified [OF assms(2-4)])
  have "hsm_flash P content" using assms(1) by (simp add: hsm_flash_def)
  then show ?thesis by (rule hsm_flash.verify_pin_Inr [OF _ u(2)]) (simp add: u opens_def)
qed

theorem unlock_needs_pin_witness:
  "\<exists>(h :: (nat, mock_clock, mock_flash, nat) hsm) h' blob kek seed. hsm_unlock sample_platform \<lparr> ur_pin = ''123456'' \<rparr> h = Some (unlock_ok, h')
     \<and> stored_blob sample_platform (mock_content (h_flash h)) = Some blob
     \<and> unwrap_seed sample_externs kek blob = Inr seed \<and> h_ca h' = Some (ca_from_seed seed)"
proof -
  let ?P = sample_platform
  obtain h seed where k: "keyed ?P mock_content mock_healthy h ''123456'' seed" "h_state h = ProdLocked"
    using sample_keyed by metis
  obtain h' where u: "hsm_unlock ?P \<lparr> ur_pin = ''123456'' \<rparr> h = Some (unlock_ok, h')" "h_state h' = ProdReady"
    using sample.keyed_unlock [OF k(1,2)] by blast
  have "flash_store (pf ?P) mock_content" "h_state h \<noteq> ProdReady" using k(2) by (simp_all add: mock.flash_store_axioms)
  from unlock_needs_pin [OF this(1) u(1) this(2) u(2)] u(1) show ?thesis by (intro exI [of _ h] exI [of _ h']) auto
qed

text \<open>C10: initialise, then unlock. A successful production initialisation on a working flash leaves the
  device locked under the chosen PIN, and the same PIN unlocks it, at once and after a power cycle,
  to the CA key whose public key the device reports.\<close>

theorem init_then_unlock:
  assumes "reliable_flash (pf P) content healthy" and "lengths_ok (px P)" and "aead_correct (px P)"
    and "hsm_init P req h = (resp, h')" and "\<not> is_err resp" and "ir_mode req = ''prod''" and "healthy (h_flash h)"
    and "ab_max_seq (crc_of P) KEY (content (h_flash h)) \<noteq> - 1"
    and "ab_max_seq (crc_of P) CONFIG (content (h_flash h)) \<noteq> - 1"
  shows "h_state h' = ProdLocked \<and> (\<exists>pin seed. ir_pin req = Some pin
    \<and> h_ca_pubkey h' = Some (public_bytes (px P) (ca_from_seed seed))
    \<and> (\<forall>h1. h1 = h' \<or> (\<exists>e m. h1 = boot P e m (h_flash h')) \<longrightarrow>
        (\<exists>h2. hsm_unlock P \<lparr> ur_pin = pin \<rparr> h1 = Some (unlock_ok, h2) \<and> h_state h2 = ProdReady
          \<and> h_ca h2 = Some (ca_from_seed seed))))"
proof -
  have rel: "hsm_reliable P content healthy" using assms(1) by (simp add: hsm_reliable_def)
  have "init_prod P req h = (resp, h')"
    using assms(4-6) by (auto simp: hsm_init_def err_defs split: if_splits device_state.splits)
  from hsm_reliable.init_prod_keyed [OF rel this assms(5,7,2,3,8,9)]
  obtain pin seed where k: "ir_pin req = Some pin" "keyed P content healthy h' pin seed" "h_state h' = ProdLocked" .
  have "\<exists>h2. hsm_unlock P \<lparr> ur_pin = pin \<rparr> h1 = Some (unlock_ok, h2) \<and> h_state h2 = ProdReady \<and> h_ca h2 = Some (ca_from_seed seed)"
    if "h1 = h' \<or> (\<exists>e m. h1 = boot P e m (h_flash h'))" for h1
    using that hsm_reliable.keyed_unlock [OF rel] hsm_reliable.keyed_boot [OF rel k(2)] k(2,3) by blast
  moreover have "h_ca_pubkey h' = Some (public_bytes (px P) (ca_from_seed seed))" using k(2) by (simp add: keyed_def)
  ultimately show ?thesis using k(1,3) by blast
qed

theorem init_then_unlock_witness:
  "\<exists>resp h' h2. hsm_init sample_platform sample_init_req sample_boot = (resp, h')
     \<and> hsm_unlock sample_platform \<lparr> ur_pin = ''123456'' \<rparr> (boot sample_platform 5 (mock_at 9) (h_flash h')) = Some (unlock_ok, h2)"
proof -
  let ?P = sample_platform
  obtain resp h' where i: "hsm_init ?P sample_init_req sample_boot = (resp, h')" "\<not> is_err resp" using sample_init .
  have "reliable_flash (pf ?P) mock_content mock_healthy" "lengths_ok (px ?P)" "aead_correct (px ?P)"
    "ir_mode sample_init_req = ''prod''" "mock_healthy (h_flash sample_boot)"
    "ab_max_seq (crc_of ?P) KEY (mock_content (h_flash sample_boot)) \<noteq> - 1"
    "ab_max_seq (crc_of ?P) CONFIG (mock_content (h_flash sample_boot)) \<noteq> - 1"
    by (simp_all add: mock.reliable_flash_axioms sample_init_req_def)
  from init_then_unlock [OF this(1-3) i this(4-7)] obtain pin seed where "ir_pin sample_init_req = Some pin"
    "\<forall>h1. h1 = h' \<or> (\<exists>e m. h1 = boot ?P e m (h_flash h')) \<longrightarrow>
        (\<exists>h2. hsm_unlock ?P \<lparr> ur_pin = pin \<rparr> h1 = Some (unlock_ok, h2) \<and> h_state h2 = ProdReady \<and> h_ca h2 = Some (ca_from_seed seed))"
    by blast
  moreover from this(1) have "pin = ''123456''" by (simp add: sample_init_req_def)
  ultimately show ?thesis using i by blast
qed

text \<open>C13: a PIN change takes. After a successful change on a device whose key the current PIN opens, the
  new PIN unlocks it, also after a power cycle, to the same CA key.\<close>

theorem change_pin_then_unlock:
  assumes "reliable_flash (pf P) content healthy" and "lengths_ok (px P)" and "aead_correct (px P)"
    and "keyed P content healthy h pin seed"
    and "hsm_change_pin P \<lparr> cr_current_pin = pin, cr_new_pin = new \<rparr> h = Some (resp, h')" and "\<not> is_err resp"
    and "ab_max_seq (crc_of P) KEY (content (h_flash h)) \<noteq> - 1"
  shows "h_state h' = h_state h \<and> (\<exists>h2. hsm_unlock P \<lparr> ur_pin = new \<rparr> (boot P e m (h_flash h')) = Some (unlock_ok, h2)
    \<and> h_state h2 = ProdReady \<and> h_ca h2 = Some (ca_from_seed seed))"
proof -
  have rel: "hsm_reliable P content healthy" using assms(1) by (simp add: hsm_reliable_def)
  note c = hsm_reliable.keyed_change_pin [OF rel assms(4-6,2,3,7)]
  from hsm_reliable.keyed_unlock [OF rel hsm_reliable.keyed_boot [OF rel c(1)]] c(2) show ?thesis by blast
qed

theorem change_pin_then_unlock_witness:
  "\<exists>(h :: (nat, mock_clock, mock_flash, nat) hsm) resp h' h2.
     hsm_change_pin sample_platform \<lparr> cr_current_pin = ''123456'', cr_new_pin = ''246810'' \<rparr> h = Some (resp, h')
     \<and> hsm_unlock sample_platform \<lparr> ur_pin = ''246810'' \<rparr> (boot sample_platform 5 (mock_at 9) (h_flash h')) = Some (unlock_ok, h2)"
proof -
  let ?P = sample_platform
  obtain h where k: "keyed ?P mock_content mock_healthy h ''123456'' (replicate 32 7)" "h_state h = ProdLocked"
    "h_config h = Some sample_prod_config" "ab_max_seq (crc_of ?P) KEY (mock_content (h_flash h)) = 1"
    using sample_prod by metis
  have new: "pin_len_ok ''246810''" by (simp add: pin_len_ok_def PIN_MIN_def PIN_MAX_def)
  obtain resp h' where c: "hsm_change_pin ?P \<lparr> cr_current_pin = ''123456'', cr_new_pin = ''246810'' \<rparr> h = Some (resp, h')" "\<not> is_err resp"
    using sample.keyed_change_pin_succeeds [OF k(1) _ sample_entropy k(3) _ new] k(2,4) sample_pin_kek by auto
  have "reliable_flash (pf ?P) mock_content mock_healthy" "lengths_ok (px ?P)" "aead_correct (px ?P)"
    "ab_max_seq (crc_of ?P) KEY (mock_content (h_flash h)) \<noteq> - 1"
    using k(4) by (simp_all add: mock.reliable_flash_axioms)
  from change_pin_then_unlock [OF this(1-3) k(1) c this(4), of 5 "mock_at 9"] c(1) show ?thesis by blast
qed



text \<open>C11: a factory reset erases. When the device reports a successful reset, the request carried the word
  ERASE and was authorised by the state, the gesture or the right PIN; no key, configuration or time
  floor can be read from flash any more, the attempt counter is erased and no secret is in RAM.\<close>

theorem factory_reset_erases:
  assumes "flash_store (pf P) content" and "hsm_factory_reset P req h = Some (resp, h')" and "\<not> is_err resp"
  shows "fr_confirm req = ''ERASE''
    \<and> (h_state h = Uninitialized \<or> h_state h = DevReady \<or> h_physical_recovery_authorized h
       \<or> (\<exists>pin seed kek slt h1. fr_pin req = Some pin \<and> verify_pin P pin h = Some (Inr (seed, kek, slt), h1)))
    \<and> stored_blob P (content (h_flash h')) = None \<and> stored_config P (content (h_flash h')) = None
    \<and> stored_floor P (content (h_flash h')) = (None, False) \<and> content (h_flash h') PinCounter = erased_sector
    \<and> h_state h' = Uninitialized \<and> h_ca h' = None \<and> h_wrap_kek h' = None \<and> h_wrap_salt h' = None"
proof -
  have st: "hsm_flash P content" using assms(1) by (simp add: hsm_flash_def)
  obtain h1 where r: "erase_everything P h1 = (resp, h')" "fr_confirm req = ''ERASE''"
    "h_state h \<in> {Uninitialized, DevReady} \<or> h_physical_recovery_authorized h
     \<or> h_state h \<noteq> LockedOut \<and> (\<exists>pin seed kek slt. fr_pin req = Some pin \<and> verify_pin P pin h = Some (Inr (seed, kek, slt), h1))"
    using hsm_flash.hsm_factory_reset_ok [OF st assms(2,3)] .
  note e = hsm_flash.erase_everything_ok [OF st r(1) assms(3)]
  have "stored_floor P (content (h_flash h')) = (None, False)" "stored_blob P (content (h_flash h')) = None"
    "stored_config P (content (h_flash h')) = None" "content (h_flash h') PinCounter = erased_sector"
    using e(1-4) by (simp_all add: stored_floor_def stored_blob_def stored_config_def)
  moreover have "h_state h = Uninitialized \<or> h_state h = DevReady \<or> h_physical_recovery_authorized h
       \<or> (\<exists>pin seed kek slt h1. fr_pin req = Some pin \<and> verify_pin P pin h = Some (Inr (seed, kek, slt), h1))"
    using r(3) by auto
  ultimately show ?thesis using e(5,7-9) r(2) by simp
qed

theorem factory_reset_erases_witness:
  "\<exists>(h :: (nat, mock_clock, mock_flash, nat) hsm) resp h'.
     hsm_factory_reset sample_platform \<lparr> fr_confirm = ''ERASE'', fr_pin = Some ''123456'' \<rparr> h = Some (resp, h')
     \<and> h_state h = ProdLocked \<and> h_state h' = Uninitialized \<and> stored_blob sample_platform (mock_content (h_flash h')) = None"
proof -
  let ?P = sample_platform and ?r = "\<lparr> fr_confirm = ''ERASE'', fr_pin = Some ''123456'' \<rparr>"
  obtain f h where k: "h = boot ?P 0 (mock_at 0) f" "keyed ?P mock_content mock_healthy h ''123456'' (replicate 32 7)"
    "h_state h = ProdLocked" "mock_healthy f"
    using sample_prod by metis
  obtain kek slt h1 where v: "verify_pin ?P ''123456'' h = Some (Inr (replicate 32 7, kek, slt), h1)"
    "keyed ?P mock_content mock_healthy h1 ''123456'' (replicate 32 7)"
    using sample.keyed_verify_pin [OF k(2)] by metis
  have "mock_healthy (h_flash h1)" using v(2) by (simp add: keyed_def)
  then obtain resp h' where e: "erase_everything ?P h1 = (resp, h')" "\<not> is_err resp"
    by (rule sample.erase_everything_succeeds)
  have "\<not> h_physical_recovery_authorized h" using sample.boot_floor_reliable(4) [OF k(4)] k(1) by simp
  then have r: "hsm_factory_reset ?P ?r h = Some (resp, h')"
    using k(3) v(1) e(1) by (simp add: hsm_factory_reset_def authorize_reset_def)
  have "flash_store (pf ?P) mock_content" by (simp add: mock.flash_store_axioms)
  from factory_reset_erases [OF this r e(2)] r k(3) show ?thesis by blast
qed

text \<open>C12: trusted time survives a power cycle. An accepted \<^verbatim>\<open>setTime\<close> never moves the floor back (unless the
  gesture was made), leaves in flash the floor it has in RAM, and after a power cycle the first
  \<^verbatim>\<open>setTime\<close> that is accepted is within 15 minutes of that floor.\<close>

theorem trusted_time_survives_reboot:
  assumes "reliable_flash (pf P) content healthy" and "healthy (h_flash h)"
    and "stored_floor P (content (h_flash h)) = (h_trusted_time_floor h, h_trusted_time_floor_unavailable h)"
    and "ab_max_seq (crc_of P) TIME_FLOOR (content (h_flash h)) \<noteq> - 1"
    and "hsm_set_time P req h = Some (resp, h')" and "\<not> is_err resp" and "h_trusted_time_floor h' = Some fl"
  shows "(\<forall>old. h_trusted_time_floor h = Some old \<and> \<not> h_physical_recovery_authorized h \<longrightarrow> sint old \<le> sint fl)
    \<and> h_trusted_time_floor (boot P e m (h_flash h')) = Some fl
    \<and> (\<forall>req2 m' resp2 h2. hsm_set_time P req2 ((boot P e m (h_flash h'))\<lparr>h_mono := m'\<rparr>) = Some (resp2, h2) \<and> \<not> is_err resp2
        \<longrightarrow> \<bar>sint (st_unix_seconds req2) - sint fl\<bar> \<le> 900)"
proof -
  have rel: "hsm_reliable P content healthy" using assms(1) by (simp add: hsm_reliable_def)
  note p = hsm_reliable.hsm_set_time_persists [OF rel assms(5,6,2,3,4)]
  have s: "stored_floor P (content (h_flash h')) = (Some fl, False)" using p(1) assms(7) by simp
  have "sint old \<le> sint fl" if "h_trusted_time_floor h = Some old" "\<not> h_physical_recovery_authorized h" for old
    using assms(5)
  proof (cases rule: hsm_set_time_cases)
    case (accepted had c)
    then have "h_trusted_time_floor h' = next_floor P h c (st_unix_seconds req)" by (simp add: same_session_def)
    then show ?thesis using next_floor_mono [OF that, of P c "st_unix_seconds req"] assms(7) by auto
  qed (use assms(6) in simp)
  then show ?thesis
    using hsm_reliable.first_set_near_floor [OF rel p(2) s] hsm_reliable.boot_floor_reliable(1) [OF rel p(2), of e m] s by auto
qed

theorem trusted_time_survives_reboot_witness:
  "\<exists>resp h'. hsm_set_time sample_platform sample_time sample_boot = Some (resp, h')
     \<and> h_trusted_time_floor (boot sample_platform 3 (mock_at 0) (h_flash h')) = Some 1700000000"
proof -
  let ?P = sample_platform
  have s: "stored_floor ?P (\<lambda>_. erased_sector) = (None, False)" by (simp add: stored_floor_def TIME_FLOOR_def ab_defs)
  have b: "h_trusted_time_floor sample_boot = None" "\<not> h_trusted_time_floor_unavailable sample_boot"
    using sample.boot_floor_reliable(1,2) [OF mock_healthy_new, of 0 "mock_at 0"] s by (simp_all add: sample_boot_def)
  obtain resp h' where t: "hsm_set_time ?P sample_time sample_boot = Some (resp, h')" "\<not> is_err resp" "h_trusted_time_floor h' = Some 1700000000"
    by (rule sample_set_time [of sample_boot]) (use b in simp_all)
  have "reliable_flash (pf ?P) mock_content mock_healthy" "mock_healthy (h_flash sample_boot)"
    "stored_floor ?P (mock_content (h_flash sample_boot)) = (h_trusted_time_floor sample_boot, h_trusted_time_floor_unavailable sample_boot)"
    "ab_max_seq (crc_of ?P) TIME_FLOOR (mock_content (h_flash sample_boot)) \<noteq> - 1"
    using b s by (simp_all add: mock.reliable_flash_axioms)
  from trusted_time_survives_reboot [OF this t, of 3 "mock_at 0"] t(1) show ?thesis by blast
qed

text \<open>C16: initialisation succeeds. On a device that is not initialised, with working flash and a healthy
  entropy source, a production request with a PIN of 6 to 64 bytes and a positive number of retries
  is carried out.\<close>

theorem init_succeeds:
  assumes "reliable_flash (pf P) content healthy" and "healthy (h_flash h)" and "lengths_ok (px P)"
    and "h_config h = None" and "fst (prepare_keygen_entropy P h) = Inr ()"
    and "fs_device_secret (pf P) (h_flash h) = Inr secret"
    and "\<forall>slt. \<exists>kek. pin_kek (px P) (as_bytes pin) slt DEFAULT_ARGON secret = Inr kek"
    and "ir_mode req = ''prod''" and "ir_pin req = Some pin" and "6 \<le> length pin" and "length pin \<le> 64"
    and "ir_max_retries req \<noteq> Some 0"
    and "ab_max_seq (crc_of P) KEY (content (h_flash h)) \<noteq> - 1"
    and "ab_max_seq (crc_of P) CONFIG (content (h_flash h)) \<noteq> - 1"
  shows "\<exists>resp h'. hsm_init P req h = (resp, h') \<and> \<not> is_err resp"
proof -
  have rel: "hsm_reliable P content healthy" using assms(1) by (simp add: hsm_reliable_def)
  have "pin_len_ok pin" "unwrap_or (ir_max_retries req) 10 \<noteq> 0"
    using assms(10-12) by (auto simp: pin_len_ok_def PIN_MIN_def PIN_MAX_def unwrap_or_def split: option.splits)
  then have "\<exists>resp h'. init_prod P req h = (resp, h') \<and> \<not> is_err resp"
    using hsm_reliable.init_prod_succeeds [OF rel assms(2,3,5,6) _ assms(9) _ _ assms(13,14)] assms(7) by blast
  then show ?thesis using assms(4,8) by (simp add: hsm_init_def)
qed

theorem init_succeeds_witness:
  "\<exists>resp h'. hsm_init sample_platform sample_init_req sample_boot = (resp, h') \<and> \<not> is_err resp"
  by (rule init_succeeds [where content = mock_content and healthy = mock_healthy and secret = MOCK_DEVICE_SECRET and pin = "''123456''"])
    (simp_all add: mock.reliable_flash_axioms sample_entropy sample_pin_kek sample_init_req_def)

text \<open>Losing the transport relocks. After a transport reset a production device holds no secret in RAM and
  is not unlocked, and nothing in its flash changed; a device that is not in production keeps its state.\<close>

lemma transport_reset_relocks:
  "(h_state h = ProdReady \<or> h_state h = ProdLocked \<or> h_state h = LockedOut \<or> map_option mode (h_config h) = Some Prod
      \<longrightarrow> h_ca (relock_on_transport_reset h) = None \<and> h_wrap_kek (relock_on_transport_reset h) = None
        \<and> h_wrap_salt (relock_on_transport_reset h) = None \<and> h_state (relock_on_transport_reset h) \<noteq> ProdReady)
    \<and> (h_state h = LockedOut \<longrightarrow> h_state (relock_on_transport_reset h) = LockedOut)
    \<and> h_flash (relock_on_transport_reset h) = h_flash h
    \<and> (h_state h = DevReady \<and> map_option mode (h_config h) \<noteq> Some Prod \<longrightarrow> relock_on_transport_reset h = h)"
  by (auto simp: relock_on_transport_reset_def drop_live_secrets_def Let_def)

section \<open>Malformed requests\<close>

text \<open>C17: a line that is no request changes nothing. A line whose first byte after JSON white space is not an
  opening brace, a line the JSON decoder rejects, a request with more than one variant or none, and a
  management request with more than one command or none are answered with an error, and the state
  of the device is untouched.\<close>

theorem malformed_changes_nothing:
  assumes "find (\<lambda>b. \<not> json_ws b) line \<noteq> Some 0x7B \<or> (\<exists>e. from_slice line = Inl e)
    \<or> (\<exists>q. from_slice line = Inr q
        \<and> (count_set [rq_load_key_signer q \<noteq> None, rq_sign_ssh_key q \<noteq> None, rq_ping q \<noteq> None,
              rq_get_enclave_metrics q \<noteq> None, rq_hsm q \<noteq> None] \<noteq> 1
          \<or> (\<exists>r. rq_hsm q = Some r \<and> rq_load_key_signer q = None \<and> rq_sign_ssh_key q = None \<and> rq_ping q = None
              \<and> rq_get_enclave_metrics q = None
              \<and> count_set [hq_init r \<noteq> None, hq_generate_key r \<noteq> None, hq_get_public_key r \<noteq> None,
                hq_unlock r \<noteq> None, hq_lock r \<noteq> None, hq_set_time r \<noteq> None, hq_status r \<noteq> None,
                hq_change_pin r \<noteq> None, hq_add_entropy r \<noteq> None, hq_self_test r \<noteq> None,
                hq_factory_reset r \<noteq> None, hq_reboot_bootloader r \<noteq> None] \<noteq> 1)))"
  shows "\<exists>resp. handle_line P from_slice line h = Some (resp, h)
    \<and> (rs_error resp \<noteq> None \<or> (\<exists>m. rs_hsm resp = Some m \<and> is_err m))"
proof -
  consider (no_object) "find (\<lambda>b. \<not> json_ws b) line \<noteq> Some 0x7B" | (json) e where "find (\<lambda>b. \<not> json_ws b) line = Some 0x7B" "from_slice line = Inl e"
    | (object) q where "find (\<lambda>b. \<not> json_ws b) line = Some 0x7B" "from_slice line = Inr q"
    by (cases "from_slice line") blast+
  then show ?thesis
  proof cases
    case (object q)
    then show ?thesis
      using assms
      by (auto simp: handle_line_def handle_request_def handle_hsm_def Let_def response_error_def ONE_COMMAND_def count_set_def err_defs
          split: option.split)
  qed (simp_all add: handle_line_def response_error_def)
qed

theorem malformed_changes_nothing_witness:
  "\<exists>resp. handle_line sample_platform (\<lambda>_. Inr request_default) [0x5B, 0x7B] sample_boot = Some (resp, sample_boot)"
  using malformed_changes_nothing [of "[0x5B, 0x7B]" "\<lambda>_. Inr request_default" sample_platform sample_boot]
  by (auto simp: json_ws_def)

section \<open>A read error at boot\<close>

text \<open>An unreadable counter boots unlockable. When the attempt counter cannot be read at boot, a production
  device with a key comes up locked, not locked out, and without backoff, however many attempts the counter
  holds: the read error counts as no attempts.\<close>

lemma counter_error_not_locked_out:
  assumes "pin_count (pf P) (h_flash h) = (Inl e, f1)" and "max_retries c \<noteq> 0"
  shows "h_state (load_prod P (Some blob) c h) = ProdLocked \<and> h_pin_backoff_until_ms (load_prod P (Some blob) c h) = 0"
proof -
  have "0 < unat (max_retries c)" using assms(2) by (simp add: unat_gt_0)
  then show ?thesis using assms(1) by (simp add: load_prod_def drop_live_secrets_def Let_def)
qed

text \<open>A wiped device boots locked. Without a key record (the key was wiped at lockout) a production device comes
  up locked, not locked out, however many attempts its counter holds.\<close>

lemma wiped_device_boots_locked: "h_state (load_prod P None c h) = ProdLocked"
  by (simp add: load_prod_def drop_live_secrets_def Let_def split: prod.split)


end
